(* ===== verification/Prelude.thy ===== *)
theory Prelude
  imports Main "HOL-Library.Word" "HOL-Library.Monad_Syntax"
begin

unbundle bit_operations_syntax

section \<open>Shared vocabulary: machine integers, byte memory, C strings, return codes\<close>

text \<open>
  The types and operations every component theory uses.

  \<^item> Machine integers keep their width: \<open>u8\<close>, \<open>u16\<close>, \<open>u32\<close> are words, so \<open>+\<close>,
    \<open>-\<close> and \<open>*\<close> wrap as they do in the C code.
  \<^item> A C object of a fixed or allocated size is a byte list. A read or write outside it is
    undefined behaviour in C; here it is the value \<open>None\<close> of the option monad, so a
    function of the model returns \<open>Some\<close> exactly when the C function runs without such an
    access. Functions that cannot make one return their value directly.
  \<^item> Error codes are symbolic (\<open>Neg EINVAL\<close> is the C value \<open>-EINVAL\<close>), other
    \<open>int\<close> results are \<open>Code\<close>.
\<close>

named_theorems gp_simps \<open>unfolding rules for small model operations\<close>
named_theorems wf_intros \<open>well-formedness is kept\<close>

subsection \<open>Types\<close>

type_synonym u8 = "8 word"
type_synonym u16 = "16 word"
type_synonym u32 = "32 word"
type_synonym bytes = "u8 list"

datatype errno =
  ENOMEM | EINVAL | EALREADY | ENOTCONN | ENOTSUP | ENOMSG | EIO | ESRCH | EFAULT

datatype cret = Code int | Neg errno

abbreviation OK :: cret where "OK \<equiv> Code 0"

subsection \<open>Byte memory\<close>

definition rd :: "bytes \<Rightarrow> nat \<Rightarrow> u8 option" where
  "rd b i = (if i < length b then Some (b ! i) else None)"

definition rd_block :: "bytes \<Rightarrow> nat \<Rightarrow> nat \<Rightarrow> bytes option" where
  "rd_block b i n = (if i + n \<le> length b then Some (take n (drop i b)) else None)"

definition wr :: "bytes \<Rightarrow> nat \<Rightarrow> u8 \<Rightarrow> bytes option" where
  "wr b i v = (if i < length b then Some (b[i := v]) else None)"

definition wr_block :: "bytes \<Rightarrow> nat \<Rightarrow> bytes \<Rightarrow> bytes option" where
  "wr_block b i v =
     (if i + length v \<le> length b then Some (take i b @ v @ drop (i + length v) b) else None)"

definition memcpy :: "bytes \<Rightarrow> nat \<Rightarrow> bytes \<Rightarrow> nat \<Rightarrow> nat \<Rightarrow> bytes option" where
  "memcpy dst i src j n = do { v \<leftarrow> rd_block src j n; wr_block dst i v }"

lemma rd_Some [simp]: "i < length b \<Longrightarrow> rd b i = Some (b ! i)"
  by (simp add: rd_def)

lemma rd_None [simp]: "length b \<le> i \<Longrightarrow> rd b i = None"
  by (simp add: rd_def)

lemma rd_append_left: "i < length a \<Longrightarrow> rd (a @ b) i = rd a i"
  by (simp add: rd_def nth_append)

lemma rd_append_right: "rd (a @ b) (length a + i) = rd b i"
  by (simp add: rd_def nth_append)

lemma rd_block_Some [simp]: "i + n \<le> length b \<Longrightarrow> rd_block b i n = Some (take n (drop i b))"
  by (simp add: rd_block_def)

lemma rd_block_None [simp]: "length b < i + n \<Longrightarrow> rd_block b i n = None"
  by (simp add: rd_block_def)

lemma rd_blockD: "rd_block b i n = Some v \<Longrightarrow> length v = n \<and> i + n \<le> length b"
  by (auto simp: rd_block_def split: if_splits)

lemma rd_block_append: "rd_block (a @ v @ c) (length a) (length v) = Some v"
  by (simp add: rd_block_def)

lemma wr_Some [simp]: "i < length b \<Longrightarrow> wr b i v = Some (b[i := v])"
  by (simp add: wr_def)

lemma wr_None [simp]: "length b \<le> i \<Longrightarrow> wr b i v = None"
  by (simp add: wr_def)

lemma length_wr: "wr b i v = Some b' \<Longrightarrow> length b' = length b"
  by (auto simp: wr_def split: if_splits)

lemma wr_block_Some [simp]:
  "i + length v \<le> length b \<Longrightarrow>
   wr_block b i v = Some (take i b @ v @ drop (i + length v) b)"
  by (simp add: wr_block_def)

lemma wr_block_None [simp]: "length b < i + length v \<Longrightarrow> wr_block b i v = None"
  by (simp add: wr_block_def)

lemma length_wr_block: "wr_block b i v = Some b' \<Longrightarrow> length b' = length b"
  by (auto simp: wr_block_def split: if_splits)

lemma length_memcpy: "memcpy d i s j n = Some d' \<Longrightarrow> length d' = length d"
  by (auto simp: memcpy_def bind_eq_Some_conv dest: length_wr_block)

lemma memcpy_Some:
  assumes "j + n \<le> length s" and "i + n \<le> length d"
  shows "memcpy d i s j n = Some (take i d @ take n (drop j s) @ drop (i + n) d)"
  using assms by (simp add: memcpy_def)

lemma memcpy_eq_None: "memcpy d i s j n = None \<longleftrightarrow> length s < j + n \<or> length d < i + n"
proof (cases "length s < j + n")
  case True
  then show ?thesis by (simp add: memcpy_def)
next
  case False
  then show ?thesis by (simp add: memcpy_def wr_block_def)
qed

subsection \<open>C strings\<close>

fun c_strlen :: "bytes \<Rightarrow> nat option" where
  "c_strlen [] = None"
| "c_strlen (x # xs) = (if x = 0 then Some 0 else map_option Suc (c_strlen xs))"

fun c_strncmp_eq :: "nat \<Rightarrow> bytes \<Rightarrow> bytes \<Rightarrow> bool option" where
  "c_strncmp_eq 0 xs ys = Some True"
| "c_strncmp_eq (Suc n) (x # xs) (y # ys) =
     (if x \<noteq> y then Some False else if x = 0 then Some True else c_strncmp_eq n xs ys)"
| "c_strncmp_eq (Suc n) xs ys = None"

definition c_string :: "bytes \<Rightarrow> bytes" where
  "c_string b = takeWhile (\<lambda>x. x \<noteq> 0) b"

lemma c_strlen_Some_iff: "c_strlen b = Some n \<longleftrightarrow> 0 \<in> set b \<and> n = length (c_string b)"
  by (induction b arbitrary: n) (auto simp: c_string_def)

lemma c_strlen_None_iff: "c_strlen b = None \<longleftrightarrow> 0 \<notin> set b"
  by (induction b) auto

lemma c_strlen_eq: "c_strlen b = (if 0 \<in> set b then Some (length (c_string b)) else None)"
  using c_strlen_Some_iff c_strlen_None_iff by auto

lemma c_string_append_0: "0 \<notin> set v \<Longrightarrow> c_string (v @ 0 # r) = v"
  by (induction v) (auto simp: c_string_def)

lemma c_string_length: "0 \<in> set b \<Longrightarrow> length (c_string b) < length b"
  by (induction b) (auto simp: c_string_def)

text \<open>
  Comparing \<open>n\<close> bytes against a string without a terminator among them is comparing
  prefixes: the comparison stops early only at a difference.
\<close>

lemma c_strncmp_eq_take:
  assumes "n \<le> length a" and "n \<le> length b" and "0 \<notin> set (take n b)"
  shows "c_strncmp_eq n a b = Some (take n a = take n b)"
  using assms by (induction n a b rule: c_strncmp_eq.induct) auto

lemma c_strncmp_eq_total:
  "n \<le> length a \<Longrightarrow> n \<le> length b \<Longrightarrow> \<exists>r. c_strncmp_eq n a b = Some r"
  by (induction n a b rule: c_strncmp_eq.induct) auto

lemma c_strncmp_eq_sym: "c_strncmp_eq n a b = c_strncmp_eq n b a"
  by (induction n a b rule: c_strncmp_eq.induct) auto

lemma take_c_string: "n \<le> length (c_string a) \<Longrightarrow> take n a = take n (c_string a)"
proof (induction a arbitrary: n)
  case Nil
  then show ?case by (simp add: c_string_def)
next
  case (Cons x xs)
  then show ?case by (cases n) (auto simp: c_string_def split: if_splits)
qed

subsection \<open>Fixed character arrays\<close>

text \<open>
  The pattern \<open>memcpy(field, src, n); field[n] = 0;\<close>, which the code uses for every
  character array it fills.
\<close>

definition store_string :: "bytes \<Rightarrow> bytes \<Rightarrow> nat \<Rightarrow> nat \<Rightarrow> bytes option" where
  "store_string fld src j n = do { f \<leftarrow> memcpy fld 0 src j n; wr f n 0 }"

lemma store_string_length: "store_string f s j n = Some f' \<Longrightarrow> length f' = length f"
  by (clarsimp simp: store_string_def bind_eq_Some_conv) (metis length_memcpy length_wr)

lemma store_string_eq:
  assumes "j + n \<le> length src" and "n < length fld"
  shows "store_string fld src j n = Some (take n (drop j src) @ 0 # drop (Suc n) fld)"
proof -
  have m: "memcpy fld 0 src j n = Some (take n (drop j src) @ drop n fld)"
    using assms by (simp add: memcpy_Some)
  have l: "length (take n (drop j src)) = n" using assms by simp
  have "(take n (drop j src) @ drop n fld)[n := 0] = take n (drop j src) @ (drop n fld)[0 := 0]"
    using l by (metis diff_self_eq_0 less_irrefl list_update_append)
  also have "(drop n fld)[0 := 0] = 0 # drop (Suc n) fld"
    using assms by (simp add: Cons_nth_drop_Suc [symmetric])
  finally show ?thesis using assms by (simp add: store_string_def m)
qed

lemma store_string_None:
  "store_string fld src j n = None \<longleftrightarrow> length src < j + n \<or> length fld \<le> n"
proof (cases "memcpy fld 0 src j n")
  case None
  then have "length src < j + n \<or> length fld < n" by (simp add: memcpy_eq_None)
  with None show ?thesis by (auto simp: store_string_def)
next
  case (Some f)
  then have "\<not> (length src < j + n \<or> length fld < n)"
    using memcpy_eq_None [of fld 0 src j n] by auto
  with Some length_memcpy [OF Some] show ?thesis by (auto simp: store_string_def wr_def)
qed

lemma store_string_outside [simp]:
  "length src < j + n \<or> length fld \<le> n \<Longrightarrow> store_string fld src j n = None"
  by (simp add: store_string_None)

lemma c_string_store:
  assumes "store_string fld src j n = Some f" and "0 \<notin> set (take n (drop j src))"
  shows "c_string f = take n (drop j src)"
proof -
  have "\<not> (length src < j + n \<or> length fld \<le> n)"
    using assms(1) store_string_None [of fld src j n] by auto
  then have "f = take n (drop j src) @ 0 # drop (Suc n) fld"
    using assms(1) by (simp add: store_string_eq)
  with assms(2) show ?thesis by (simp add: c_string_append_0)
qed

lemma store_string_terminated: "store_string fld src j n = Some f \<Longrightarrow> 0 \<in> set f"
proof -
  assume h: "store_string fld src j n = Some f"
  then have "\<not> (length src < j + n \<or> length fld \<le> n)"
    using store_string_None [of fld src j n] by auto
  with h show ?thesis by (auto simp: store_string_eq)
qed

subsection \<open>Words\<close>

lemma unat_u8_less [simp]: "unat (x :: u8) < 256"
  using unsigned_less [of x] by simp

lemma unat_u16_less [simp]: "unat (x :: u16) < 65536"
  using unsigned_less [of x] by simp

lemma unat_u8_to_u32 [simp]: "unat (ucast (x :: u8) :: u32) = unat x"
  by (simp add: unsigned_ucast_eq take_bit_nat_eq_self_iff less_trans [OF unat_u8_less])

lemma unat_and_mask5 [simp]: "unat ((x :: u8) AND 0x1F) = unat x mod 32"
proof -
  have "x AND 0x1F = take_bit 5 x" by (simp only: take_bit_eq_mask) (simp add: mask_eq_exp_minus_1)
  then show ?thesis by (simp only: unsigned_take_bit_eq) (simp add: take_bit_eq_mod)
qed

lemma unat_and_mask4 [simp]: "unat ((x :: u8) AND 0x0F) = unat x mod 16"
proof -
  have "x AND 0x0F = take_bit 4 x" by (simp only: take_bit_eq_mask) (simp add: mask_eq_exp_minus_1)
  then show ?thesis by (simp only: unsigned_take_bit_eq) (simp add: take_bit_eq_mod)
qed

text \<open>Counting pieces of a list: rounding up a division.\<close>

lemma ceil_div_step:
  assumes "0 < k" and "0 < (n :: nat)"
  shows "Suc ((n - k + k - 1) div k) = (n + k - 1) div k"
proof -
  obtain m where m: "n = Suc m" using assms(2) by (cases n) auto
  have "(n - k + k - 1) div k = m div k"
  proof (cases "k \<le> n")
    case True
    then show ?thesis using assms m by simp
  next
    case False
    then show ?thesis using assms m by simp
  qed
  moreover have "(m + k) div k = Suc (m div k)" using assms by (simp add: div_add_self2)
  ultimately show ?thesis using m by simp
qed

text \<open>Flag words: \<open>atomic_t\<close> with Zephyr's bit operations.\<close>

definition atomic_test_bit :: "u32 \<Rightarrow> nat \<Rightarrow> bool" where
  "atomic_test_bit w n = bit w n"

definition atomic_set_bit :: "nat \<Rightarrow> u32 \<Rightarrow> u32" where
  "atomic_set_bit n w = Bit_Operations.set_bit n w"

definition atomic_clear_bit :: "nat \<Rightarrow> u32 \<Rightarrow> u32" where
  "atomic_clear_bit n w = unset_bit n w"

lemma atomic_test_set [simp]:
  "n < 32 \<Longrightarrow> atomic_test_bit (atomic_set_bit m w) n \<longleftrightarrow> m = n \<or> atomic_test_bit w n"
  by (auto simp: atomic_test_bit_def atomic_set_bit_def bit_set_bit_iff)

lemma atomic_test_clear [simp]:
  "atomic_test_bit (atomic_clear_bit m w) n \<longleftrightarrow> m \<noteq> n \<and> atomic_test_bit w n"
  by (auto simp: atomic_test_bit_def atomic_clear_bit_def bit_unset_bit_iff)

lemma atomic_clear_set [simp]:
  "\<not> atomic_test_bit w n \<Longrightarrow> atomic_clear_bit n (atomic_set_bit n w) = w"
  by (rule bit_word_eqI)
     (auto simp: atomic_test_bit_def atomic_clear_bit_def atomic_set_bit_def
        bit_unset_bit_iff bit_set_bit_iff)

end
