(* ===== verification/Gopro_Types.thy ===== *)
theory Gopro_Types
  imports Prelude
begin

section \<open>The data model\<close>

text \<open>
  The types of \<^verbatim>\<open>gopro_client.h\<close>, \<^verbatim>\<open>gopro_packet.h\<close>, \<^verbatim>\<open>gopro_protobuf.h\<close>,
  \<^verbatim>\<open>leds.h\<close> and \<^verbatim>\<open>gopro_ids.h\<close>, and one record \<open>gopro_sys\<close> that collects
  the global variables of the firmware. A handler of the C code that writes globals is
  a function from \<open>gopro_sys\<close> to \<open>gopro_sys\<close> here.
\<close>

subsection \<open>Enumerations\<close>

datatype gopro_state_list_t =
    GP_STATE_UNKNOWN | GP_STATE_OFFLINE | GP_STATE_ONLINE | GP_STATE_CONNECTED
  | GP_STATE_NEED_PAIRING | GP_STATE_PAIRING | GP_STATE_END

primrec state_code :: "gopro_state_list_t \<Rightarrow> nat" where
  "state_code GP_STATE_UNKNOWN = 0"
| "state_code GP_STATE_OFFLINE = 1"
| "state_code GP_STATE_ONLINE = 2"
| "state_code GP_STATE_CONNECTED = 3"
| "state_code GP_STATE_NEED_PAIRING = 4"
| "state_code GP_STATE_PAIRING = 5"
| "state_code GP_STATE_END = 6"

lemma state_code_inject: "state_code a = state_code b \<longleftrightarrow> a = b"
  by (cases a; cases b) simp_all

instantiation gopro_state_list_t :: linorder
begin

definition less_eq_gopro_state_list_t :: "gopro_state_list_t \<Rightarrow> gopro_state_list_t \<Rightarrow> bool" where
  "less_eq_gopro_state_list_t a b \<longleftrightarrow> state_code a \<le> state_code b"

definition less_gopro_state_list_t :: "gopro_state_list_t \<Rightarrow> gopro_state_list_t \<Rightarrow> bool" where
  "less_gopro_state_list_t a b \<longleftrightarrow> state_code a < state_code b"

instance
  by standard
     (auto simp: less_eq_gopro_state_list_t_def less_gopro_state_list_t_def state_code_inject
        dest: antisym)

end

lemma state_in_range: "\<not> GP_STATE_END \<le> s \<longleftrightarrow> s \<noteq> GP_STATE_END"
  by (cases s) (simp_all add: less_eq_gopro_state_list_t_def)

datatype led_mode_t =
    LED_MODE_OFF | LED_MODE_BLINK_1S | LED_MODE_BLINK_5S | LED_MODE_BLINK_300MS
  | LED_MODE_BLINK_100MS | LED_MODE_ON | LED_MODE_END

primrec led_mode_code :: "led_mode_t \<Rightarrow> nat" where
  "led_mode_code LED_MODE_OFF = 0"
| "led_mode_code LED_MODE_BLINK_1S = 1"
| "led_mode_code LED_MODE_BLINK_5S = 2"
| "led_mode_code LED_MODE_BLINK_300MS = 3"
| "led_mode_code LED_MODE_BLINK_100MS = 4"
| "led_mode_code LED_MODE_ON = 5"
| "led_mode_code LED_MODE_END = 6"

lemma led_mode_code_inject: "led_mode_code a = led_mode_code b \<longleftrightarrow> a = b"
  by (cases a; cases b) simp_all

instantiation led_mode_t :: linorder
begin

definition less_eq_led_mode_t :: "led_mode_t \<Rightarrow> led_mode_t \<Rightarrow> bool" where
  "less_eq_led_mode_t a b \<longleftrightarrow> led_mode_code a \<le> led_mode_code b"

definition less_led_mode_t :: "led_mode_t \<Rightarrow> led_mode_t \<Rightarrow> bool" where
  "less_led_mode_t a b \<longleftrightarrow> led_mode_code a < led_mode_code b"

instance
  by standard
     (auto simp: less_eq_led_mode_t_def less_led_mode_t_def led_mode_code_inject dest: antisym)

end

lemma led_mode_in_range: "\<not> LED_MODE_END \<le> m \<longleftrightarrow> m \<noteq> LED_MODE_END"
  by (cases m) (simp_all add: less_eq_led_mode_t_def)

datatype led_number_t = LED_NUM_REC | LED_NUM_BT | LED_NUM_END

text \<open>
  \<open>cmd_type\<close> is a \<^verbatim>\<open>uint32_t\<close> in the C code and takes the values of
  \<^verbatim>\<open>enum gopro_control_handle_list_t\<close> or \<^verbatim>\<open>0xFF\<close>, so the enumerators are numbers here.
\<close>

abbreviation (input) GP_CNTRL_HANDLE_CMD :: u32 where "GP_CNTRL_HANDLE_CMD \<equiv> 0"
abbreviation (input) GP_CNTRL_HANDLE_SETTINGS :: u32 where "GP_CNTRL_HANDLE_SETTINGS \<equiv> 1"
abbreviation (input) GP_CNTRL_HANDLE_QUERY :: u32 where "GP_CNTRL_HANDLE_QUERY \<equiv> 2"
abbreviation (input) GP_CNTRL_HANDLE_NET :: u32 where "GP_CNTRL_HANDLE_NET \<equiv> 3"
abbreviation (input) GP_CNTRL_HANDLE_END :: u32 where "GP_CNTRL_HANDLE_END \<equiv> 4"

abbreviation (input) GP_WIFI_HANDLE_SSID :: nat where "GP_WIFI_HANDLE_SSID \<equiv> 0"
abbreviation (input) GP_WIFI_HANDLE_PASS :: nat where "GP_WIFI_HANDLE_PASS \<equiv> 1"
abbreviation (input) GP_WIFI_HANDLE_POWER :: nat where "GP_WIFI_HANDLE_POWER \<equiv> 2"
abbreviation (input) GP_WIFI_HANDLE_STATE :: nat where "GP_WIFI_HANDLE_STATE \<equiv> 3"
abbreviation (input) GP_WIFI_HANDLE_END :: nat where "GP_WIFI_HANDLE_END \<equiv> 4"

text \<open>\<^verbatim>\<open>enum gopro_flag_t\<close>: bit numbers of the client's flag word.\<close>

abbreviation (input) GP_FLAG_JUST_PAIRED :: nat where "GP_FLAG_JUST_PAIRED \<equiv> 1"
abbreviation (input) GP_FLAG_CMD_NOTIF_ENABLED :: nat where "GP_FLAG_CMD_NOTIF_ENABLED \<equiv> 2"
abbreviation (input) GP_FLAG_SETTINGS_NOTIF_ENABLED :: nat where "GP_FLAG_SETTINGS_NOTIF_ENABLED \<equiv> 3"
abbreviation (input) GP_FLAG_QUERY_NOTIF_ENABLED :: nat where "GP_FLAG_QUERY_NOTIF_ENABLED \<equiv> 4"
abbreviation (input) GP_FLAG_NET_NOTIF_ENABLED :: nat where "GP_FLAG_NET_NOTIF_ENABLED \<equiv> 5"
abbreviation (input) GP_FLAG_CMD_WRITE_PENDING :: nat where "GP_FLAG_CMD_WRITE_PENDING \<equiv> 6"
abbreviation (input) GP_FLAG_SETTINGS_WRITE_PENDING :: nat where "GP_FLAG_SETTINGS_WRITE_PENDING \<equiv> 7"
abbreviation (input) GP_FLAG_QUERY_WRITE_PENDING :: nat where "GP_FLAG_QUERY_WRITE_PENDING \<equiv> 8"
abbreviation (input) GP_FLAG_NET_WRITE_PENDING :: nat where "GP_FLAG_NET_WRITE_PENDING \<equiv> 9"
abbreviation (input) GP_FLAG_FORCE_CONNECT :: nat where "GP_FLAG_FORCE_CONNECT \<equiv> 10"

text \<open>Identifiers of \<^verbatim>\<open>gopro_ids.h\<close> the code uses.\<close>

abbreviation (input) GOPRO_QUERY_STATUS_GET_STATUS :: u8 where "GOPRO_QUERY_STATUS_GET_STATUS \<equiv> 0x13"
abbreviation (input) GOPRO_QUERY_STATUS_REG_STATUS :: u8 where "GOPRO_QUERY_STATUS_REG_STATUS \<equiv> 0x53"
abbreviation (input) GOPRO_QUERY_STATUS_REG_STATUS_NOTIFY :: u8 where
  "GOPRO_QUERY_STATUS_REG_STATUS_NOTIFY \<equiv> 0x93"
abbreviation (input) GOPRO_STATUS_ID_ENCODING :: u8 where "GOPRO_STATUS_ID_ENCODING \<equiv> 10"
abbreviation (input) GOPRO_STATUS_ID_VIDEO_NUM :: u8 where "GOPRO_STATUS_ID_VIDEO_NUM \<equiv> 39"
abbreviation (input) GOPRO_STATUS_ID_BAT_PERCENT :: u8 where "GOPRO_STATUS_ID_BAT_PERCENT \<equiv> 70"

abbreviation (input) GOPRO_NAME_LEN :: nat where "GOPRO_NAME_LEN \<equiv> 20"
abbreviation (input) GOPRO_CMD_DATA_LEN :: nat where "GOPRO_CMD_DATA_LEN \<equiv> 20"
abbreviation (input) MAX_SSID_LEN :: nat where "MAX_SSID_LEN \<equiv> 40"
abbreviation (input) MAX_AP_LIST_COUNT :: nat where "MAX_AP_LIST_COUNT \<equiv> 30"
abbreviation (input) WORK_BUFF_SIZE :: nat where "WORK_BUFF_SIZE \<equiv> 2048"
abbreviation (input) BLEDATA_BUFF_SIZE :: nat where "BLEDATA_BUFF_SIZE \<equiv> 2048"
abbreviation (input) CERT_BUFF_SIZE :: nat where "CERT_BUFF_SIZE \<equiv> 2048"

subsection \<open>Structures\<close>

record bt_addr_le_t =
  addr_type :: u8
  addr_val :: bytes

record gopro_state_t =
  gs_addr :: bt_addr_le_t
  gs_state :: gopro_state_list_t
  gs_video_count :: u32
  gs_record :: u8
  gs_battery :: u8
  gs_name :: bytes
  gs_wifi_ssid :: bytes
  gs_wifi_pass :: bytes
  gs_model_name :: bytes
  gs_firmware_version :: bytes
  gs_serial_number :: bytes
  gs_ap_mac :: bytes
  gs_cohn_ssid :: bytes
  gs_cohn_pass :: bytes

record gopro_cmd_t =
  cmd_len :: u32
  cmd_type :: u32
  cmd_data :: bytes

record gopro_packet_t =
  pk_total_len :: u32
  pk_packet_len :: u32
  pk_pkt_len :: u32
  pk_data_len :: u32
  pk_saved_len :: u32
  pk_pkt_start :: u8
  pk_data_start :: u8
  pk_type :: u8
  pk_feature :: u8
  pk_action :: u8
  pk_data :: "bytes option"

record mem_pkt_t =
  mp_index :: nat
  mp_len :: int
  mp_data :: "bytes option"

record bt_gopro_client_handles =
  h_write :: u16
  h_notify :: u16
  h_notify_ccc :: u16

record bt_gatt_subscribe_params =
  sp_value_handle :: u16
  sp_ccc_handle :: u16
  sp_value :: u16
  sp_notify_set :: bool
  sp_volatile :: bool

datatype read_func_t = on_read_ssid_cb | on_read_pass_cb | on_read_default_cb

record bt_gatt_write_params =
  wp_handle :: u16
  wp_offset :: u16
  wp_data :: bytes
  wp_length :: u16

record bt_gatt_read_params =
  rp_func :: "read_func_t option"
  rp_handle :: u16
  rp_offset :: u16
  rp_count :: nat

record bt_gopro_client =
  gc_conn :: "nat option"
  gc_state :: u32
  gc_handles :: "bt_gopro_client_handles list"
  gc_wifihandles :: "u16 list"
  gc_notif_params :: "bt_gatt_subscribe_params list"
  gc_write_params :: "bt_gatt_write_params list"
  gc_read_params :: "bt_gatt_read_params list"

text \<open>What a callback of the Bluetooth stack answers: whether it wants to be called again.\<close>

datatype gatt_iter = BT_GATT_ITER_STOP | BT_GATT_ITER_CONTINUE

record ap_list_t =
  ap_frequency :: int
  ap_bars :: int
  ap_flags :: int
  ap_ssid :: bytes

record gopro_sys =
  sys_state :: gopro_state_t
  sys_client :: bt_gopro_client
  sys_packet :: gopro_packet_t
  sys_leds :: "led_mode_t list"
  sys_idle_timer :: bool
  sys_hw_sem :: nat
  sys_write_sem :: nat
  sys_read_sem :: nat
  sys_cert :: "bytes option"
  sys_ap_list :: "ap_list_t list"
  sys_ap_index :: nat
  sys_can_reply_sem :: nat
  sys_can_tx :: "mem_pkt_t list"
  sys_cmd_queue :: "gopro_cmd_t list"
  sys_log :: "string list"

definition upd_state :: "(gopro_state_t \<Rightarrow> gopro_state_t) \<Rightarrow> gopro_sys \<Rightarrow> gopro_sys" where
  "upd_state f sys = sys\<lparr>sys_state := f (sys_state sys)\<rparr>"

lemma upd_state_sel [simp]:
  "sys_state (upd_state f sys) = f (sys_state sys)"
  "sys_client (upd_state f sys) = sys_client sys"
  "sys_packet (upd_state f sys) = sys_packet sys"
  "sys_leds (upd_state f sys) = sys_leds sys"
  "sys_hw_sem (upd_state f sys) = sys_hw_sem sys"
  "sys_cert (upd_state f sys) = sys_cert sys"
  "sys_ap_list (upd_state f sys) = sys_ap_list sys"
  "sys_ap_index (upd_state f sys) = sys_ap_index sys"
  "sys_can_reply_sem (upd_state f sys) = sys_can_reply_sem sys"
  "sys_can_tx (upd_state f sys) = sys_can_tx sys"
  "sys_cmd_queue (upd_state f sys) = sys_cmd_queue sys"
  by (simp_all add: upd_state_def)

subsection \<open>Well-formedness: the array sizes of the C declarations\<close>

definition wf_cmd :: "gopro_cmd_t \<Rightarrow> bool" where
  "wf_cmd c \<longleftrightarrow> length (cmd_data c) = GOPRO_CMD_DATA_LEN"

definition wf_state :: "gopro_state_t \<Rightarrow> bool" where
  "wf_state s \<longleftrightarrow>
     length (gs_name s) = 20 \<and> length (gs_wifi_ssid s) = 20 \<and> length (gs_wifi_pass s) = 20 \<and>
     length (gs_model_name s) = 20 \<and> length (gs_firmware_version s) = 20 \<and>
     length (gs_serial_number s) = 20 \<and> length (gs_ap_mac s) = 20 \<and>
     length (gs_cohn_ssid s) = 20 \<and> length (gs_cohn_pass s) = 20"

definition wf_client :: "bt_gopro_client \<Rightarrow> bool" where
  "wf_client c \<longleftrightarrow>
     length (gc_handles c) = 4 \<and> length (gc_wifihandles c) = 4 \<and>
     length (gc_notif_params c) = 4 \<and> length (gc_write_params c) = 4 \<and>
     length (gc_read_params c) = 4"

definition wf_ap_list :: "ap_list_t list \<Rightarrow> bool" where
  "wf_ap_list l \<longleftrightarrow> length l = MAX_AP_LIST_COUNT \<and> (\<forall>a \<in> set l. length (ap_ssid a) = MAX_SSID_LEN)"

text \<open>Zephyr's binary semaphores: giving saturates at the limit.\<close>

definition k_sem_give :: "nat \<Rightarrow> nat \<Rightarrow> nat" where
  "k_sem_give limit n = min limit (Suc n)"

lemma k_sem_give_le: "k_sem_give limit n \<le> limit"
  by (simp add: k_sem_give_def)

subsection \<open>Character-array fields of the camera state\<close>

text \<open>
  Five pieces of code fill a character array of \<^verbatim>\<open>gopro_state\<close>. The locale states what a
  field of a structure promises its users, and the lemmas about filling one are proved
  once; every field the code fills is an instance.
\<close>

definition store_field ::
    "('s \<Rightarrow> bytes) \<Rightarrow> (bytes \<Rightarrow> 's \<Rightarrow> 's) \<Rightarrow> 's \<Rightarrow> bytes \<Rightarrow> nat \<Rightarrow> nat \<Rightarrow> 's option" where
  "store_field get put s src j n = map_option (\<lambda>f. put f s) (store_string (get s) src j n)"

locale char_field =
  fixes get :: "'s \<Rightarrow> bytes"
    and put :: "bytes \<Rightarrow> 's \<Rightarrow> 's"
    and wf :: "'s \<Rightarrow> bool"
    and size :: nat
  assumes get_put: "get (put v s) = v"
    and put_put: "put w (put v s) = put w s"
    and wf_get: "wf s \<Longrightarrow> length (get s) = size"
    and wf_put: "wf s \<Longrightarrow> length v = size \<Longrightarrow> wf (put v s)"
begin

lemma store_wf: "wf s \<Longrightarrow> store_field get put s src j n = Some s' \<Longrightarrow> wf s'"
  by (auto simp: store_field_def wf_get dest: store_string_length intro!: wf_put)

lemma store_defined:
  "wf s \<Longrightarrow> (\<exists>s'. store_field get put s src j n = Some s') \<longleftrightarrow> j + n \<le> length src \<and> n < size"
  using store_string_None [of "get s" src j n] by (auto simp: store_field_def wf_get)

lemma store_Some:
  "wf s \<Longrightarrow> j + n \<le> length src \<Longrightarrow> n < size \<Longrightarrow>
   store_field get put s src j n = Some (put (take n (drop j src) @ 0 # drop (Suc n) (get s)) s)"
  by (simp add: store_field_def store_string_eq wf_get)

lemma store_string:
  "store_field get put s src j n = Some s' \<Longrightarrow> 0 \<notin> set (take n (drop j src)) \<Longrightarrow>
   c_string (get s') = take n (drop j src)"
  by (auto simp: store_field_def get_put dest: c_string_store)

end

interpretation name_f: char_field gs_name "\<lambda>v. gs_name_update (\<lambda>_. v)" wf_state 20
  by unfold_locales (auto simp: wf_state_def)

interpretation wifi_ssid_f: char_field gs_wifi_ssid "\<lambda>v. gs_wifi_ssid_update (\<lambda>_. v)" wf_state 20
  by unfold_locales (auto simp: wf_state_def)

interpretation wifi_pass_f: char_field gs_wifi_pass "\<lambda>v. gs_wifi_pass_update (\<lambda>_. v)" wf_state 20
  by unfold_locales (auto simp: wf_state_def)

interpretation model_name_f: char_field gs_model_name "\<lambda>v. gs_model_name_update (\<lambda>_. v)" wf_state 20
  by unfold_locales (auto simp: wf_state_def)

interpretation firmware_f:
  char_field gs_firmware_version "\<lambda>v. gs_firmware_version_update (\<lambda>_. v)" wf_state 20
  by unfold_locales (auto simp: wf_state_def)

interpretation serial_f: char_field gs_serial_number "\<lambda>v. gs_serial_number_update (\<lambda>_. v)" wf_state 20
  by unfold_locales (auto simp: wf_state_def)

interpretation ap_mac_f: char_field gs_ap_mac "\<lambda>v. gs_ap_mac_update (\<lambda>_. v)" wf_state 20
  by unfold_locales (auto simp: wf_state_def)

end
