(* ===== verification/Client_State.thy ===== *)
theory Client_State
  imports Gopro_Types
begin

section \<open>The camera state (\<^verbatim>\<open>gopro_client.c\<close>, first part)\<close>

text \<open>
  The setters and getters of \<^verbatim>\<open>gopro_state\<close> and the read callbacks that copy the
  camera's Wi-Fi name and password into it.
\<close>

subsection \<open>Setters and getters\<close>

definition gopro_client_set_device_addr :: "bt_addr_le_t \<Rightarrow> gopro_state_t \<Rightarrow> cret \<times> gopro_state_t" where
  "gopro_client_set_device_addr addr s = (OK, s\<lparr>gs_addr := addr\<rparr>)"

definition gopro_client_get_device_addr :: "gopro_state_t \<Rightarrow> bt_addr_le_t" where
  "gopro_client_get_device_addr s = gs_addr s"

definition gopro_client_set_sate ::
    "gopro_state_list_t \<Rightarrow> gopro_state_t \<Rightarrow> cret \<times> gopro_state_t" where
  "gopro_client_set_sate st s =
     (if GP_STATE_END \<le> st then (Code (- 1), s)
      else if gs_state s \<noteq> st then (OK, s\<lparr>gs_state := st\<rparr>)
      else (OK, s))"

definition gopro_client_get_state :: "gopro_state_t \<Rightarrow> gopro_state_list_t" where
  "gopro_client_get_state s = gs_state s"

text \<open>\<open>name = None\<close> is the null pointer; \<open>Some nm\<close> points to the bytes \<open>nm\<close>.\<close>

definition gopro_client_setname ::
    "bytes option \<Rightarrow> u8 \<Rightarrow> gopro_state_t \<Rightarrow> (cret \<times> gopro_state_t) option" where
  "gopro_client_setname name len s =
     (if GOPRO_NAME_LEN \<le> unat len then Some (Code (- 1), s)
      else case name of
        Some nm \<Rightarrow>
          if 0 < len then do {
            same \<leftarrow> c_strncmp_eq (unat len) (gs_name s) nm;
            if same then Some (OK, s)
            else do {
              s' \<leftarrow> store_field gs_name (\<lambda>v. gs_name_update (\<lambda>_. v)) s nm 0 (unat len);
              Some (OK, s')
            }
          }
          else Some (OK, s\<lparr>gs_name := replicate GOPRO_NAME_LEN 0\<rparr>)
      | None \<Rightarrow> Some (OK, s\<lparr>gs_name := replicate GOPRO_NAME_LEN 0\<rparr>))"

lemma set_sate_state:
  "st \<noteq> GP_STATE_END \<Longrightarrow> gopro_client_set_sate st s = (OK, s\<lparr>gs_state := st\<rparr>)"
  using state_in_range [of st] by (simp add: gopro_client_set_sate_def)

lemma set_sate_wf [wf_intros]: "wf_state s \<Longrightarrow> wf_state (snd (gopro_client_set_sate st s))"
  by (simp add: gopro_client_set_sate_def wf_state_def)

lemma set_sate_range:
  "gs_state s \<noteq> GP_STATE_END \<Longrightarrow> gs_state (snd (gopro_client_set_sate st s)) \<noteq> GP_STATE_END"
  using state_in_range [of st] by (simp add: gopro_client_set_sate_def)

lemma setname_too_long: "20 \<le> unat len \<Longrightarrow> gopro_client_setname name len s = Some (Code (- 1), s)"
  by (simp add: gopro_client_setname_def)

lemma setname_clear:
  "unat len < 20 \<Longrightarrow> name = None \<or> len = 0 \<Longrightarrow>
   gopro_client_setname name len s = Some (OK, s\<lparr>gs_name := replicate 20 0\<rparr>)"
  by (auto simp: gopro_client_setname_def split: option.splits)

lemma setname_cases:
  assumes wf: "wf_state s" and l: "0 < len" "unat len < 20" "unat len \<le> length nm"
    and nz: "0 \<notin> set (take (unat len) nm)"
  shows "gopro_client_setname (Some nm) len s =
    Some (OK, if take (unat len) (gs_name s) = take (unat len) nm then s
              else s\<lparr>gs_name := take (unat len) nm @ 0 # drop (Suc (unat len)) (gs_name s)\<rparr>)"
proof -
  have g: "length (gs_name s) = 20" using wf by (simp add: wf_state_def)
  have c: "c_strncmp_eq (unat len) (gs_name s) nm =
      Some (take (unat len) (gs_name s) = take (unat len) nm)"
    using l nz g by (intro c_strncmp_eq_take) auto
  have st: "store_field gs_name (\<lambda>v. gs_name_update (\<lambda>_. v)) s nm 0 (unat len) =
      Some (s\<lparr>gs_name := take (unat len) nm @ 0 # drop (Suc (unat len)) (gs_name s)\<rparr>)"
    using name_f.store_Some [OF wf, of 0 "unat len" nm] l by simp
  show ?thesis using l c st by (simp add: gopro_client_setname_def)
qed

lemma setname_total:
  assumes wf: "wf_state s" and l: "unat len \<le> length nm"
  shows "\<exists>r s'. gopro_client_setname (Some nm) len s = Some (r, s')"
proof (cases "unat len < 20 \<and> 0 < len")
  case True
  have g: "length (gs_name s) = 20" using wf by (simp add: wf_state_def)
  obtain same where "c_strncmp_eq (unat len) (gs_name s) nm = Some same"
    using c_strncmp_eq_total [of "unat len" "gs_name s" nm] g l True by auto
  then show ?thesis
    using True l name_f.store_Some [OF wf, of 0 "unat len" nm] by (simp add: gopro_client_setname_def)
next
  case False
  then show ?thesis by (cases "unat len < 20") (auto simp: gopro_client_setname_def)
qed

lemma setname_wf [wf_intros]:
  assumes "wf_state s" and "gopro_client_setname name len s = Some (r, s')"
  shows "wf_state s'"
proof -
  have clr: "wf_state (s\<lparr>gs_name := replicate 20 0\<rparr>)" using assms(1) by (simp add: wf_state_def)
  show ?thesis
    using assms clr
    by (auto simp: gopro_client_setname_def bind_eq_Some_conv split: if_splits option.splits
        intro: name_f.store_wf)
qed

subsection \<open>Reading the Wi-Fi characteristics\<close>

text \<open>
  \<^verbatim>\<open>on_read_ssid\<close> and \<^verbatim>\<open>on_read_pass\<close> differ in the field they fill and the handle
  they expect. The size of the destination array is 20; the code computes the number of
  bytes to copy and writes the terminator after them.
\<close>

definition wifi_str_size :: "nat \<Rightarrow> nat" where
  "wifi_str_size length_in = (if 20 + 1 \<le> length_in then 20 - 1 else length_in)"

definition read_wifi_string ::
    "(gopro_state_t \<Rightarrow> bytes) \<Rightarrow> (bytes \<Rightarrow> gopro_state_t \<Rightarrow> gopro_state_t) \<Rightarrow> nat \<Rightarrow>
     u8 \<Rightarrow> u16 \<Rightarrow> bytes \<Rightarrow> gopro_sys \<Rightarrow> gopro_sys option" where
  "read_wifi_string get put idx err handle src sys =
     (let sys = sys\<lparr>sys_read_sem := k_sem_give 1 (sys_read_sem sys)\<rparr> in
      if err \<noteq> 0 then Some sys
      else if handle = gc_wifihandles (sys_client sys) ! idx then do {
        let s = put (replicate 20 0) (sys_state sys);
        s' \<leftarrow> store_field get put s src 0 (wifi_str_size (length src));
        Some (sys\<lparr>sys_state := s'\<rparr>)
      }
      else Some sys)"

definition on_read_ssid :: "u8 \<Rightarrow> u16 \<Rightarrow> bytes \<Rightarrow> gopro_sys \<Rightarrow> gopro_sys option" where
  "on_read_ssid =
     read_wifi_string gs_wifi_ssid (\<lambda>v. gs_wifi_ssid_update (\<lambda>_. v)) GP_WIFI_HANDLE_SSID"

definition on_read_pass :: "u8 \<Rightarrow> u16 \<Rightarrow> bytes \<Rightarrow> gopro_sys \<Rightarrow> gopro_sys option" where
  "on_read_pass =
     read_wifi_string gs_wifi_pass (\<lambda>v. gs_wifi_pass_update (\<lambda>_. v)) GP_WIFI_HANDLE_PASS"

definition on_read_default :: "u8 \<Rightarrow> u16 \<Rightarrow> bytes \<Rightarrow> gopro_sys \<Rightarrow> gopro_sys option" where
  "on_read_default err handle src sys = Some sys"

context char_field
begin

lemma read_store:
  assumes "wf s" and "n < size" and "n \<le> length src"
  shows "\<exists>s'. store_field get put (put (replicate size 0) s) src 0 n = Some s' \<and> wf s' \<and>
           get s' = take n src @ replicate (size - n) 0"
proof -
  have w: "wf (put (replicate size 0) s)" using assms(1) by (rule wf_put) simp
  have e: "store_field get put (put (replicate size 0) s) src 0 n =
      Some (put (take n src @ 0 # replicate (size - Suc n) 0) s)"
    using store_Some [OF w, of 0 n src] assms by (simp add: put_put get_put)
  have l: "wf (put (take n src @ 0 # replicate (size - Suc n) 0) s)"
    using assms by (intro wf_put) simp_all
  have r: "0 # replicate (size - Suc n) 0 = replicate (size - n) (0 :: u8)"
    using assms(2) by (metis Suc_diff_Suc replicate_Suc)
  show ?thesis using e l by (simp add: get_put r)
qed

end

lemma wifi_str_size_bound: "wifi_str_size n < 20 \<longleftrightarrow> n \<noteq> 20"
  by (auto simp: wifi_str_size_def)

lemma wifi_str_size_le: "wifi_str_size n \<le> n"
  by (simp add: wifi_str_size_def)

lemma on_read_ssid_stores:
  assumes "wf_state (sys_state sys)" and "handle = gc_wifihandles (sys_client sys) ! GP_WIFI_HANDLE_SSID"
    and "length src \<noteq> 20"
  shows "\<exists>sys'. on_read_ssid 0 handle src sys = Some sys' \<and> wf_state (sys_state sys') \<and>
    gs_wifi_ssid (sys_state sys') =
      take (wifi_str_size (length src)) src @ replicate (20 - wifi_str_size (length src)) 0"
proof -
  have b: "wifi_str_size (length src) < 20" using assms(3) by (simp add: wifi_str_size_bound)
  show ?thesis
    using wifi_ssid_f.read_store [OF assms(1) b wifi_str_size_le] assms(2)
    by (auto simp: on_read_ssid_def read_wifi_string_def)
qed

lemma on_read_pass_stores:
  assumes "wf_state (sys_state sys)" and "handle = gc_wifihandles (sys_client sys) ! GP_WIFI_HANDLE_PASS"
    and "length src \<noteq> 20"
  shows "\<exists>sys'. on_read_pass 0 handle src sys = Some sys' \<and> wf_state (sys_state sys') \<and>
    gs_wifi_pass (sys_state sys') =
      take (wifi_str_size (length src)) src @ replicate (20 - wifi_str_size (length src)) 0"
proof -
  have b: "wifi_str_size (length src) < 20" using assms(3) by (simp add: wifi_str_size_bound)
  show ?thesis
    using wifi_pass_f.read_store [OF assms(1) b wifi_str_size_le] assms(2)
    by (auto simp: on_read_pass_def read_wifi_string_def)
qed

text \<open>A value of exactly 20 bytes sends the terminator one byte past the array.\<close>

lemma on_read_ssid_overflow:
  assumes "wf_state (sys_state sys)" and "handle = gc_wifihandles (sys_client sys) ! GP_WIFI_HANDLE_SSID"
    and "length src = 20"
  shows "on_read_ssid 0 handle src sys = None"
  using assms
  by (simp add: on_read_ssid_def read_wifi_string_def wifi_str_size_def store_field_def)

end
