(* ===== verification/Channels.thy ===== *)
theory Channels
  imports Client_State "HOL-Library.Sublist"
begin

section \<open>The environment and the message channels\<close>

text \<open>
  What the firmware calls and does not contain is a parameter: the record \<open>gopro_env\<close>.
  It holds the heap's answer to an allocation (\<open>None\<close>, or a block with whatever bytes it
  held before; a call has its own environment, so two allocations need not agree), the result of delivering a valid message on
  a zbus channel, and the nanopb decoders and encoders of the generated message types.

  A nanopb decoder of a message with callback fields meets the fields in the order of the
  input. It is given by the scalar fields it fills, the list of callback fields it meets
  (field number and the bytes of the substream), and whether decoding succeeds when no
  callback refuses. A callback that returns false makes the decoder stop and fail.

  A zbus channel runs the validator its definition names before it accepts a message:
  a rejected message is answered with \<^verbatim>\<open>-ENOMSG\<close> and goes nowhere.
\<close>

subsection \<open>External parameters\<close>

datatype alloc_site = Alloc_Packet | Alloc_Can_Reply | Alloc_Cert

record 'm pb_result =
  pb_fields :: 'm
  pb_subs :: "(nat \<times> bytes) list"
  pb_ok :: bool

record cohn_status_msg =
  cs_has_state :: bool
  cs_state :: int
  cs_has_status :: bool
  cs_status :: int
  cs_has_enabled :: bool
  cs_enabled :: bool

record cohn_cert_msg =
  cc_has_result :: bool
  cc_result :: int

record start_scanning_msg =
  ss_state :: int
  ss_scan_id :: int
  ss_total :: int

record scan_entry_msg =
  se_frequency :: int
  se_bars :: int
  se_flags :: int

record gopro_env =
  env_alloc :: "alloc_site \<Rightarrow> nat \<Rightarrow> bytes option"
  env_cmd_chan :: "gopro_cmd_t \<Rightarrow> cret"
  env_can_ble_chan :: cret
  dec_generic :: "bytes \<Rightarrow> bool \<times> int"
  dec_start_scanning :: "bytes \<Rightarrow> bool \<times> start_scanning_msg"
  dec_connect_new :: "bytes \<Rightarrow> bool \<times> int \<times> int"
  dec_connect :: "bytes \<Rightarrow> bool \<times> int \<times> int"
  dec_prov_state :: "bytes \<Rightarrow> bool \<times> int"
  dec_scan_req :: "bytes \<Rightarrow> bool \<times> int \<times> int"
  dec_cohn_status :: "bytes \<Rightarrow> cohn_status_msg pb_result"
  dec_cohn_cert :: "bytes \<Rightarrow> cohn_cert_msg pb_result"
  dec_ap_entries :: "bytes \<Rightarrow> unit pb_result"
  dec_scan_entry :: "bytes \<Rightarrow> scan_entry_msg pb_result"
  dec_wifi_cred :: "bytes \<Rightarrow> unit pb_result"
  dec_bledata :: "bytes \<Rightarrow> int pb_result"
  enc_pairing_finish :: "bytes \<Rightarrow> nat \<Rightarrow> bool \<times> bytes"
  enc_connect :: "bytes \<Rightarrow> nat \<Rightarrow> bool \<times> bytes"
  enc_connect_new :: "bytes \<Rightarrow> bytes \<Rightarrow> nat \<Rightarrow> bool \<times> bytes"
  enc_get_ap :: "int \<Rightarrow> int \<Rightarrow> int \<Rightarrow> nat \<Rightarrow> bool \<times> bytes"
  enc_bledata :: "int \<Rightarrow> bytes \<Rightarrow> nat \<Rightarrow> bool \<times> bytes"

text \<open>What \<^verbatim>\<open>k_malloc\<close> documents: a block it returns has the size asked for.\<close>

definition alloc_ok :: "gopro_env \<Rightarrow> bool" where
  "alloc_ok env \<longleftrightarrow> (\<forall>site n b. env_alloc env site n = Some b \<longrightarrow> length b = n)"

lemma alloc_okD: "alloc_ok env \<Longrightarrow> env_alloc env site n = Some b \<Longrightarrow> length b = n"
  by (simp add: alloc_ok_def)

text \<open>Running the callbacks of a decode in order; the flag is the decoder's result.\<close>

fun pb_callbacks ::
    "(nat \<Rightarrow> bytes \<Rightarrow> 's \<Rightarrow> (bool \<times> 's) option) \<Rightarrow> (nat \<times> bytes) list \<Rightarrow> 's \<Rightarrow> (bool \<times> 's) option" where
  "pb_callbacks cb [] s = Some (True, s)"
| "pb_callbacks cb ((tag, sub) # rest) s = do {
     (ok, s') \<leftarrow> cb tag sub s;
     if ok then pb_callbacks cb rest s' else Some (False, s')
   }"

definition pb_decode_cb ::
    "'m pb_result \<Rightarrow> (nat \<Rightarrow> bytes \<Rightarrow> 's \<Rightarrow> (bool \<times> 's) option) \<Rightarrow> 's \<Rightarrow> (bool \<times> 's) option" where
  "pb_decode_cb r cb s = do {
     (ok, s') \<leftarrow> pb_callbacks cb (pb_subs r) s;
     Some (ok \<and> pb_ok r, s')
   }"

lemma pb_callbacks_invariant:
  assumes "pb_callbacks cb subs s = Some (ok, s')" and "I s"
    and step: "\<And>tag sub s ok s'. I s \<Longrightarrow> cb tag sub s = Some (ok, s') \<Longrightarrow> I s'"
  shows "I s'"
  using assms(1,2)
proof (induction subs arbitrary: s)
  case Nil
  then show ?case by simp
next
  case (Cons x rest)
  obtain tag sub where x: "x = (tag, sub)" by force
  with Cons.prems obtain k s1 where c: "cb tag sub s = Some (k, s1)"
    by (auto simp: bind_eq_Some_conv)
  then have i: "I s1" using step Cons.prems by blast
  with c x Cons.prems Cons.IH [OF _ i] show ?case by (auto split: if_splits)
qed

subsection \<open>Channels with a validator\<close>

definition pub_all :: "('m \<Rightarrow> 's \<Rightarrow> cret \<times> 's) \<Rightarrow> 'm list \<Rightarrow> 's \<Rightarrow> 's" where
  "pub_all pub ms s = fold (\<lambda>m s. snd (pub m s)) ms s"

lemma pub_all_simps [simp]:
  "pub_all pub [] s = s"
  "pub_all pub (m # ms) s = pub_all pub ms (snd (pub m s))"
  "pub_all pub (ms @ ns) s = pub_all pub ns (pub_all pub ms s)"
  by (simp_all add: pub_all_def)

locale validated_channel =
  fixes pub :: "'m \<Rightarrow> 's \<Rightarrow> cret \<times> 's"
    and valid :: "'s \<Rightarrow> 'm \<Rightarrow> bool"
    and queue :: "'s \<Rightarrow> 'm list"
  assumes pub_reject: "\<not> valid s m \<Longrightarrow> pub m s = (Neg ENOMSG, s)"
    and pub_accept: "pub m s = (OK, s') \<Longrightarrow> valid s m \<and> queue s' = queue s @ [m]"
    and pub_fail: "fst (pub m s) \<noteq> OK \<Longrightarrow> snd (pub m s) = s"
    and pub_valid: "valid (snd (pub m s)) k = valid s k"
begin

lemma pub_queue:
  "queue (snd (pub m s)) = queue s @ (if fst (pub m s) = OK then [m] else [])"
  using pub_fail [of m s] by (cases "pub m s") (auto dest: pub_accept)

lemma pub_all_valid: "valid (pub_all pub ms s) k = valid s k"
  by (induction ms arbitrary: s) (simp_all add: pub_valid)

lemma pub_all_queue:
  "\<exists>xs. queue (pub_all pub ms s) = queue s @ xs \<and> subseq xs ms \<and> (\<forall>m \<in> set xs. valid s m)"
proof (induction ms arbitrary: s)
  case Nil
  show ?case by simp
next
  case (Cons m ms)
  obtain xs where q: "queue (pub_all pub ms (snd (pub m s))) = queue (snd (pub m s)) @ xs"
    and sub: "subseq xs ms" and v: "\<forall>k \<in> set xs. valid s k"
    using Cons.IH [of "snd (pub m s)"] by (auto simp: pub_valid)
  show ?case
  proof (cases "fst (pub m s) = OK")
    case True
    then have "valid s m" by (metis prod.collapse pub_accept)
    with True q sub v show ?thesis
      by (intro exI [of _ "m # xs"]) (auto simp: pub_queue)
  next
    case False
    with q sub v show ?thesis by (intro exI [of _ xs]) (auto simp: pub_queue)
  qed
qed

lemma pub_all_rejected:
  "(\<And>m. m \<in> set ms \<Longrightarrow> \<not> valid s m) \<Longrightarrow> pub_all pub ms s = s"
  by (induction ms) (simp_all add: pub_reject)

lemma pub_all_accepted:
  assumes "\<And>m s'. m \<in> set ms \<Longrightarrow> valid s' m \<Longrightarrow> fst (pub m s') = OK"
    and "\<And>m. m \<in> set ms \<Longrightarrow> valid s m"
  shows "queue (pub_all pub ms s) = queue s @ ms"
  using assms by (induction ms arbitrary: s) (simp_all add: pub_queue pub_valid)

end

subsection \<open>The command channel \<open>gopro_cmd_chan\<close>\<close>

definition gopro_cmd_validator :: "gopro_state_t \<Rightarrow> gopro_cmd_t \<Rightarrow> bool" where
  "gopro_cmd_validator s c =
     (if cmd_type c = 0xFF then True
      else if gopro_client_get_state s \<noteq> GP_STATE_CONNECTED then False
      else if 20 < cmd_len c then False
      else if cmd_type c = GP_CNTRL_HANDLE_CMD \<or> cmd_type c = GP_CNTRL_HANDLE_SETTINGS \<or>
              cmd_type c = GP_CNTRL_HANDLE_QUERY \<or> cmd_type c = GP_CNTRL_HANDLE_NET
           then True
      else False)"

definition cmd_chan_pub :: "gopro_env \<Rightarrow> gopro_cmd_t \<Rightarrow> gopro_sys \<Rightarrow> cret \<times> gopro_sys" where
  "cmd_chan_pub env c sys =
     (if \<not> gopro_cmd_validator (sys_state sys) c then (Neg ENOMSG, sys)
      else if env_cmd_chan env c = OK
      then (OK, sys\<lparr>sys_cmd_queue := sys_cmd_queue sys @ [c]\<rparr>)
      else (env_cmd_chan env c, sys))"

interpretation cmd_chan:
  validated_channel "cmd_chan_pub env" "\<lambda>sys. gopro_cmd_validator (sys_state sys)" sys_cmd_queue
  for env
proof
  fix s m s' k
  show "\<not> gopro_cmd_validator (sys_state s) m \<Longrightarrow> cmd_chan_pub env m s = (Neg ENOMSG, s)"
    by (simp only: cmd_chan_pub_def simp_thms if_True)
  show "cmd_chan_pub env m s = (OK, s') \<Longrightarrow>
      gopro_cmd_validator (sys_state s) m \<and> sys_cmd_queue s' = sys_cmd_queue s @ [m]"
    by (clarsimp simp: cmd_chan_pub_def split: if_split_asm)
  show "fst (cmd_chan_pub env m s) \<noteq> OK \<Longrightarrow> snd (cmd_chan_pub env m s) = s"
    by (cases "gopro_cmd_validator (sys_state s) m"; cases "env_cmd_chan env m = OK")
       (simp_all add: cmd_chan_pub_def)
  show "gopro_cmd_validator (sys_state (snd (cmd_chan_pub env m s))) k =
      gopro_cmd_validator (sys_state s) k"
    by (simp add: cmd_chan_pub_def)
qed

lemma cmd_chan_pub_frame [gp_simps]:
  "sys_state (snd (cmd_chan_pub env c sys)) = sys_state sys"
  "sys_packet (snd (cmd_chan_pub env c sys)) = sys_packet sys"
  "sys_client (snd (cmd_chan_pub env c sys)) = sys_client sys"
  "sys_leds (snd (cmd_chan_pub env c sys)) = sys_leds sys"
  "sys_can_tx (snd (cmd_chan_pub env c sys)) = sys_can_tx sys"
  "sys_can_reply_sem (snd (cmd_chan_pub env c sys)) = sys_can_reply_sem sys"
  "sys_hw_sem (snd (cmd_chan_pub env c sys)) = sys_hw_sem sys"
  "sys_cert (snd (cmd_chan_pub env c sys)) = sys_cert sys"
  "sys_ap_list (snd (cmd_chan_pub env c sys)) = sys_ap_list sys"
  "sys_ap_index (snd (cmd_chan_pub env c sys)) = sys_ap_index sys"
  "sys_log (snd (cmd_chan_pub env c sys)) = sys_log sys"
  by (simp_all add: cmd_chan_pub_def)

lemma pub_all_cmd_frame [gp_simps]:
  "sys_state (pub_all (cmd_chan_pub env) cs sys) = sys_state sys"
  "sys_packet (pub_all (cmd_chan_pub env) cs sys) = sys_packet sys"
  "sys_client (pub_all (cmd_chan_pub env) cs sys) = sys_client sys"
  "sys_leds (pub_all (cmd_chan_pub env) cs sys) = sys_leds sys"
  "sys_can_tx (pub_all (cmd_chan_pub env) cs sys) = sys_can_tx sys"
  "sys_can_reply_sem (pub_all (cmd_chan_pub env) cs sys) = sys_can_reply_sem sys"
  "sys_hw_sem (pub_all (cmd_chan_pub env) cs sys) = sys_hw_sem sys"
  "sys_cert (pub_all (cmd_chan_pub env) cs sys) = sys_cert sys"
  "sys_ap_list (pub_all (cmd_chan_pub env) cs sys) = sys_ap_list sys"
  "sys_ap_index (pub_all (cmd_chan_pub env) cs sys) = sys_ap_index sys"
  "sys_log (pub_all (cmd_chan_pub env) cs sys) = sys_log sys"
  by (induction cs arbitrary: sys) (simp_all add: gp_simps)

lemma validator_control: "cmd_type c = 0xFF \<Longrightarrow> gopro_cmd_validator s c"
  by (simp add: gopro_cmd_validator_def)

lemma validator_ble:
  "gopro_cmd_validator s c \<Longrightarrow> cmd_type c \<noteq> 0xFF \<Longrightarrow>
   gs_state s = GP_STATE_CONNECTED \<and> unat (cmd_len c) \<le> 20 \<and> unat (cmd_type c) < 4"
  by (auto simp: gopro_cmd_validator_def gopro_client_get_state_def word_less_nat_alt split: if_splits)

lemma validator_accepts:
  "gs_state s = GP_STATE_CONNECTED \<Longrightarrow> unat (cmd_len c) \<le> 20 \<Longrightarrow> cmd_type c \<in> {0, 1, 2, 3} \<Longrightarrow>
   gopro_cmd_validator s c"
  by (auto simp: gopro_cmd_validator_def gopro_client_get_state_def word_less_nat_alt)

end
