(* ===== verification/Segmentation.thy ===== *)
theory Segmentation
  imports Channels
begin

section \<open>Cutting a message into BLE frames (\<^verbatim>\<open>gopro_protobuf.c\<close>)\<close>

text \<open>
  \<^verbatim>\<open>gopro_send_big_data\<close> and \<^verbatim>\<open>gopro_send_buf\<close> cut a buffer into frames of at most
  20 bytes and publish each on the command channel. The building of the frames does not
  depend on the results of publishing them, so the model has a function that builds the
  frames, in the order they are published, and one that publishes them.

  The frame structure is a local variable: its 20 data bytes start with whatever the stack
  held (\<open>stk\<close>) and keep the bytes of the previous frame where a shorter one does not
  overwrite them. Reading the message past its buffer is \<open>None\<close>.
\<close>

subsection \<open>Building the frames\<close>

function cont_frames :: "bytes \<Rightarrow> nat \<Rightarrow> nat \<Rightarrow> u8 \<Rightarrow> u32 \<Rightarrow> bytes \<Rightarrow> gopro_cmd_t list option" where
  "cont_frames data ptr len packet_num ty buf =
     (if len = 0 then Some []
      else do {
        let n = (if 19 < len then 19 else len);
        d \<leftarrow> rd_block data ptr n;
        let buf = (0x80 OR (packet_num AND 0x0F)) # d @ drop (Suc n) buf;
        rest \<leftarrow> cont_frames data (ptr + n) (len - n) (packet_num + 1) ty buf;
        Some (\<lparr>cmd_len = of_nat (n + 1), cmd_type = ty, cmd_data = buf\<rparr> # rest)
      })"
  by pat_completeness auto
termination
  by (relation "measure (\<lambda>(data, ptr, len, num, ty, buf). len)") auto

declare cont_frames.simps [simp del]

definition hdr13_0 :: "u32 \<Rightarrow> u8" where
  "hdr13_0 n = ucast (drop_bit 8 n AND 0x1F) OR push_bit 5 1"

definition hdr13_1 :: "u32 \<Rightarrow> u8" where
  "hdr13_1 n = ucast (n AND 0xFF)"

definition big_data_frames ::
    "bytes \<Rightarrow> bytes \<Rightarrow> u32 \<Rightarrow> u8 \<Rightarrow> u8 \<Rightarrow> u8 \<Rightarrow> gopro_cmd_t list option" where
  "big_data_frames stk data len type feature action =
     (if len \<le> 20 - 3 then do {
        d \<leftarrow> rd_block data 0 (unat len);
        let buf = [ucast ((len + 2) AND 0x1F), feature, action] @ d @ drop (3 + unat len) stk;
        Some [\<lparr>cmd_len = len + 3, cmd_type = ucast type, cmd_data = buf\<rparr>]
      }
      else if len < 8191 then do {
        d \<leftarrow> rd_block data 0 16;
        let buf = [hdr13_0 (len + 2), hdr13_1 (len + 2), feature, action] @ d;
        rest \<leftarrow> cont_frames data 16 (unat (len - 16)) 0 (ucast type) buf;
        Some (\<lparr>cmd_len = 20, cmd_type = ucast type, cmd_data = buf\<rparr> # rest)
      }
      else Some [])"

definition send_buf_frames :: "bytes \<Rightarrow> bytes \<Rightarrow> u32 \<Rightarrow> u8 \<Rightarrow> gopro_cmd_t list option" where
  "send_buf_frames stk data len type =
     (if len \<le> 20 then do {
        d \<leftarrow> rd_block data 0 (unat len);
        Some [\<lparr>cmd_len = len, cmd_type = ucast type, cmd_data = d @ drop (unat len) stk\<rparr>]
      }
      else if len < 8191 then do {
        d \<leftarrow> rd_block data 0 18;
        let buf = [hdr13_0 len, hdr13_1 len] @ d;
        rest \<leftarrow> cont_frames data 18 (unat (len - 18)) 0 (ucast type) buf;
        Some (\<lparr>cmd_len = 20, cmd_type = ucast type, cmd_data = buf\<rparr> # rest)
      }
      else Some [])"

subsection \<open>Publishing them\<close>

definition gopro_send_big_data ::
    "gopro_env \<Rightarrow> bytes \<Rightarrow> bytes \<Rightarrow> u32 \<Rightarrow> u8 \<Rightarrow> u8 \<Rightarrow> u8 \<Rightarrow> gopro_sys \<Rightarrow> gopro_sys option" where
  "gopro_send_big_data env stk data len type feature action sys = do {
     frames \<leftarrow> big_data_frames stk data len type feature action;
     Some (pub_all (cmd_chan_pub env) frames sys)
   }"

definition gopro_send_buf ::
    "gopro_env \<Rightarrow> bytes \<Rightarrow> bytes \<Rightarrow> u32 \<Rightarrow> u8 \<Rightarrow> gopro_sys \<Rightarrow> gopro_sys option" where
  "gopro_send_buf env stk data len type sys = do {
     frames \<leftarrow> send_buf_frames stk data len type;
     Some (pub_all (cmd_chan_pub env) frames sys)
   }"

subsection \<open>What a frame carries\<close>

text \<open>The bytes that go over the air, and the message bytes of a continuation frame.\<close>

definition frame_bytes :: "gopro_cmd_t \<Rightarrow> bytes" where
  "frame_bytes c = take (unat (cmd_len c)) (cmd_data c)"

definition cont_payload :: "gopro_cmd_t \<Rightarrow> bytes" where
  "cont_payload c = drop 1 (frame_bytes c)"

definition cont_frame :: "u32 \<Rightarrow> gopro_cmd_t \<Rightarrow> bool" where
  "cont_frame ty c \<longleftrightarrow> wf_cmd c \<and> cmd_type c = ty \<and> bit (cmd_data c ! 0) 7 \<and>
     2 \<le> unat (cmd_len c) \<and> unat (cmd_len c) \<le> 20"

text \<open>Cutting a list into pieces of at most \<open>k\<close> elements, and numbering them.\<close>

function pieces :: "nat \<Rightarrow> 'a list \<Rightarrow> 'a list list" where
  "pieces k xs = (if k = 0 \<or> xs = [] then [] else take k xs # pieces k (drop k xs))"
  by pat_completeness auto
termination
  by (relation "measure (\<lambda>(k, xs). length xs)") auto

declare pieces.simps [simp del]

lemma pieces_Nil [simp]: "pieces k [] = []"
  by (simp add: pieces.simps)

lemma pieces_step: "0 < k \<Longrightarrow> xs \<noteq> [] \<Longrightarrow> pieces k xs = take k xs # pieces k (drop k xs)"
  by (subst pieces.simps) simp

lemma concat_pieces: "0 < k \<Longrightarrow> concat (pieces k xs) = xs"
proof (induction k xs rule: pieces.induct)
  case (1 k xs)
  then show ?case by (cases "xs = []") (simp_all add: pieces_step)
qed

lemma pieces_small: "p \<in> set (pieces k xs) \<Longrightarrow> p \<noteq> [] \<and> length p \<le> k"
proof (induction k xs rule: pieces.induct)
  case (1 k xs)
  show ?case
  proof (cases "k = 0 \<or> xs = []")
    case True
    with 1 show ?thesis by (simp add: pieces.simps [of k xs])
  next
    case False
    then have "pieces k xs = take k xs # pieces k (drop k xs)" by (simp add: pieces_step)
    with 1 False show ?thesis by auto
  qed
qed

lemma length_pieces: "0 < k \<Longrightarrow> length (pieces k xs) = (length xs + k - 1) div k"
proof (induction k xs rule: pieces.induct)
  case (1 k xs)
  show ?case
  proof (cases "xs = []")
    case True
    with 1 show ?thesis by simp
  next
    case False
    then have ih: "length (pieces k (drop k xs)) = (length xs - k + k - 1) div k"
      using 1 by simp
    have "Suc ((length xs - k + k - 1) div k) = (length xs + k - 1) div k"
      using 1 False by (intro ceil_div_step) simp_all
    with ih 1 False show ?thesis by (simp add: pieces_step)
  qed
qed

fun numbered :: "u8 \<Rightarrow> bytes list \<Rightarrow> bytes list" where
  "numbered start [] = []"
| "numbered start (p # ps) = ((0x80 OR (start AND 0x0F)) # p) # numbered (start + 1) ps"

lemma map_tl_numbered [simp]: "map tl (numbered s ps) = ps"
  by (induction ps arbitrary: s) simp_all

subsection \<open>The frames of a message\<close>

lemma cont_frames_0 [simp]: "cont_frames data ptr 0 num ty buf = Some []"
  by (simp add: cont_frames.simps)

lemma bit_cont_header: "bit ((0x80 :: u8) OR x) 7"
  by (simp add: bit_simps)

lemma cont_frames_step:
  assumes "0 < len" and "ptr + len \<le> length data"
  shows "cont_frames data ptr len num ty buf =
    (let n = min 19 len;
         buf' = (0x80 OR (num AND 0x0F)) # take n (drop ptr data) @ drop (Suc n) buf
     in map_option (\<lambda>rest. \<lparr>cmd_len = of_nat (n + 1), cmd_type = ty, cmd_data = buf'\<rparr> # rest)
          (cont_frames data (ptr + n) (len - n) (num + 1) ty buf'))"
proof -
  have m: "(if 19 < len then 19 else len) = min 19 len" by simp
  have r: "rd_block data ptr (min 19 len) = Some (take (min 19 len) (drop ptr data))"
    using assms by (intro rd_block_Some) simp
  show ?thesis
    using assms(1)
    by (subst cont_frames.simps) (simp add: m r Let_def map_conv_bind_option comp_def)
qed

lemma cont_frames_spec:
  assumes "ptr + len \<le> length data" and "length buf = 20"
  shows "\<exists>fs. cont_frames data ptr len num ty buf = Some fs \<and> (\<forall>f \<in> set fs. cont_frame ty f) \<and>
           map frame_bytes fs = numbered num (pieces 19 (take len (drop ptr data)))"
  using assms
proof (induction len arbitrary: ptr num buf rule: less_induct)
  case (less len)
  show ?case
  proof (cases "len = 0")
    case True
    then show ?thesis by simp
  next
    case False
    define n where "n = min 19 len"
    define msg where "msg = take len (drop ptr data)"
    define buf' where "buf' = (0x80 OR (num AND 0x0F)) # take n msg @ drop (Suc n) buf"
    define f where "f = \<lparr>cmd_len = of_nat (n + 1), cmd_type = ty, cmd_data = buf'\<rparr>"
    have n: "0 < n" "n \<le> 19" "n \<le> len" using False by (auto simp: n_def)
    have msg: "length msg = len" "take n msg = take n (drop ptr data)"
      "drop n msg = take (len - n) (drop (ptr + n) data)"
      using less.prems n by (simp_all add: msg_def drop_take add.commute)
    have l: "length (take n msg) = n" using n msg(1) by simp
    have buf': "length buf' = 20" using less.prems n l by (simp add: buf'_def)
    have "unat (of_nat (n + 1) :: u32) = n + 1" using n by (simp only: unat_of_nat) simp
    then have u: "unat (cmd_len f) = Suc n" by (simp add: f_def)
    have f: "cont_frame ty f" "frame_bytes f = (0x80 OR (num AND 0x0F)) # take n msg"
      using n buf' u l by (simp_all add: cont_frame_def wf_cmd_def frame_bytes_def f_def buf'_def
          bit_cont_header)
    have "len - n < len" and "ptr + n + (len - n) \<le> length data"
      using n less.prems by auto
    from less.IH [OF this buf', of "num + 1"] msg(3) obtain fs where
      fs: "cont_frames data (ptr + n) (len - n) (num + 1) ty buf' = Some fs"
        "\<forall>f \<in> set fs. cont_frame ty f"
        "map frame_bytes fs = numbered (num + 1) (pieces 19 (drop n msg))"
      by auto
    have e: "cont_frames data ptr len num ty buf = Some (f # fs)"
      using False less.prems fs(1)
      by (simp add: cont_frames_step n_def [symmetric] f_def buf'_def msg(2))
    have ne: "msg \<noteq> []" using False msg(1) by auto
    have "pieces 19 msg = take n msg # pieces 19 (drop n msg)"
      using pieces_step [of 19 msg] ne msg(1) by (cases "len \<le> 19") (auto simp: n_def min_def)
    then show ?thesis using e f fs by (simp add: msg_def [symmetric])
  qed
qed

lemma cont_frames_None:
  "0 < len \<Longrightarrow> length data < ptr + len \<Longrightarrow> cont_frames data ptr len num ty buf = None"
proof (induction len arbitrary: ptr num buf rule: less_induct)
  case (less len)
  show ?case
  proof (cases "19 < len")
    case True
    show ?thesis
    proof (cases "rd_block data ptr 19")
      case None
      with True show ?thesis by (simp add: cont_frames.simps)
    next
      case (Some d)
      have "cont_frames data (ptr + 19) (len - 19) m ty b = None" for m b
        using True less.prems by (intro less.IH) auto
      with True Some show ?thesis by (subst cont_frames.simps) simp
    qed
  next
    case False
    with less.prems show ?thesis by (subst cont_frames.simps) simp
  qed
qed

lemma big_data_short:
  assumes "unat len \<le> 17" and "unat len \<le> length data" and "length stk = 20"
  shows "\<exists>f. big_data_frames stk data len ty feat act = Some [f] \<and> wf_cmd f \<and> cmd_type f = ucast ty \<and>
    unat (cmd_len f) = unat len + 3 \<and>
    frame_bytes f = [ucast ((len + 2) AND 0x1F), feat, act] @ take (unat len) data"
proof -
  have c: "len \<le> 20 - 3" using assms(1) by (simp add: word_le_nat_alt)
  have u: "unat (len + 3) = unat len + 3"
    using assms(1) by (simp add: unat_word_ariths)
  have t: "take (unat len + 3) (a # b # c # take (unat len) data @ r) = a # b # c # take (unat len) data"
    for a b c :: u8 and r using assms(2) by (simp add: numeral_3_eq_3)
  show ?thesis using assms c u by (simp add: big_data_frames_def wf_cmd_def frame_bytes_def t)
qed

lemma big_data_long:
  assumes l: "17 < unat len" "unat len < 8191" and d: "unat len \<le> length data"
  shows "\<exists>f fs. big_data_frames stk data len ty feat act = Some (f # fs) \<and>
    wf_cmd f \<and> cmd_type f = ucast ty \<and> cmd_len f = 20 \<and>
    cmd_data f = [hdr13_0 (len + 2), hdr13_1 (len + 2), feat, act] @ take 16 data \<and>
    (\<forall>g \<in> set fs. cont_frame (ucast ty) g) \<and>
    map frame_bytes fs = numbered 0 (pieces 19 (drop 16 (take (unat len) data)))"
proof -
  have c: "\<not> len \<le> 20 - 3" "len < 8191" using l by (simp_all add: word_le_nat_alt word_less_nat_alt)
  have u: "unat (len - 16) = unat len - 16"
    using l by (intro unat_sub [of 16 len, simplified]) (simp add: word_le_nat_alt)
  define buf where "buf = [hdr13_0 (len + 2), hdr13_1 (len + 2), feat, act] @ take 16 data"
  have b: "length buf = 20" using l d by (simp add: buf_def)
  have "16 + unat (len - 16) \<le> length data" using l d u by simp
  from cont_frames_spec [OF this b, of 0 "ucast ty"] obtain fs where
    fs: "cont_frames data 16 (unat (len - 16)) 0 (ucast ty) buf = Some fs"
      "\<forall>g \<in> set fs. cont_frame (ucast ty) g"
      "map frame_bytes fs = numbered 0 (pieces 19 (take (unat len - 16) (drop 16 data)))"
    using u by auto
  define f where "f = \<lparr>cmd_len = 20 :: u32, cmd_type = ucast ty :: u32, cmd_data = buf\<rparr>"
  have "rd_block data 0 16 = Some (take 16 data)" using l d by simp
  then have "big_data_frames stk data len ty feat act = Some (f # fs)"
    using c fs(1) by (simp add: big_data_frames_def buf_def f_def)
  then show ?thesis using fs(2,3) b
    by (intro exI [of _ f] exI [of _ fs]) (simp add: f_def wf_cmd_def drop_take buf_def)
qed

end
