(* ===== verification/Leds.thy ===== *)
theory Leds
  imports Client_State
begin

section \<open>LEDs (\<^verbatim>\<open>leds.c\<close>, \<^verbatim>\<open>led_simple.c\<close>, \<^verbatim>\<open>led_rgb.c\<close>)\<close>

text \<open>
  The mode table, the two hardware back ends, the blink tasks (one round of each
  endless loop) and the idle timer that returns the device to its unknown state.
  Times are milliseconds. A task round is the list of levels it drives with the time
  it sleeps after each.
\<close>

subsection \<open>The mode table and the simple back end\<close>

definition led_mode_timing :: "(nat \<times> nat) list" where
  "led_mode_timing =
     [(0, 100),      \<comment> \<open>LED_MODE_OFF\<close>
      (100, 900),    \<comment> \<open>LED_MODE_BLINK_1S\<close>
      (100, 4900),   \<comment> \<open>LED_MODE_BLINK_5S\<close>
      (100, 200),    \<comment> \<open>LED_MODE_BLINK_300MS\<close>
      (100, 100),    \<comment> \<open>LED_MODE_BLINK_100MS\<close>
      (100, 0)]      \<comment> \<open>LED_MODE_ON\<close>"

text \<open>\<^verbatim>\<open>leds_mode\<close> has \<^verbatim>\<open>LED_NUM_END\<close> = 3 entries; two are used.\<close>

abbreviation (input) SIMPLE_LED_REC :: nat where "SIMPLE_LED_REC \<equiv> 0"
abbreviation (input) SIMPLE_LED_BT :: nat where "SIMPLE_LED_BT \<equiv> 1"

definition led_mode_set :: "led_number_t \<Rightarrow> led_mode_t \<Rightarrow> led_mode_t list \<Rightarrow> cret \<times> led_mode_t list" where
  "led_mode_set led_num mode leds =
     (if LED_MODE_END \<le> mode then (Code (- 1), leds)
      else if led_num = LED_NUM_END then (Code (- 2), leds)
      else case led_num of
        LED_NUM_BT \<Rightarrow> (OK, leds[SIMPLE_LED_BT := mode])
      | LED_NUM_REC \<Rightarrow> (OK, leds[SIMPLE_LED_REC := mode])
      | _ \<Rightarrow> (OK, leds))"

definition gopro_led_mode_set :: "led_number_t \<Rightarrow> led_mode_t \<Rightarrow> gopro_sys \<Rightarrow> gopro_sys" where
  "gopro_led_mode_set led_num mode sys =
     sys\<lparr>sys_leds := snd (led_mode_set led_num mode (sys_leds sys))\<rparr>"

definition led_round :: "led_mode_t \<Rightarrow> (bool \<times> nat) list" where
  "led_round mode =
     (case led_mode_timing ! led_mode_code mode of (on_time, off_time) \<Rightarrow>
        (if 0 < on_time then [(True, on_time)] else []) @
        (if 0 < off_time then [(False, off_time)] else []))"

definition leds_bt_task :: "led_mode_t list \<Rightarrow> (bool \<times> nat) list" where
  "leds_bt_task leds = led_round (leds ! SIMPLE_LED_BT)"

definition leds_rec_task :: "led_mode_t list \<Rightarrow> (bool \<times> nat) list" where
  "leds_rec_task leds = led_round (leds ! SIMPLE_LED_REC)"

definition wf_leds :: "led_mode_t list \<Rightarrow> bool" where
  "wf_leds leds \<longleftrightarrow> length leds = 3 \<and> LED_MODE_END \<notin> set leds"

lemma led_mode_set_wf [wf_intros]: "wf_leds leds \<Longrightarrow> wf_leds (snd (led_mode_set n m leds))"
  using led_mode_in_range [of m]
  by (cases n) (auto simp: led_mode_set_def wf_leds_def dest!: set_update_subset_insert [THEN subsetD])

lemma led_mode_set_bt:
  "m \<noteq> LED_MODE_END \<Longrightarrow> led_mode_set LED_NUM_BT m leds = (OK, leds[SIMPLE_LED_BT := m])"
  using led_mode_in_range [of m] by (simp add: led_mode_set_def)

lemma led_mode_set_rec:
  "m \<noteq> LED_MODE_END \<Longrightarrow> led_mode_set LED_NUM_REC m leds = (OK, leds[SIMPLE_LED_REC := m])"
  using led_mode_in_range [of m] by (simp add: led_mode_set_def)

lemma gopro_led_mode_set_frame [gp_simps]:
  "sys_state (gopro_led_mode_set n m sys) = sys_state sys"
  "sys_packet (gopro_led_mode_set n m sys) = sys_packet sys"
  "sys_client (gopro_led_mode_set n m sys) = sys_client sys"
  "sys_cmd_queue (gopro_led_mode_set n m sys) = sys_cmd_queue sys"
  "sys_can_tx (gopro_led_mode_set n m sys) = sys_can_tx sys"
  "sys_can_reply_sem (gopro_led_mode_set n m sys) = sys_can_reply_sem sys"
  "sys_hw_sem (gopro_led_mode_set n m sys) = sys_hw_sem sys"
  "sys_cert (gopro_led_mode_set n m sys) = sys_cert sys"
  "sys_ap_list (gopro_led_mode_set n m sys) = sys_ap_list sys"
  "sys_ap_index (gopro_led_mode_set n m sys) = sys_ap_index sys"
  by (simp_all add: gopro_led_mode_set_def)

text \<open>Every valid mode sleeps in every round, so the two tasks never spin.\<close>

lemma led_round_sleeps:
  assumes "mode \<noteq> LED_MODE_END"
  shows "0 < sum_list (map snd (led_round mode))"
  using assms by (cases mode) (simp_all add: led_round_def led_mode_timing_def)

lemma led_round_off: "led_round LED_MODE_OFF = [(False, 100)]"
  by (simp add: led_round_def led_mode_timing_def)

lemma led_round_on: "led_round LED_MODE_ON = [(True, 100)]"
  by (simp add: led_round_def led_mode_timing_def)

lemma led_round_lights:
  assumes "mode \<noteq> LED_MODE_END"
  shows "True \<in> fst ` set (led_round mode) \<longleftrightarrow> mode \<noteq> LED_MODE_OFF"
  using assms by (cases mode) (simp_all add: led_round_def led_mode_timing_def)

subsection \<open>The RGB back end\<close>

text \<open>
  \<open>n\<close> is \<^verbatim>\<open>STRIP_NUM_PIXELS\<close>. A task round writes one pixel; the pixel numbers are
  \<^verbatim>\<open>RGB_PIXEL_BT\<close> = 0 and \<^verbatim>\<open>RGB_PIXEL_REC\<close> = 1.
\<close>

datatype rgb_task = rgb_leds_bt_task | rgb_leds_rec_task

primrec rgb_task_pixel :: "rgb_task \<Rightarrow> nat" where
  "rgb_task_pixel rgb_leds_bt_task = 0"
| "rgb_task_pixel rgb_leds_rec_task = 1"

definition rgb_led_mode_set ::
    "nat \<Rightarrow> led_number_t \<Rightarrow> led_mode_t \<Rightarrow> led_mode_t list \<Rightarrow> cret \<times> led_mode_t list" where
  "rgb_led_mode_set n led_num mode leds =
     (if LED_MODE_END \<le> mode then (Code (- 1), leds)
      else if led_num = LED_NUM_END then (Code (- 2), leds)
      else case led_num of
        LED_NUM_BT \<Rightarrow> (OK, leds[0 := mode])
      | LED_NUM_REC \<Rightarrow> (OK, if 1 < n then leds[1 := mode] else leds)
      | _ \<Rightarrow> (OK, leds))"

text \<open>The colours, with \<open>b\<close> the configured brightness.\<close>

record led_rgb =
  rgb_r :: u8
  rgb_g :: u8
  rgb_b :: u8

definition red_color :: "u8 \<Rightarrow> led_rgb" where
  "red_color b = \<lparr>rgb_r = b, rgb_g = 0, rgb_b = 0\<rparr>"

definition green_color :: "u8 \<Rightarrow> led_rgb" where
  "green_color b = \<lparr>rgb_r = 0, rgb_g = b, rgb_b = 0\<rparr>"

definition off_color :: led_rgb where
  "off_color = \<lparr>rgb_r = 0, rgb_g = 0, rgb_b = 0\<rparr>"

text \<open>
  The initialisation copies \<open>n\<close> colours from the single \<^verbatim>\<open>off_color\<close>, an access outside of it
  when there is more than one pixel, and then starts the tasks.
\<close>

definition rgb_led_threads :: "nat \<Rightarrow> rgb_task list" where
  "rgb_led_threads n = [rgb_leds_bt_task] @ (if 1 < n then [rgb_leds_bt_task] else [])"

definition rgb_led_hw_init :: "bool \<Rightarrow> nat \<Rightarrow> (cret \<times> led_rgb list \<times> rgb_task list) option" where
  "rgb_led_hw_init ready n =
     (if \<not> ready then Some (Code (- 1), replicate n off_color, [])
      else do {
        pixels \<leftarrow> (if n \<le> length [off_color] then Some (take n [off_color]) else None);
        Some (OK, pixels, rgb_led_threads n)
      })"

text \<open>
  A round of a task: each phase of the mode writes the pixel of the task and shows the whole
  strip for a while. The result is what was shown, and the pixels at the end.
\<close>

definition rgb_task_color :: "rgb_task \<Rightarrow> u8 \<Rightarrow> led_rgb" where
  "rgb_task_color t b = (case t of rgb_leds_bt_task \<Rightarrow> green_color b | rgb_leds_rec_task \<Rightarrow> red_color b)"

fun rgb_phases :: "nat \<Rightarrow> led_rgb \<Rightarrow> (bool \<times> nat) list \<Rightarrow> led_rgb list \<Rightarrow> (led_rgb list \<times> nat) list \<times> led_rgb list" where
  "rgb_phases i c [] pixels = ([], pixels)"
| "rgb_phases i c ((on, ms) # ps) pixels =
     (let pixels = pixels[i := if on then c else off_color];
          (shown, last) = rgb_phases i c ps pixels in
      ((pixels, ms) # shown, last))"

definition rgb_task_round ::
    "rgb_task \<Rightarrow> u8 \<Rightarrow> led_mode_t list \<Rightarrow> led_rgb list \<Rightarrow> (led_rgb list \<times> nat) list \<times> led_rgb list" where
  "rgb_task_round t b leds pixels =
     rgb_phases (rgb_task_pixel t) (rgb_task_color t b) (led_round (leds ! rgb_task_pixel t)) pixels"

lemma rgb_init_overread: "1 < n \<Longrightarrow> rgb_led_hw_init True n = None"
  by (simp add: rgb_led_hw_init_def)

lemma rgb_init_single: "rgb_led_hw_init True 1 = Some (OK, [off_color], [rgb_leds_bt_task])"
  by (simp add: rgb_led_hw_init_def rgb_led_threads_def)

lemma rgb_phases_other:
  "j \<noteq> i \<Longrightarrow> snd (rgb_phases i c ps pixels) ! j = pixels ! j"
  "j \<noteq> i \<Longrightarrow> p \<in> set (fst (rgb_phases i c ps pixels)) \<Longrightarrow> fst p ! j = pixels ! j"
  by (induction i c ps pixels rule: rgb_phases.induct) (auto simp: Let_def split_beta)

lemma rgb_phases_times: "map snd (fst (rgb_phases i c ps pixels)) = map snd ps"
  by (induction i c ps pixels rule: rgb_phases.induct) (auto simp: Let_def split_beta)

text \<open>A round takes the time of its mode, lights its own pixel only, and ends as its mode says.\<close>

lemma rgb_round_keeps_others:
  "j \<noteq> rgb_task_pixel t \<Longrightarrow> snd (rgb_task_round t b leds pixels) ! j = pixels ! j"
  by (simp add: rgb_task_round_def rgb_phases_other)

lemma rgb_round_ends:
  assumes "leds ! rgb_task_pixel t \<noteq> LED_MODE_END" and "rgb_task_pixel t < length pixels"
  shows "snd (rgb_task_round t b leds pixels) ! rgb_task_pixel t =
    (if leds ! rgb_task_pixel t = LED_MODE_ON then rgb_task_color t b else off_color)"
  using assms
  by (cases "leds ! rgb_task_pixel t")
     (simp_all add: rgb_task_round_def led_round_def led_mode_timing_def Let_def)

text \<open>Both threads run the task of the first pixel: the pixel of the record LED never changes.\<close>

lemma rgb_started_tasks: "t \<in> set (rgb_led_threads n) \<Longrightarrow> t = rgb_leds_bt_task"
  by (auto simp: rgb_led_threads_def split: if_splits)

lemma rec_pixel_never_written:
  assumes "set ts \<subseteq> set (rgb_led_threads n)"
  shows "fold (\<lambda>(t, leds) pixels. snd (rgb_task_round t b leds pixels)) (zip ts ledss) pixels ! 1 = pixels ! 1"
  using assms
proof (induction ts arbitrary: ledss pixels)
  case Nil
  then show ?case by simp
next
  case (Cons t ts)
  have "t = rgb_leds_bt_task" using Cons.prems rgb_started_tasks [of t n] by simp
  then have "snd (rgb_task_round t b leds pixels) ! 1 = pixels ! 1" for leds pixels
    by (intro rgb_round_keeps_others) simp
  then show ?case using Cons.prems by (cases ledss) (simp_all add: Cons.IH [simplified])
qed

subsection \<open>Initialisation and the idle timer\<close>

definition gopro_leds_init :: "gopro_sys \<Rightarrow> gopro_sys" where
  "gopro_leds_init sys = gopro_led_mode_set LED_NUM_BT LED_MODE_BLINK_5S sys"

definition led_idle_timer_start :: "u8 \<Rightarrow> gopro_sys \<Rightarrow> gopro_sys" where
  "led_idle_timer_start enable sys =
     (if enable = 1 then sys\<lparr>sys_idle_timer := True\<rparr>
      else if enable = 0 then sys\<lparr>sys_idle_timer := False\<rparr>
      else sys)"

definition led_idle_handler :: "gopro_sys \<Rightarrow> gopro_sys option" where
  "led_idle_handler sys =
     (if gopro_client_get_state (sys_state sys) \<noteq> GP_STATE_UNKNOWN then do {
        let sys = gopro_led_mode_set LED_NUM_BT LED_MODE_BLINK_5S sys;
        let s = snd (gopro_client_set_sate GP_STATE_UNKNOWN (sys_state sys));
        (r, s) \<leftarrow> gopro_client_setname None 0 s;
        Some (sys\<lparr>sys_state := s\<rparr>)
      }
      else Some sys)"

text \<open>The timer fires only while it runs; its handler submits the idle work.\<close>

definition led_idle_timer_fire :: "gopro_sys \<Rightarrow> gopro_sys option" where
  "led_idle_timer_fire sys = (if sys_idle_timer sys then led_idle_handler sys else Some sys)"

lemma led_idle_handler_result:
  "led_idle_handler sys = Some (
    if gs_state (sys_state sys) = GP_STATE_UNKNOWN then sys
    else sys\<lparr>sys_leds := (sys_leds sys)[SIMPLE_LED_BT := LED_MODE_BLINK_5S],
             sys_state := (sys_state sys)\<lparr>gs_state := GP_STATE_UNKNOWN,
                                          gs_name := replicate 20 0\<rparr>\<rparr>)"
  by (simp add: led_idle_handler_def gopro_client_get_state_def set_sate_state setname_clear
      gopro_led_mode_set_def led_mode_set_bt)

end
