(* ===== verification/Status_Parse.thy ===== *)
theory Status_Parse
  imports Leds Channels
begin

section \<open>Camera status (\<^verbatim>\<open>gopro_packet.c\<close>)\<close>

text \<open>
  The parsers of the answer to a status query and of status notifications. \<open>b\<close> is the
  reassembled message, feature and action bytes included; a read past it is \<open>None\<close>.
\<close>

subsection \<open>The parsers\<close>

fun video_count_loop :: "bytes \<Rightarrow> nat \<Rightarrow> nat \<Rightarrow> u32 \<Rightarrow> u32 option" where
  "video_count_loop b p 0 v = Some v"
| "video_count_loop b p (Suc n) v = do {
     x \<leftarrow> rd b p;
     video_count_loop b (Suc p) n (v * 256 + ucast x)
   }"

text \<open>The common bodies of the three cases of both parsers.\<close>

definition set_video_count :: "u32 \<Rightarrow> gopro_sys \<Rightarrow> gopro_sys" where
  "set_video_count v = upd_state (gs_video_count_update (\<lambda>_. v))"

definition set_battery :: "u8 \<Rightarrow> gopro_sys \<Rightarrow> gopro_sys" where
  "set_battery x = upd_state (gs_battery_update (\<lambda>_. x))"

definition set_record :: "u8 \<Rightarrow> gopro_sys \<Rightarrow> gopro_sys" where
  "set_record x sys =
     (let sys = upd_state (gs_record_update (\<lambda>_. x)) sys in
      if 0 < gs_record (sys_state sys) then gopro_led_mode_set LED_NUM_REC LED_MODE_ON sys
      else gopro_led_mode_set LED_NUM_REC LED_MODE_OFF sys)"

definition gopro_parse_query_status_reply :: "bytes \<Rightarrow> u16 \<Rightarrow> gopro_sys \<Rightarrow> (cret \<times> gopro_sys) option" where
  "gopro_parse_query_status_reply b len sys = do {
     id \<leftarrow> rd b 0;
     result \<leftarrow> rd b 1;
     status_id \<leftarrow> rd b 2;
     status_len \<leftarrow> rd b 3;
     if status_id = GOPRO_STATUS_ID_VIDEO_NUM then do {
       v \<leftarrow> video_count_loop b 4 (unat status_len) 0;
       Some (OK, set_video_count v sys)
     }
     else if status_id = GOPRO_STATUS_ID_BAT_PERCENT then do {
       x \<leftarrow> rd b 4;
       Some (OK, set_battery x sys)
     }
     else if status_id = GOPRO_STATUS_ID_ENCODING then do {
       x \<leftarrow> rd b 4;
       Some (OK, set_record x sys)
     }
     else Some (OK, sys)
   }"

text \<open>\<open>left\<close> is the signed \<^verbatim>\<open>total_data_len\<close>, \<open>p\<close> the position of \<^verbatim>\<open>pdata\<close>.\<close>

function notify_loop :: "bytes \<Rightarrow> nat \<Rightarrow> int \<Rightarrow> gopro_sys \<Rightarrow> gopro_sys option" where
  "notify_loop b p left sys =
     (if 0 < left then do {
        id \<leftarrow> rd b p;
        id_len \<leftarrow> rd b (p + 1);
        if id = GOPRO_STATUS_ID_ENCODING then do {
          x \<leftarrow> rd b (p + 2);
          notify_loop b (p + 3) (left - 2 - 1) (set_record x sys)
        }
        else if id = GOPRO_STATUS_ID_VIDEO_NUM then do {
          v \<leftarrow> video_count_loop b (p + 2) (unat id_len) 0;
          notify_loop b (p + 2 + unat id_len) (left - 2 - int (unat id_len)) (set_video_count v sys)
        }
        else if id = GOPRO_STATUS_ID_BAT_PERCENT then do {
          x \<leftarrow> rd b (p + 2);
          notify_loop b (p + 3) (left - 2 - 1) (set_battery x sys)
        }
        else notify_loop b (p + 2 + unat id_len) (left - 2 - int (unat id_len)) sys
      }
      else Some sys)"
  by pat_completeness auto
termination
  by (relation "measure (\<lambda>(b, p, left, sys). nat left)")
     (auto intro!: less_le_trans [OF _ unsigned_greater_eq])

declare notify_loop.simps [simp del]

definition gopro_parse_query_status_notify :: "bytes \<Rightarrow> u16 \<Rightarrow> gopro_sys \<Rightarrow> (cret \<times> gopro_sys) option" where
  "gopro_parse_query_status_notify b len sys = do {
     id \<leftarrow> rd b 0;
     result \<leftarrow> rd b 1;
     if id \<noteq> GOPRO_QUERY_STATUS_REG_STATUS_NOTIFY \<and> id \<noteq> GOPRO_QUERY_STATUS_REG_STATUS
     then Some (Code (- 1), sys)
     else if result \<noteq> 0 then Some (Code (- 1), sys)
     else do {
       sys \<leftarrow> notify_loop b 2 (int (unat len) - 3) sys;
       Some (OK, sys)
     }
   }"

subsection \<open>Status items\<close>

text \<open>
  What the camera sends: a list of items, each an identifier, a length byte and the value.
  Recording state and battery have one-byte values.
\<close>

type_synonym status_item = "u8 \<times> bytes"

definition enc_item :: "status_item \<Rightarrow> bytes" where
  "enc_item it = fst it # of_nat (length (snd it)) # snd it"

definition enc_items :: "status_item list \<Rightarrow> bytes" where
  "enc_items its = concat (map enc_item its)"

definition wf_item :: "status_item \<Rightarrow> bool" where
  "wf_item it \<longleftrightarrow> length (snd it) < 256 \<and>
     (fst it \<in> {GOPRO_STATUS_ID_ENCODING, GOPRO_STATUS_ID_BAT_PERCENT} \<longrightarrow> length (snd it) = 1)"

text \<open>A byte string read as a big-endian number, modulo the width of the counter.\<close>

definition be_number :: "bytes \<Rightarrow> nat" where
  "be_number bs = foldl (\<lambda>v x. 256 * v + unat x) 0 bs"

definition apply_item :: "status_item \<Rightarrow> gopro_sys \<Rightarrow> gopro_sys" where
  "apply_item it =
     (if fst it = GOPRO_STATUS_ID_ENCODING then set_record (hd (snd it))
      else if fst it = GOPRO_STATUS_ID_VIDEO_NUM then set_video_count (of_nat (be_number (snd it)))
      else if fst it = GOPRO_STATUS_ID_BAT_PERCENT then set_battery (hd (snd it))
      else id)"

definition apply_items :: "status_item list \<Rightarrow> gopro_sys \<Rightarrow> gopro_sys" where
  "apply_items its sys = fold apply_item its sys"

lemma video_count_loop_spec:
  "p + n \<le> length b \<Longrightarrow>
   video_count_loop b p n v = Some (of_nat (foldl (\<lambda>v x. 256 * v + unat x) (unat v) (take n (drop p b))))"
proof (induction n arbitrary: p v)
  case 0
  show ?case by simp
next
  case (Suc n)
  let ?f = "\<lambda>v x. 256 * v + unat (x :: u8)"
  have d: "take (Suc n) (drop p b) = b ! p # take n (drop (Suc p) b)"
    using Suc.prems by (simp flip: Cons_nth_drop_Suc)
  have e: "v * 256 + ucast (b ! p) = of_nat (?f (unat v) (b ! p))"
    by (simp add: unat_u8_to_u32 [symmetric] del: unat_u8_to_u32)
  have fold_mod: "(of_nat (foldl ?f (unat (of_nat m :: u32)) bs) :: u32) = of_nat (foldl ?f m bs)" for m bs
  proof (induction bs rule: rev_induct)
    case (snoc x xs)
    then show ?case by simp
  qed simp
  have "video_count_loop b p (Suc n) v =
      Some (of_nat (foldl ?f (unat (v * 256 + ucast (b ! p))) (take n (drop (Suc p) b))))"
    using Suc by simp
  then show ?case by (simp only: d e fold_mod foldl_Cons)
qed

lemma video_count_item:
  "p + n \<le> length b \<Longrightarrow> video_count_loop b p n 0 = Some (of_nat (be_number (take n (drop p b))))"
  by (simp add: video_count_loop_spec be_number_def)

lemma video_count_loop_defined:
  "(\<exists>v. video_count_loop b p n w = Some v) \<longleftrightarrow> n = 0 \<or> p + n \<le> length b"
proof (induction n arbitrary: p w)
  case (Suc n)
  then show ?case by (cases "p < length b") (auto simp: Suc_le_eq)
qed simp

subsection \<open>Parsing what the camera sends\<close>

lemma notify_step:
  assumes "0 < left" and "rd b p = Some i" and "rd b (p + 1) = Some l"
  shows "notify_loop b p left sys =
    (if i = GOPRO_STATUS_ID_ENCODING then do {
       x \<leftarrow> rd b (p + 2); notify_loop b (p + 3) (left - 3) (set_record x sys) }
     else if i = GOPRO_STATUS_ID_VIDEO_NUM then do {
       v \<leftarrow> video_count_loop b (p + 2) (unat l) 0;
       notify_loop b (p + (2 + unat l)) (left - int (2 + unat l)) (set_video_count v sys) }
     else if i = GOPRO_STATUS_ID_BAT_PERCENT then do {
       x \<leftarrow> rd b (p + 2); notify_loop b (p + 3) (left - 3) (set_battery x sys) }
     else notify_loop b (p + (2 + unat l)) (left - int (2 + unat l)) sys)"
  using assms by (subst notify_loop.simps) (simp add: add.assoc diff_diff_eq)

lemma notify_item:
  assumes it: "wf_item it" and t: "0 < left"
  shows "notify_loop (pre @ enc_item it @ post) (length pre) left sys =
    notify_loop (pre @ enc_item it @ post) (length pre + length (enc_item it))
      (left - int (length (enc_item it))) (apply_item it sys)"
proof -
  define b where "b = pre @ enc_item it @ post"
  define p where "p = length pre"
  obtain i v where iv: "it = (i, v)" by force
  have u: "unat (of_nat (length v) :: u8) = length v"
    using it iv by (simp add: wf_item_def unat_of_nat)
  have r: "rd b p = Some i" "rd b (p + 1) = Some (of_nat (length v))"
    by (simp_all add: rd_def b_def p_def enc_item_def iv nth_append)
  have v0: "rd b (p + 2) = Some (hd v)" if "length v = 1"
    using that by (cases v) (simp_all add: rd_def b_def p_def enc_item_def iv nth_append)
  have bl: "length (enc_item it) = 2 + length v" by (simp add: enc_item_def iv)
  have vv: "video_count_loop b (p + 2) (length v) 0 = Some (of_nat (be_number v))"
    by (subst video_count_item) (simp_all add: b_def p_def enc_item_def iv)
  note step = notify_step [OF t r, of sys, unfolded u vv bind.simps]
  have one: "(2 :: nat) + 1 = 3" by simp
  show ?thesis
    unfolding b_def [symmetric] p_def [symmetric] bl
    using it unfolding iv step
    by (auto simp only: wf_item_def apply_item_def fst_conv snd_conv v0 one bind.simps
        if_True if_False simp_thms id_apply of_nat_numeral split: if_split)
qed

lemma enc_items_Cons [simp]: "enc_items (it # its) = enc_item it @ enc_items its"
  by (simp add: enc_items_def)

lemma enc_items_Nil [simp]: "enc_items [] = []"
  by (simp add: enc_items_def)

text \<open>
  The loop starts with one less than the number of bytes left, and every item has at
  least two bytes: it consumes exactly the items.
\<close>

lemma notify_items:
  "\<forall>it \<in> set its. wf_item it \<Longrightarrow>
   notify_loop (pre @ enc_items its) (length pre) (int (length (enc_items its)) - 1) sys =
   Some (apply_items its sys)"
proof (induction its arbitrary: pre sys)
  case Nil
  show ?case by (simp add: notify_loop.simps apply_items_def)
next
  case (Cons it its)
  have l: "2 \<le> length (enc_item it)" by (simp add: enc_item_def)
  have "notify_loop (pre @ enc_items (it # its)) (length pre)
          (int (length (enc_items (it # its))) - 1) sys =
        notify_loop ((pre @ enc_item it) @ enc_items its) (length (pre @ enc_item it))
          (int (length (enc_items its)) - 1) (apply_item it sys)"
    using Cons.prems l notify_item [of it "int (length (enc_items (it # its))) - 1" pre "enc_items its" sys]
    by (simp add: algebra_simps)
  also have "\<dots> = Some (apply_items its (apply_item it sys))"
    using Cons.prems by (intro Cons.IH) simp
  finally show ?case by (simp add: apply_items_def)
qed

lemma status_notify_items:
  assumes "\<forall>it \<in> set its. wf_item it" and "f \<in> {0x53, 0x93}"
    and "unat len = 2 + length (enc_items its)"
  shows "gopro_parse_query_status_notify ([f, 0] @ enc_items its) len sys = Some (OK, apply_items its sys)"
  using assms(2) notify_items [OF assms(1), of "[f, 0]" sys] assms(3)
  by (auto simp: gopro_parse_query_status_notify_def rd_def numeral_2_eq_2)

lemma status_reply_item:
  assumes it: "wf_item it"
  shows "gopro_parse_query_status_reply ([f, r] @ enc_item it @ rest) len sys = Some (OK, apply_item it sys)"
proof -
  define b where "b = [f, r] @ enc_item it @ rest"
  obtain i v where iv: "it = (i, v)" by force
  have u: "unat (of_nat (length v) :: u8) = length v"
    using it iv by (simp add: wf_item_def unat_of_nat)
  have r: "rd b 0 = Some f" "rd b 1 = Some r" "rd b 2 = Some i" "rd b 3 = Some (of_nat (length v))"
    by (simp_all add: rd_def b_def enc_item_def iv)
  have v0: "rd b 4 = Some (hd v)" if "length v = 1"
    using that by (cases v) (simp_all add: rd_def b_def enc_item_def iv)
  have vv: "video_count_loop b 4 (length v) 0 = Some (of_nat (be_number v))"
    by (subst video_count_item) (simp_all add: b_def enc_item_def iv)
  show ?thesis
    unfolding gopro_parse_query_status_reply_def b_def [symmetric]
    using it by (auto simp: r u v0 vv iv wf_item_def apply_item_def
        simp del: One_nat_def)
qed

subsection \<open>What the parsers leave alone\<close>

definition rec_led_ok :: "gopro_sys \<Rightarrow> bool" where
  "rec_led_ok sys \<longleftrightarrow>
     sys_leds sys ! SIMPLE_LED_REC = (if 0 < gs_record (sys_state sys) then LED_MODE_ON else LED_MODE_OFF)"

definition status_fields_cleared :: "gopro_state_t \<Rightarrow> gopro_state_t" where
  "status_fields_cleared s = s\<lparr>gs_video_count := 0, gs_record := 0, gs_battery := 0\<rparr>"

definition status_frame :: "gopro_sys \<Rightarrow> gopro_sys \<Rightarrow> bool" where
  "status_frame sys sys' \<longleftrightarrow>
     status_fields_cleared (sys_state sys') = status_fields_cleared (sys_state sys) \<and>
     sys_packet sys' = sys_packet sys \<and> sys_cmd_queue sys' = sys_cmd_queue sys \<and>
     sys_can_tx sys' = sys_can_tx sys \<and> sys_can_reply_sem sys' = sys_can_reply_sem sys \<and>
     sys_client sys' = sys_client sys \<and> sys_hw_sem sys' = sys_hw_sem sys \<and>
     sys_cert sys' = sys_cert sys \<and> sys_ap_list sys' = sys_ap_list sys \<and>
     sys_ap_index sys' = sys_ap_index sys \<and>
     (wf_leds (sys_leds sys) \<longrightarrow> wf_leds (sys_leds sys')) \<and>
     (wf_leds (sys_leds sys) \<longrightarrow> rec_led_ok sys \<longrightarrow> rec_led_ok sys')"

lemma status_frame_refl [simp]: "status_frame sys sys"
  by (simp add: status_frame_def)

lemma status_frame_trans: "status_frame a b \<Longrightarrow> status_frame b c \<Longrightarrow> status_frame a c"
  by (simp add: status_frame_def)

lemma set_record_result:
  "set_record x sys =
     gopro_led_mode_set LED_NUM_REC (if 0 < x then LED_MODE_ON else LED_MODE_OFF)
       (upd_state (gs_record_update (\<lambda>_. x)) sys)"
  by (simp add: set_record_def)

lemma rec_led_after_set: "length (sys_leds sys) = 3 \<Longrightarrow> rec_led_ok (set_record x sys)"
  by (simp add: rec_led_ok_def set_record_result gopro_led_mode_set_def led_mode_set_rec)

lemma status_frame_video: "status_frame sys (set_video_count v sys)"
  by (simp add: status_frame_def set_video_count_def status_fields_cleared_def rec_led_ok_def)

lemma status_frame_conn: "status_frame sys sys' \<Longrightarrow> gs_state (sys_state sys') = gs_state (sys_state sys)"
  by (drule status_frame_def [THEN iffD1, THEN conjunct1], drule arg_cong [where f = gs_state])
     (simp add: status_fields_cleared_def)

lemma status_frame_battery: "status_frame sys (set_battery x sys)"
  by (simp add: status_frame_def set_battery_def status_fields_cleared_def rec_led_ok_def)

lemma status_frame_record: "status_frame sys (set_record r sys)"
proof -
  have "wf_leds (sys_leds sys) \<Longrightarrow> wf_leds (sys_leds (set_record r sys))"
    by (simp add: set_record_result gopro_led_mode_set_def led_mode_set_wf)
  moreover have "wf_leds (sys_leds sys) \<Longrightarrow> rec_led_ok (set_record r sys)"
    by (rule rec_led_after_set) (simp add: wf_leds_def)
  ultimately show ?thesis
    by (simp add: status_frame_def set_record_result gp_simps status_fields_cleared_def)
qed

lemmas status_frames = status_frame_video status_frame_battery status_frame_record

lemma apply_item_frame: "status_frame sys (apply_item it sys)"
  by (simp add: apply_item_def status_frames)

lemma notify_loop_frame: "notify_loop b p left sys = Some sys' \<Longrightarrow> status_frame sys sys'"
proof (induction b p left sys rule: notify_loop.induct)
  case (1 b p left sys)
  note IH = "1.IH"
  show ?case
  proof (cases "0 < left")
    case False
    with "1.prems" show ?thesis by (simp add: notify_loop.simps)
  next
    case True
    then obtain i l where il: "rd b p = Some i" "rd b (p + 1) = Some l"
      using "1.prems" by (auto simp: notify_loop.simps [of b p left] bind_eq_Some_conv)
    note res = "1.prems" [unfolded notify_loop.simps [of b p left]]
    consider "i = 10" | "i = 39" | "i = 70" | "i \<noteq> 10" "i \<noteq> 39" "i \<noteq> 70" by blast
    then show ?thesis
    proof cases
      case 1
      then obtain x where "rd b (p + 2) = Some x" using res True il by (auto simp: bind_eq_Some_conv)
      with 1 res True il IH(1) [of i l x] show ?thesis
        by (auto intro: status_frame_trans [OF status_frame_record])
    next
      case 2
      then obtain x where "video_count_loop b (p + 2) (unat l) 0 = Some x"
        using res True il by (auto simp: bind_eq_Some_conv)
      with 2 res True il IH(2) [of i l x] show ?thesis
        by (auto intro: status_frame_trans [OF status_frame_video])
    next
      case 3
      then obtain x where "rd b (p + 2) = Some x" using res True il by (auto simp: bind_eq_Some_conv)
      with 3 res True il IH(3) [of i l x] show ?thesis
        by (auto intro: status_frame_trans [OF status_frame_battery])
    next
      case 4
      with res True il IH(4) [of i l] show ?thesis by auto
    qed
  qed
qed

lemma status_notify_frame:
  "gopro_parse_query_status_notify b len sys = Some (r, sys') \<Longrightarrow> status_frame sys sys'"
  by (auto simp: gopro_parse_query_status_notify_def bind_eq_Some_conv notify_loop_frame
      split: if_split_asm)

lemma status_reply_frame:
  "gopro_parse_query_status_reply b len sys = Some (r, sys') \<Longrightarrow> status_frame sys sys'"
  by (auto simp: gopro_parse_query_status_reply_def bind_eq_Some_conv status_frames
      split: if_split_asm)

lemma status_frame_wf [wf_intros]:
  assumes "status_frame sys sys'" and "wf_state (sys_state sys)"
  shows "wf_state (sys_state sys')"
proof -
  have w: "wf_state s \<longleftrightarrow> wf_state (status_fields_cleared s)" for s
    by (simp add: wf_state_def status_fields_cleared_def)
  show ?thesis using assms by (subst w) (simp add: status_frame_def w [symmetric])
qed

end
