(* ===== verification/Names.thy ===== *)
theory Names
  imports Channels "HOL-Library.Char_ord"
begin

section \<open>Names of the protocol's enumerators (\<^verbatim>\<open>gopro_protobuf.c\<close>)\<close>

text \<open>
  The tables of names the log messages use and the functions that index them. The
  enumerators are the numbers of the \<^verbatim>\<open>.proto\<close> files.
\<close>

definition pb_enum_result :: "string list" where
  "pb_enum_result =
     [''(0)RESULT_UNKNOWN'', ''(1)RESULT_SUCCESS'', ''(2)RESULT_ILL_FORMED'',
      ''(3)RESULT_NOT_SUPPORTED'', ''(4)RESULT_ARGUMENT_OUT_OF_BOUNDS'',
      ''(5)RESULT_ARGUMENT_INVALID'', ''(6)RESULT_RESOURCE_NOT_AVAILABLE'', ''ERROR_INDEX'']"

definition pb_enum_state :: "string list" where
  "pb_enum_state =
     [''(0)SCANNING_UNKNOWN '', ''(1)SCANNING_NEVER_STARTED'', ''(2)SCANNING_STARTED'',
      ''(3)SCANNING_ABORTED_BY_SYSTEM'', ''(4)SCANNING_CANCELLED_BY_USER'',
      ''(5)SCANNING_SUCCESS'', ''ERROR_INDEX'']"

definition pb_enum_prov_state :: "string list" where
  "pb_enum_prov_state =
     [''(0)PROVISIONING_UNKNOWN'', ''(1)PROVISIONING_NEVER_STARTED'', ''(2)PROVISIONING_STARTED'',
      ''(3)PROVISIONING_ABORTED_BY_SYSTEM'', ''(4)PROVISIONING_CANCELLED_BY_USER'',
      ''(5)PROVISIONING_SUCCESS_NEW_AP'', ''(6)PROVISIONING_SUCCESS_OLD_AP'',
      ''(7)PROVISIONING_ERROR_FAILED_TO_ASSOCIATE'', ''(8)PROVISIONING_ERROR_PASSWORD_AUTH'',
      ''(9)PROVISIONING_ERROR_EULA_BLOCKING'', ''(10)PROVISIONING_ERROR_NO_INTERNET '',
      ''(11)PROVISIONING_ERROR_UNSUPPORTED_TYPE'', ''ERROR_INDEX'']"

definition pb_enum_cohn_status :: "string list" where
  "pb_enum_cohn_status = [''(0)COHN_UNPROVISIONED'', ''(1)COHN_PROVISIONED'', ''ERROR_INDEX'']"

definition pb_enum_cohn_netstate :: "string list" where
  "pb_enum_cohn_netstate =
     [''(0)COHN_STATE_Init'', ''(1)COHN_STATE_Error'', ''(2)COHN_STATE_Exit'',
      ''(5)COHN_STATE_Idle'', ''(27)COHN_STATE_NetworkConnected'',
      ''(28)COHN_STATE_NetworkDisconnected'', ''(29)COHN_STATE_ConnectingToNetwork'',
      ''(30)COHN_STATE_Invalid'', ''ERROR_INDEX'']"

definition gopro_pb_result :: "int \<Rightarrow> string" where
  "gopro_pb_result state =
     (if 0 \<le> state \<and> state < 8 then pb_enum_result ! nat state else pb_enum_result ! 7)"

definition gopro_pb_state :: "int \<Rightarrow> string" where
  "gopro_pb_state state =
     (if 0 \<le> state \<and> state < 7 then pb_enum_state ! nat state else pb_enum_state ! 6)"

definition gopro_pb_provstate :: "int \<Rightarrow> string" where
  "gopro_pb_provstate state =
     (if 0 \<le> state \<and> state < 12 then pb_enum_prov_state ! nat state else pb_enum_prov_state ! 6)"

definition gopro_pb_cohn_status :: "int \<Rightarrow> string" where
  "gopro_pb_cohn_status state =
     (if 0 \<le> state \<and> state < 2 then pb_enum_cohn_status ! nat state else pb_enum_cohn_status ! 2)"

definition gopro_pb_cohn_state :: "int \<Rightarrow> string" where
  "gopro_pb_cohn_state state =
     (if state = 0 then pb_enum_cohn_netstate ! 0
      else if state = 1 then pb_enum_cohn_netstate ! 1
      else if state = 2 then pb_enum_cohn_netstate ! 2
      else if state = 5 then pb_enum_cohn_netstate ! 3
      else if state = 27 then pb_enum_cohn_netstate ! 4
      else if state = 28 then pb_enum_cohn_netstate ! 5
      else if state = 29 then pb_enum_cohn_netstate ! 6
      else if state = 30 then pb_enum_cohn_netstate ! 7
      else pb_enum_cohn_netstate ! 8)"

text \<open>
  A name starts with its enumerator in parentheses; the number a name carries.
\<close>

fun read_digits :: "string \<Rightarrow> nat \<Rightarrow> nat" where
  "read_digits (c # cs) acc =
     (if CHR ''0'' \<le> c \<and> c \<le> CHR ''9'' then read_digits cs (10 * acc + (of_char c - 48)) else acc)"
| "read_digits [] acc = acc"

definition name_number :: "string \<Rightarrow> nat option" where
  "name_number s = (case s of c # cs \<Rightarrow> if c = CHR ''('' then Some (read_digits cs 0) else None | [] \<Rightarrow> None)"

definition name_table_ok :: "(int \<Rightarrow> string) \<Rightarrow> int list \<Rightarrow> bool" where
  "name_table_ok f ns \<longleftrightarrow> list_all (\<lambda>n. name_number (f n) = Some (nat n)) ns"

lemma name_tables:
  "name_table_ok gopro_pb_result [0 .. 6]" "name_table_ok gopro_pb_state [0 .. 5]"
  "name_table_ok gopro_pb_provstate [0 .. 11]" "name_table_ok gopro_pb_cohn_status [0 .. 1]"
  "name_table_ok gopro_pb_cohn_state [0, 1, 2, 5, 27, 28, 29, 30]"
  by code_simp+

lemma name_unknown:
  "n < 0 \<or> 6 < n \<Longrightarrow> gopro_pb_result n = ''ERROR_INDEX''"
  "n < 0 \<or> 5 < n \<Longrightarrow> gopro_pb_state n = ''ERROR_INDEX''"
  "n < 0 \<or> 1 < n \<Longrightarrow> gopro_pb_cohn_status n = ''ERROR_INDEX''"
  "n \<notin> {0, 1, 2, 5, 27, 28, 29, 30} \<Longrightarrow> gopro_pb_cohn_state n = ''ERROR_INDEX''"
proof -
  show "n < 0 \<or> 6 < n \<Longrightarrow> gopro_pb_result n = ''ERROR_INDEX''"
    by (cases "n = 7") (auto simp: gopro_pb_result_def pb_enum_result_def)
  show "n < 0 \<or> 5 < n \<Longrightarrow> gopro_pb_state n = ''ERROR_INDEX''"
    by (cases "n = 6") (auto simp: gopro_pb_state_def pb_enum_state_def)
  show "n < 0 \<or> 1 < n \<Longrightarrow> gopro_pb_cohn_status n = ''ERROR_INDEX''"
    by (auto simp: gopro_pb_cohn_status_def pb_enum_cohn_status_def)
  show "n \<notin> {0, 1, 2, 5, 27, 28, 29, 30} \<Longrightarrow> gopro_pb_cohn_state n = ''ERROR_INDEX''"
    by (simp add: gopro_pb_cohn_state_def pb_enum_cohn_netstate_def)
qed

text \<open>
  The provisioning table has thirteen entries and the function answers an unknown number
  with the seventh, which is the name of a success.
\<close>

lemma provstate_unknown:
  "n < 0 \<or> 11 < n \<Longrightarrow> gopro_pb_provstate n = ''(6)PROVISIONING_SUCCESS_OLD_AP''"
  by (auto simp: gopro_pb_provstate_def pb_enum_prov_state_def)

end
