(* ===== verification/Protobuf.thy ===== *)
theory Protobuf
  imports Segmentation Status_Parse Names
begin

section \<open>Protobuf messages (\<^verbatim>\<open>gopro_protobuf.c\<close>)\<close>

text \<open>
  The callbacks the decoder calls for variable-length fields, the parsers of the camera's
  messages and the requests built in answer to them (the access-point list is in the next theory). A pointer and
  a length in the C code are one byte list here. \<open>stk\<close> is the uninitialised local frame of
  the functions that send.

  \<^verbatim>\<open>pb_read\<close> from a memory stream fails only when asked for more than the stream holds; the
  callbacks ask for what is left, so it succeeds.
\<close>

subsection \<open>Callbacks for byte strings\<close>

record data_ptr_t =
  dp_size :: nat
  dp_data :: bytes

definition pb_decode_bytes :: "bytes \<Rightarrow> data_ptr_t \<Rightarrow> (bool \<times> data_ptr_t) option" where
  "pb_decode_bytes sub d =
     (if dp_size d < length sub then Some (False, d\<lparr>dp_size := 0\<rparr>)
      else do {
        b \<leftarrow> wr_block (dp_data d) 0 sub;
        Some (True, \<lparr>dp_size = length sub, dp_data = b\<rparr>)
      })"

definition wf_data_ptr :: "data_ptr_t \<Rightarrow> bool" where
  "wf_data_ptr d \<longleftrightarrow> dp_size d \<le> length (dp_data d)"

definition log_msg :: "string list \<Rightarrow> gopro_sys \<Rightarrow> gopro_sys" where
  "log_msg ms sys = sys\<lparr>sys_log := sys_log sys @ ms\<rparr>"

lemma log_msg_sel [simp]:
  "sys_state (log_msg m sys) = sys_state sys"
  "sys_client (log_msg m sys) = sys_client sys"
  "sys_packet (log_msg m sys) = sys_packet sys"
  "sys_leds (log_msg m sys) = sys_leds sys"
  "sys_hw_sem (log_msg m sys) = sys_hw_sem sys"
  "sys_cert (log_msg m sys) = sys_cert sys"
  "sys_ap_list (log_msg m sys) = sys_ap_list sys"
  "sys_ap_index (log_msg m sys) = sys_ap_index sys"
  "sys_can_reply_sem (log_msg m sys) = sys_can_reply_sem sys"
  "sys_can_tx (log_msg m sys) = sys_can_tx sys"
  "sys_cmd_queue (log_msg m sys) = sys_cmd_queue sys"
  by (simp_all add: log_msg_def)

text \<open>The local buffer has 64 bytes and one is for the terminator.\<close>

definition read_str_callback :: "bytes \<Rightarrow> gopro_sys \<Rightarrow> (bool \<times> gopro_sys) option" where
  "read_str_callback sub sys = (if 64 \<le> length sub then Some (False, sys) else Some (True, sys))"

lemma pb_decode_bytes_wf:
  "wf_data_ptr d \<Longrightarrow> \<exists>ok d'. pb_decode_bytes sub d = Some (ok, d') \<and> wf_data_ptr d' \<and>
     length (dp_data d') = length (dp_data d) \<and> dp_size d' \<le> dp_size d"
  by (auto simp: pb_decode_bytes_def wf_data_ptr_def)

lemma pb_decode_bytes_ok:
  "wf_data_ptr d \<Longrightarrow> length sub \<le> dp_size d \<Longrightarrow>
   pb_decode_bytes sub d =
     Some (True, \<lparr>dp_size = length sub, dp_data = sub @ drop (length sub) (dp_data d)\<rparr>)"
  by (simp add: pb_decode_bytes_def wf_data_ptr_def)

text \<open>
  The callback for the encoder. \<open>tag_for_field\<close> and \<open>encode_string\<close> are nanopb's
  \<^verbatim>\<open>pb_encode_tag_for_field\<close> and \<^verbatim>\<open>pb_encode_string\<close> on its output stream, whatever that is.
\<close>

definition pb_encode_bytes ::
    "('o \<Rightarrow> bool \<times> 'o) \<Rightarrow> (bytes \<Rightarrow> 'o \<Rightarrow> bool \<times> 'o) \<Rightarrow> data_ptr_t \<Rightarrow> 'o \<Rightarrow> (bool \<times> 'o) option" where
  "pb_encode_bytes tag_for_field encode_string d stream =
     (case tag_for_field stream of (tagged, stream) \<Rightarrow>
        if \<not> tagged then Some (False, stream)
        else do {
          b \<leftarrow> rd_block (dp_data d) 0 (dp_size d);
          Some (encode_string b stream)
        })"

text \<open>The string that is written is the one a decoder with room for it stores.\<close>

lemma pb_bytes_roundtrip:
  assumes "wf_data_ptr d" and "wf_data_ptr t" and "dp_size d \<le> dp_size t"
    and "tag_for_field stream = (True, stream')"
  shows "\<exists>b. pb_encode_bytes tag_for_field encode_string d stream = Some (encode_string b stream') \<and>
    pb_decode_bytes b t =
      Some (True, \<lparr>dp_size = dp_size d, dp_data = take (dp_size d) (dp_data d) @ drop (dp_size d) (dp_data t)\<rparr>)"
  using assms
  by (intro exI [of _ "take (dp_size d) (dp_data d)"])
     (auto simp: pb_encode_bytes_def pb_decode_bytes_ok wf_data_ptr_def min_absorb2)

subsection \<open>Requests\<close>

definition pairing_str :: bytes where
  "pairing_str = [0x6E, 0x72, 0x66, 0x35, 0x32]"

text \<open>
  The encoders write to \<^verbatim>\<open>work_buff\<close>; the code sends what was written without looking at
  the result of the encoding.
\<close>

definition gopro_prepare_finish_pairing :: "gopro_env \<Rightarrow> bytes" where
  "gopro_prepare_finish_pairing env = snd (enc_pairing_finish env pairing_str WORK_BUFF_SIZE)"

definition gopro_prepare_connect_new :: "gopro_env \<Rightarrow> gopro_sys \<Rightarrow> bytes option" where
  "gopro_prepare_connect_new env sys = do {
     n \<leftarrow> c_strlen (gs_cohn_ssid (sys_state sys));
     m \<leftarrow> c_strlen (gs_cohn_pass (sys_state sys));
     Some (snd (enc_connect_new env (take n (gs_cohn_ssid (sys_state sys)))
                  (take m (gs_cohn_pass (sys_state sys))) WORK_BUFF_SIZE))
   }"

definition gopro_prepare_connect_saved :: "gopro_env \<Rightarrow> gopro_sys \<Rightarrow> bytes option" where
  "gopro_prepare_connect_saved env sys = do {
     n \<leftarrow> c_strlen (gs_cohn_ssid (sys_state sys));
     Some (snd (enc_connect env (take n (gs_cohn_ssid (sys_state sys))) WORK_BUFF_SIZE))
   }"

definition send_request ::
    "gopro_env \<Rightarrow> bytes \<Rightarrow> bytes \<Rightarrow> u8 \<Rightarrow> u8 \<Rightarrow> gopro_sys \<Rightarrow> gopro_sys option" where
  "send_request env stk msg feature action sys =
     gopro_send_big_data env stk msg (of_nat (length msg)) (ucast GP_CNTRL_HANDLE_NET) feature action sys"

definition gopro_finish_pairing :: "gopro_env \<Rightarrow> bytes \<Rightarrow> gopro_sys \<Rightarrow> (cret \<times> gopro_sys) option" where
  "gopro_finish_pairing env stk sys = do {
     sys \<leftarrow> send_request env stk (gopro_prepare_finish_pairing env) 0x03 0x01 sys;
     Some (OK, sys)
   }"

definition gopro_pb_req_ap ::
    "gopro_env \<Rightarrow> bytes \<Rightarrow> u8 \<Rightarrow> u8 \<Rightarrow> u8 \<Rightarrow> gopro_sys \<Rightarrow> (cret \<times> gopro_sys) option" where
  "gopro_pb_req_ap env stk scan_id start_index count sys =
     (case enc_get_ap env 0 (uint count) (uint scan_id) (GOPRO_CMD_DATA_LEN - 3) of
        (ok, out) \<Rightarrow> do {
          buf \<leftarrow> wr_block (stk[0 := 0, 1 := 0x02, 2 := 0x03]) 3 out;
          if \<not> ok then Some (Code (- 1), sys)
          else do {
            let n = (of_nat (length out) + 2 :: u8);
            let c = \<lparr>cmd_len = ucast n + 1, cmd_type = GP_CNTRL_HANDLE_NET, cmd_data = buf[0 := n]\<rparr>;
            let (err, sys') = cmd_chan_pub env c sys;
            if err \<noteq> OK then Some (Code (- 1), sys') else Some (OK, sys')
          }
        })"

subsection \<open>Messages that are only logged, and the start of scanning\<close>

definition gopro_parse_response_cohn_status ::
    "gopro_env \<Rightarrow> bytes \<Rightarrow> gopro_sys \<Rightarrow> gopro_sys option" where
  "gopro_parse_response_cohn_status env inp sys = do {
     let r = dec_cohn_status env inp;
     (ok, sys) \<leftarrow> pb_decode_cb r (\<lambda>tag sub. read_str_callback sub) sys;
     if \<not> ok then Some sys
     else Some (log_msg
       ((if cs_has_state (pb_fields r) then [gopro_pb_cohn_state (cs_state (pb_fields r))] else []) @
        (if cs_has_status (pb_fields r) then [gopro_pb_cohn_status (cs_status (pb_fields r))] else [])) sys)
   }"

definition gopro_parse_response_cohn_cert ::
    "gopro_env \<Rightarrow> bytes \<Rightarrow> gopro_sys \<Rightarrow> gopro_sys option" where
  "gopro_parse_response_cohn_cert env inp sys =
     (case (case sys_cert sys of
              None \<Rightarrow> env_alloc env Alloc_Cert CERT_BUFF_SIZE
            | Some b \<Rightarrow> Some (replicate CERT_BUFF_SIZE 0)) of
        None \<Rightarrow> Some sys
      | Some cert_buff \<Rightarrow> do {
          let r = dec_cohn_cert env inp;
          (ok, d) \<leftarrow> pb_decode_cb r (\<lambda>tag sub. pb_decode_bytes sub)
                      \<lparr>dp_size = CERT_BUFF_SIZE, dp_data = cert_buff\<rparr>;
          let sys = sys\<lparr>sys_cert := Some (dp_data d)\<rparr>;
          if \<not> ok then Some sys
          else Some (if cc_has_result (pb_fields r)
                     then log_msg [gopro_pb_result (cc_result (pb_fields r))] sys else sys)
        })"

definition gopro_parse_resp_connect_new :: "gopro_env \<Rightarrow> bytes \<Rightarrow> gopro_sys \<Rightarrow> gopro_sys" where
  "gopro_parse_resp_connect_new env inp sys =
     (case dec_connect_new env inp of (ok, result, state) \<Rightarrow>
        if \<not> ok then sys else log_msg [gopro_pb_result result, gopro_pb_provstate state] sys)"

definition gopro_parse_resp_connect :: "gopro_env \<Rightarrow> bytes \<Rightarrow> gopro_sys \<Rightarrow> gopro_sys" where
  "gopro_parse_resp_connect env inp sys =
     (case dec_connect env inp of (ok, result, state) \<Rightarrow>
        if \<not> ok then sys else log_msg [gopro_pb_result result, gopro_pb_provstate state] sys)"

definition gopro_parse_notif_prov_state :: "gopro_env \<Rightarrow> bytes \<Rightarrow> gopro_sys \<Rightarrow> gopro_sys" where
  "gopro_parse_notif_prov_state env inp sys =
     (case dec_prov_state env inp of (ok, state) \<Rightarrow>
        if \<not> ok then sys else log_msg [gopro_pb_provstate state] sys)"

definition gopro_parse_request_scan_req :: "gopro_env \<Rightarrow> bytes \<Rightarrow> gopro_sys \<Rightarrow> gopro_sys" where
  "gopro_parse_request_scan_req env inp sys =
     (case dec_scan_req env inp of (ok, result, state) \<Rightarrow>
        if \<not> ok then sys else log_msg [gopro_pb_result result, gopro_pb_state state] sys)"

definition gopro_parse_response_generic :: "gopro_env \<Rightarrow> bytes \<Rightarrow> gopro_sys \<Rightarrow> gopro_sys" where
  "gopro_parse_response_generic env inp sys =
     (case dec_generic env inp of (ok, result) \<Rightarrow>
        if \<not> ok then sys else log_msg [gopro_pb_result result] sys)"

text \<open>The state is looked at whether or not the decoding succeeded.\<close>

abbreviation (input) SCANNING_SUCCESS :: int where "SCANNING_SUCCESS \<equiv> 5"

definition gopro_parse_start_scaning ::
    "gopro_env \<Rightarrow> bytes \<Rightarrow> bytes \<Rightarrow> gopro_sys \<Rightarrow> gopro_sys option" where
  "gopro_parse_start_scaning env stk inp sys =
     (case dec_start_scanning env inp of (ok, m) \<Rightarrow>
        let sys = (if \<not> ok then sys else log_msg [gopro_pb_state (ss_state m)] sys) in
        if ss_state m = SCANNING_SUCCESS then do {
          (r, sys) \<leftarrow> gopro_pb_req_ap env stk (word_of_int (ss_scan_id m)) 0
                        (word_of_int (ss_total m)) sys;
          Some sys
        }
        else Some sys)"

subsection \<open>Every handler keeps the declared sizes\<close>

definition cert_ok :: "bytes option \<Rightarrow> bool" where
  "cert_ok c = (case c of None \<Rightarrow> True | Some b \<Rightarrow> length b = CERT_BUFF_SIZE)"

definition wf_sys :: "gopro_sys \<Rightarrow> bool" where
  "wf_sys sys \<longleftrightarrow>
     wf_state (sys_state sys) \<and> wf_leds (sys_leds sys) \<and> wf_ap_list (sys_ap_list sys) \<and>
     sys_ap_index sys < MAX_AP_LIST_COUNT \<and>
     cert_ok (sys_cert sys) \<and>
     sys_hw_sem sys \<le> 1 \<and> sys_can_reply_sem sys \<le> 1 \<and> list_all wf_cmd (sys_cmd_queue sys)"

lemma wf_sys_upd_state:
  "wf_sys sys \<Longrightarrow> wf_state (f (sys_state sys)) \<Longrightarrow> wf_sys (upd_state f sys)"
  by (simp add: wf_sys_def)

text \<open>
  Commands are only appended to those that wait: commands for the firmware itself, and others
  only while a camera is connected.
\<close>

definition pending_from :: "gopro_sys \<Rightarrow> gopro_sys \<Rightarrow> bool" where
  "pending_from sys sys' \<longleftrightarrow>
     (\<exists>cs. sys_cmd_queue sys' = sys_cmd_queue sys @ cs \<and>
        (\<forall>c \<in> set cs. cmd_type c = 0xFF \<or> gs_state (sys_state sys) = GP_STATE_CONNECTED))"

lemma pending_same [simp]: "sys_cmd_queue sys' = sys_cmd_queue sys \<Longrightarrow> pending_from sys sys'"
  by (simp add: pending_from_def)

lemma pending_trans:
  "pending_from a b \<Longrightarrow> pending_from b c \<Longrightarrow>
   (gs_state (sys_state b) = GP_STATE_CONNECTED \<longrightarrow> gs_state (sys_state a) = GP_STATE_CONNECTED) \<Longrightarrow>
   pending_from a c"
  by (fastforce simp: pending_from_def)

lemma pending_pub: "pending_from sys (snd (cmd_chan_pub env c sys))"
  by (auto simp: pending_from_def cmd_chan_pub_def gopro_cmd_validator_def gopro_client_get_state_def)

text \<open>The slot for a reply to the bus, free or taken by a reply that waits.\<close>

abbreviation (input) reply_slots :: "gopro_sys \<Rightarrow> nat" where
  "reply_slots sys \<equiv> sys_can_reply_sem sys + length (sys_can_tx sys)"

text \<open>
  A message handler leaves the client and the reassembly buffer alone, keeps
  well-formedness, lets commands in only for a connected camera and makes no reply slot.
\<close>

definition handler_ok :: "gopro_sys \<Rightarrow> gopro_sys \<Rightarrow> bool" where
  "handler_ok sys sys' \<longleftrightarrow>
     sys_packet sys' = sys_packet sys \<and> sys_client sys' = sys_client sys \<and>
     gs_state (sys_state sys') = gs_state (sys_state sys) \<and>
     (wf_sys sys \<longrightarrow> wf_sys sys') \<and> pending_from sys sys' \<and> reply_slots sys' \<le> reply_slots sys"

lemma handler_ok_refl [simp, wf_intros]: "handler_ok sys sys"
  by (simp add: handler_ok_def)

lemma handler_ok_trans: "handler_ok a b \<Longrightarrow> handler_ok b c \<Longrightarrow> handler_ok a c"
  using pending_trans [of a b c] by (simp add: handler_ok_def)

lemma handler_ok_log [simp, wf_intros]: "handler_ok sys (log_msg m sys)"
  by (simp add: handler_ok_def wf_sys_def)

lemma handler_ok_log_then: "handler_ok (log_msg m sys) sys' \<Longrightarrow> handler_ok sys sys'"
  using handler_ok_log handler_ok_trans by blast

lemma handler_ok_status: "status_frame sys sys' \<Longrightarrow> handler_ok sys sys'"
  unfolding handler_ok_def wf_sys_def
  using status_frame_wf [of sys sys'] status_frame_conn [of sys sys'] by (simp add: status_frame_def)

lemma handler_ok_pub:
  assumes "wf_cmd c"
  shows "handler_ok sys (snd (cmd_chan_pub env c sys))"
  using assms cmd_chan.pub_queue [of env c sys] pending_pub [of sys env c]
  by (simp add: handler_ok_def wf_sys_def gp_simps)

lemma handler_ok_pub_all:
  assumes "list_all wf_cmd cs"
  shows "handler_ok sys (pub_all (cmd_chan_pub env) cs sys)"
  using assms
  by (induction cs arbitrary: sys) (auto intro: handler_ok_trans handler_ok_pub)

lemma big_data_frames_wf:
  assumes "big_data_frames stk data len ty feat act = Some fs" and "length stk = 20"
  shows "list_all wf_cmd fs \<and> (\<forall>f \<in> set fs. unat (cmd_len f) \<le> 20)"
proof -
  consider "unat len \<le> 17" | "17 < unat len" "unat len < 8191" | "8191 \<le> unat len" by linarith
  then show ?thesis
  proof cases
    case 1
    then have "len \<le> 20 - 3" by (simp add: word_le_nat_alt)
    with assms have "unat len \<le> length data"
      by (auto simp: big_data_frames_def bind_eq_Some_conv dest: rd_blockD)
    from big_data_short [OF 1 this assms(2), of ty feat act] assms 1 show ?thesis by auto
  next
    case 2
    then have c: "\<not> len \<le> 20 - 3" "len < 8191" by (simp_all add: word_le_nat_alt word_less_nat_alt)
    have u: "unat (len - 16) = unat len - 16"
      using 2 by (intro unat_sub [of 16 len, simplified]) (simp add: word_le_nat_alt)
    have "unat len \<le> length data"
    proof (rule ccontr)
      assume n: "\<not> unat len \<le> length data"
      then have "cont_frames data 16 (unat (len - 16)) k t b = None" for k t b
        using 2 u by (intro cont_frames_None) simp_all
      with assms(1) c show False by (simp add: big_data_frames_def bind_eq_Some_conv)
    qed
    from big_data_long [OF 2 this, of stk ty feat act] assms(1) show ?thesis
      by (auto simp: cont_frame_def list_all_iff)
  next
    case 3
    then have "\<not> len \<le> 20 - 3" "\<not> len < 8191" by (simp_all add: word_le_nat_alt word_less_nat_alt)
    with assms show ?thesis by (simp add: big_data_frames_def)
  qed
qed

lemma handler_ok_send_request:
  "length stk = 20 \<Longrightarrow> send_request env stk msg f a sys = Some sys' \<Longrightarrow> handler_ok sys sys'"
  by (auto simp: send_request_def gopro_send_big_data_def bind_eq_Some_conv
      dest: big_data_frames_wf intro: handler_ok_pub_all)

lemma handler_ok_finish_pairing:
  "length stk = 20 \<Longrightarrow> gopro_finish_pairing env stk sys = Some (r, sys') \<Longrightarrow> handler_ok sys sys'"
  by (auto simp: gopro_finish_pairing_def bind_eq_Some_conv handler_ok_send_request)

lemma handler_ok_req_ap:
  assumes "length stk = 20" and "gopro_pb_req_ap env stk i k n sys = Some (r, sys')"
  shows "handler_ok sys sys'"
proof (cases "enc_get_ap env 0 (uint n) (uint i) (GOPRO_CMD_DATA_LEN - 3)")
  case (Pair ok out)
  with assms(2) obtain buf where b: "wr_block (stk[0 := 0, 1 := 0x02, 2 := 0x03]) 3 out = Some buf"
    by (auto simp: gopro_pb_req_ap_def bind_eq_Some_conv)
  then have l: "length buf = 20" using assms(1) by (auto dest: length_wr_block)
  show ?thesis
    using assms(2) b Pair l
      handler_ok_pub [of "\<lparr>cmd_len = ucast (of_nat (length out) + 2 :: u8) + 1, cmd_type = 3,
        cmd_data = buf[0 := of_nat (length out) + 2]\<rparr>" sys env]
    by (auto simp: gopro_pb_req_ap_def wf_cmd_def Let_def split: prod.splits if_split_asm)
qed

lemma handler_ok_start_scaning:
  assumes "length stk = 20" and "gopro_parse_start_scaning env stk inp sys = Some sys'"
  shows "handler_ok sys sys'"
proof (cases "dec_start_scanning env inp")
  case (Pair ok m)
  with assms(2) show ?thesis
    by (auto simp: gopro_parse_start_scaning_def Let_def bind_eq_Some_conv split: if_split_asm
        dest!: handler_ok_req_ap [OF assms(1)] intro: handler_ok_log_then)
qed

lemma handler_ok_simple:
  "handler_ok sys (gopro_parse_resp_connect_new env inp sys)"
  "handler_ok sys (gopro_parse_resp_connect env inp sys)"
  "handler_ok sys (gopro_parse_notif_prov_state env inp sys)"
  "handler_ok sys (gopro_parse_request_scan_req env inp sys)"
  "handler_ok sys (gopro_parse_response_generic env inp sys)"
  by (simp_all add: gopro_parse_resp_connect_new_def gopro_parse_resp_connect_def
      gopro_parse_notif_prov_state_def gopro_parse_request_scan_req_def
      gopro_parse_response_generic_def split: prod.split)

lemma handler_ok_cohn_status:
  assumes "gopro_parse_response_cohn_status env inp sys = Some sys'"
  shows "handler_ok sys sys'"
proof -
  obtain ok s where d: "pb_decode_cb (dec_cohn_status env inp) (\<lambda>tag sub. read_str_callback sub) sys = Some (ok, s)"
    using assms by (auto simp: gopro_parse_response_cohn_status_def Let_def bind_eq_Some_conv)
  then obtain k where "pb_callbacks (\<lambda>tag sub. read_str_callback sub) (pb_subs (dec_cohn_status env inp)) sys = Some (k, s)"
    by (auto simp: pb_decode_cb_def bind_eq_Some_conv)
  then have "s = sys"
    by (rule pb_callbacks_invariant [where I = "\<lambda>x. x = sys"])
       (auto simp: read_str_callback_def split: if_split_asm)
  with assms d show ?thesis
    by (auto simp: gopro_parse_response_cohn_status_def Let_def split: if_split_asm)
qed

lemma pb_decode_cb_invariant:
  assumes "pb_decode_cb r cb s = Some (ok, s')" and "I s"
    and "\<And>tag sub s ok s'. I s \<Longrightarrow> cb tag sub s = Some (ok, s') \<Longrightarrow> I s'"
  shows "I s'"
proof -
  obtain k where "pb_callbacks cb (pb_subs r) s = Some (k, s')"
    using assms(1) by (auto simp: pb_decode_cb_def bind_eq_Some_conv)
  then show ?thesis using assms(2,3) by (rule pb_callbacks_invariant)
qed

text \<open>A decode whose callbacks cannot fail cannot fail.\<close>

lemma pb_callbacks_total:
  assumes "I s" and "\<And>tag sub s. I s \<Longrightarrow> \<exists>ok s'. cb tag sub s = Some (ok, s') \<and> I s'"
  shows "\<exists>ok s'. pb_callbacks cb subs s = Some (ok, s') \<and> I s'"
  using assms(1)
proof (induction subs arbitrary: s)
  case Nil
  then show ?case by auto
next
  case (Cons x rest)
  obtain tag sub where x: "x = (tag, sub)" by force
  from assms(2) [OF Cons.prems, of tag sub] obtain ok s1 where
    c: "cb tag sub s = Some (ok, s1)" "I s1" by auto
  show ?case using c Cons.IH [OF c(2)] by (cases ok) (auto simp: x)
qed

lemma pb_decode_cb_total:
  assumes "I s" and "\<And>tag sub s. I s \<Longrightarrow> \<exists>ok s'. cb tag sub s = Some (ok, s') \<and> I s'"
  shows "\<exists>ok s'. pb_decode_cb r cb s = Some (ok, s') \<and> I s'"
  using pb_callbacks_total [of I s cb "pb_subs r", OF assms] by (auto simp: pb_decode_cb_def)

lemma handler_ok_cohn_cert:
  assumes "alloc_ok env" and "gopro_parse_response_cohn_cert env inp sys = Some sys'"
  shows "handler_ok sys sys'"
proof (cases "case sys_cert sys of None \<Rightarrow> env_alloc env Alloc_Cert CERT_BUFF_SIZE
            | Some b \<Rightarrow> Some (replicate CERT_BUFF_SIZE 0)")
  case None
  with assms show ?thesis by (simp add: gopro_parse_response_cohn_cert_def)
next
  case (Some cert)
  have l: "length cert = CERT_BUFF_SIZE"
    using Some alloc_okD [OF assms(1)] by (auto split: option.splits)
  obtain ok d where d: "pb_decode_cb (dec_cohn_cert env inp) (\<lambda>tag sub. pb_decode_bytes sub)
      \<lparr>dp_size = CERT_BUFF_SIZE, dp_data = cert\<rparr> = Some (ok, d)"
    using assms(2) Some by (auto simp: gopro_parse_response_cohn_cert_def Let_def bind_eq_Some_conv)
  have "length (dp_data d) = CERT_BUFF_SIZE"
    by (rule pb_decode_cb_invariant [OF d])
       (auto simp: l pb_decode_bytes_def bind_eq_Some_conv split: if_split_asm dest: length_wr_block)
  then have h: "handler_ok sys (sys\<lparr>sys_cert := Some (dp_data d)\<rparr>)"
    by (simp add: handler_ok_def wf_sys_def cert_ok_def)
  then show ?thesis
    using assms(2) Some d
    by (auto simp: gopro_parse_response_cohn_cert_def Let_def split: if_split_asm
        intro: handler_ok_trans)
qed

end
