(* ===== verification/Access_Points.thy ===== *)
theory Access_Points
  imports Protobuf
begin

section \<open>Access points and credentials (\<^verbatim>\<open>gopro_protobuf.c\<close>)\<close>

text \<open>
  The camera reports the networks it sees; the code keeps a table of them and asks the
  camera to join the one whose name matches the stored credentials.
\<close>

subsection \<open>The access-point list\<close>

definition upd_ap :: "nat \<Rightarrow> (ap_list_t \<Rightarrow> ap_list_t) \<Rightarrow> gopro_sys \<Rightarrow> gopro_sys" where
  "upd_ap i f sys = sys\<lparr>sys_ap_list := (sys_ap_list sys)[i := f (sys_ap_list sys ! i)]\<rparr>"

definition read_ssid_callback :: "nat \<Rightarrow> bytes \<Rightarrow> gopro_sys \<Rightarrow> (bool \<times> gopro_sys) option" where
  "read_ssid_callback i sub sys =
     (if MAX_SSID_LEN < length sub then Some (False, sys)
      else do {
        f \<leftarrow> store_string (ap_ssid (sys_ap_list sys ! i)) sub 0 (length sub);
        Some (True, upd_ap i (ap_ssid_update (\<lambda>_. f)) sys)
      })"

definition read_ap_entries_callback :: "gopro_env \<Rightarrow> bytes \<Rightarrow> gopro_sys \<Rightarrow> (bool \<times> gopro_sys) option" where
  "read_ap_entries_callback env sub sys =
     (if 128 < length sub then Some (False, sys)
      else do {
        let r = dec_scan_entry env sub;
        let i = sys_ap_index sys;
        (ok, sys) \<leftarrow> pb_decode_cb r (\<lambda>tag s. read_ssid_callback i s) sys;
        if \<not> ok then Some (True, sys)
        else do {
          let sys = upd_ap i (\<lambda>a. a\<lparr>ap_frequency := se_frequency (pb_fields r),
                                    ap_bars := se_bars (pb_fields r),
                                    ap_flags := se_flags (pb_fields r)\<rparr>) sys;
          if i < MAX_AP_LIST_COUNT - 1 then Some (True, sys\<lparr>sys_ap_index := i + 1\<rparr>)
          else Some (True, sys)
        }
      })"

abbreviation (input) SCAN_FLAG_CONFIGURED :: int where "SCAN_FLAG_CONFIGURED \<equiv> 2"
abbreviation (input) SCAN_FLAG_ASSOCIATED :: int where "SCAN_FLAG_ASSOCIATED \<equiv> 8"

fun gopro_connect_ap :: "gopro_env \<Rightarrow> bytes \<Rightarrow> ap_list_t list \<Rightarrow> gopro_sys \<Rightarrow> gopro_sys option" where
  "gopro_connect_ap env stk [] sys = Some sys"
| "gopro_connect_ap env stk (a # rest) sys = do {
     n \<leftarrow> c_strlen (gs_cohn_ssid (sys_state sys));
     m \<leftarrow> c_strlen (ap_ssid a);
     let min_len = (if m < n then m else n);
     if min_len = 0 then gopro_connect_ap env stk rest sys
     else do {
       same \<leftarrow> c_strncmp_eq min_len (ap_ssid a) (gs_cohn_ssid (sys_state sys));
       if same then
         if 0 < ap_flags a AND SCAN_FLAG_ASSOCIATED then Some sys
         else if 0 < ap_flags a AND SCAN_FLAG_CONFIGURED then do {
           msg \<leftarrow> gopro_prepare_connect_saved env sys;
           send_request env stk msg 0x02 0x04 sys
         }
         else do {
           msg \<leftarrow> gopro_prepare_connect_new env sys;
           send_request env stk msg 0x02 0x05 sys
         }
       else gopro_connect_ap env stk rest sys
     }
   }"

definition zero_ap :: ap_list_t where
  "zero_ap = \<lparr>ap_frequency = 0, ap_bars = 0, ap_flags = 0, ap_ssid = replicate MAX_SSID_LEN 0\<rparr>"

definition gopro_parse_ap_entries ::
    "gopro_env \<Rightarrow> bytes \<Rightarrow> bytes \<Rightarrow> gopro_sys \<Rightarrow> (cret \<times> gopro_sys) option" where
  "gopro_parse_ap_entries env stk inp sys = do {
     let sys = sys\<lparr>sys_ap_index := 0, sys_ap_list := (sys_ap_list sys)[0 := zero_ap]\<rparr>;
     (ok, sys) \<leftarrow> pb_decode_cb (dec_ap_entries env inp) (\<lambda>tag sub. read_ap_entries_callback env sub) sys;
     if \<not> ok then Some (OK, sys)
     else do {
       sys \<leftarrow> gopro_connect_ap env stk (take (sys_ap_index sys) (sys_ap_list sys)) sys;
       Some (OK, sys)
     }
   }"

subsection \<open>Wi-Fi credentials\<close>

text \<open>Field 1 of the message is the network's name, field 2 the password.\<close>

definition wifi_cred_callback ::
    "nat \<Rightarrow> bytes \<Rightarrow> data_ptr_t \<times> data_ptr_t \<Rightarrow> (bool \<times> data_ptr_t \<times> data_ptr_t) option" where
  "wifi_cred_callback tag sub st =
     (case st of (ssid, pasw) \<Rightarrow>
        if tag = 1 then do { (ok, ssid) \<leftarrow> pb_decode_bytes sub ssid; Some (ok, ssid, pasw) }
        else do { (ok, pasw) \<leftarrow> pb_decode_bytes sub pasw; Some (ok, ssid, pasw) })"

definition gopro_decode_wifi_cred :: "gopro_env \<Rightarrow> bytes \<Rightarrow> gopro_sys \<Rightarrow> gopro_sys option" where
  "gopro_decode_wifi_cred env inp sys = do {
     (ok, ssid, pasw) \<leftarrow> pb_decode_cb (dec_wifi_cred env inp) wifi_cred_callback
        (\<lparr>dp_size = 20, dp_data = gs_cohn_ssid (sys_state sys)\<rparr>,
         \<lparr>dp_size = 20, dp_data = gs_cohn_pass (sys_state sys)\<rparr>);
     Some (upd_state (\<lambda>s. s\<lparr>gs_cohn_ssid := dp_data ssid, gs_cohn_pass := dp_data pasw\<rparr>) sys)
   }"


subsection \<open>Filling the table\<close>

lemma wf_ap_list_upd:
  "wf_ap_list l \<Longrightarrow> i < MAX_AP_LIST_COUNT \<Longrightarrow> length (ap_ssid a) = MAX_SSID_LEN \<Longrightarrow> wf_ap_list (l[i := a])"
  by (auto simp: wf_ap_list_def dest!: set_update_subset_insert [THEN subsetD])

lemma wf_ap_ssid: "wf_ap_list l \<Longrightarrow> i < MAX_AP_LIST_COUNT \<Longrightarrow> length (ap_ssid (l ! i)) = MAX_SSID_LEN"
  by (auto simp: wf_ap_list_def)

lemma upd_ap_wf:
  assumes "wf_sys sys" and "i < MAX_AP_LIST_COUNT"
    and "\<And>a. length (ap_ssid a) = MAX_SSID_LEN \<Longrightarrow> length (ap_ssid (f a)) = MAX_SSID_LEN"
  shows "wf_sys (upd_ap i f sys)"
  using assms by (auto simp: wf_sys_def upd_ap_def intro!: wf_ap_list_upd wf_ap_ssid)

definition ap_frame :: "gopro_sys \<Rightarrow> gopro_sys \<Rightarrow> bool" where
  "ap_frame sys sys' \<longleftrightarrow>
     sys_packet sys' = sys_packet sys \<and> sys_client sys' = sys_client sys \<and>
     sys_state sys' = sys_state sys \<and> sys_cmd_queue sys' = sys_cmd_queue sys \<and>
     reply_slots sys' = reply_slots sys \<and> (wf_sys sys \<longrightarrow> wf_sys sys')"

lemma ap_frame_refl [simp]: "ap_frame sys sys"
  by (simp add: ap_frame_def)

lemma ap_frame_trans: "ap_frame a b \<Longrightarrow> ap_frame b c \<Longrightarrow> ap_frame a c"
  by (simp add: ap_frame_def)

lemma ap_frame_handler: "ap_frame a b \<Longrightarrow> handler_ok a b"
  by (simp add: ap_frame_def handler_ok_def)

lemma ap_frame_upd:
  assumes "i < MAX_AP_LIST_COUNT"
    and "\<And>a. length (ap_ssid a) = MAX_SSID_LEN \<Longrightarrow> length (ap_ssid (f a)) = MAX_SSID_LEN"
  shows "ap_frame sys (upd_ap i f sys)"
  using upd_ap_wf [of sys i f] assms by (simp add: ap_frame_def) (simp add: upd_ap_def)

lemma ap_frame_index: "ap_frame sys s \<Longrightarrow> i < MAX_AP_LIST_COUNT \<Longrightarrow> ap_frame sys (s\<lparr>sys_ap_index := i\<rparr>)"
proof -
  have "wf_sys s \<Longrightarrow> i < MAX_AP_LIST_COUNT \<Longrightarrow> wf_sys (s\<lparr>sys_ap_index := i\<rparr>)"
    by (simp add: wf_sys_def)
  then show "ap_frame sys s \<Longrightarrow> i < MAX_AP_LIST_COUNT \<Longrightarrow> ap_frame sys (s\<lparr>sys_ap_index := i\<rparr>)"
    by (simp add: ap_frame_def)
qed

lemma ap_frame_ssid:
  assumes "read_ssid_callback i sub sys = Some (ok, sys')" and "i < MAX_AP_LIST_COUNT" and "wf_sys sys"
  shows "ap_frame sys sys' \<and> sys_ap_index sys' = sys_ap_index sys"
proof (cases "MAX_SSID_LEN < length sub")
  case True
  with assms show ?thesis by (simp add: read_ssid_callback_def)
next
  case False
  then obtain f where f: "store_string (ap_ssid (sys_ap_list sys ! i)) sub 0 (length sub) = Some f"
    and s: "sys' = upd_ap i (ap_ssid_update (\<lambda>_. f)) sys"
    using assms(1) by (auto simp: read_ssid_callback_def bind_eq_Some_conv)
  have "length f = MAX_SSID_LEN"
    using store_string_length [OF f] assms by (simp add: wf_sys_def wf_ap_ssid)
  then have "ap_frame sys sys'" unfolding s by (intro ap_frame_upd assms) simp
  then show ?thesis by (simp add: s upd_ap_def)
qed

lemma ap_frame_entry:
  assumes "read_ap_entries_callback env sub sys = Some (ok, sys')" and wf: "wf_sys sys"
  shows "ap_frame sys sys'"
proof (cases "128 < length sub")
  case True
  with assms show ?thesis by (simp add: read_ap_entries_callback_def)
next
  case False
  let ?i = "sys_ap_index sys"
  have i: "?i < MAX_AP_LIST_COUNT" using wf by (simp add: wf_sys_def)
  obtain k s where d: "pb_decode_cb (dec_scan_entry env sub) (\<lambda>tag x. read_ssid_callback ?i x) sys = Some (k, s)"
    using assms(1) False by (auto simp: read_ap_entries_callback_def Let_def bind_eq_Some_conv)
  have "ap_frame sys s \<and> sys_ap_index s = ?i"
    by (rule pb_decode_cb_invariant [OF d])
       (use wf i in \<open>auto simp: ap_frame_def dest!: ap_frame_ssid\<close>)
  then have s: "ap_frame sys s" "sys_ap_index s = ?i" by auto
  let ?m = "pb_fields (dec_scan_entry env sub)"
  define u where "u = upd_ap ?i (\<lambda>a. a\<lparr>ap_frequency := se_frequency ?m, ap_bars := se_bars ?m,
                                             ap_flags := se_flags ?m\<rparr>) s"
  have u: "ap_frame sys u"
    unfolding u_def by (rule ap_frame_trans [OF s(1) ap_frame_upd]) (simp_all add: i)
  have v: "ap_frame sys (u\<lparr>sys_ap_index := Suc ?i\<rparr>)" if "?i < 29"
    using u that by (intro ap_frame_index) simp_all
  have "read_ap_entries_callback env sub sys = Some (True,
      if \<not> k then s else if ?i < 29 then u\<lparr>sys_ap_index := Suc ?i\<rparr> else u)"
    using False d by (simp add: read_ap_entries_callback_def Let_def u_def)
  then have "sys' = (if \<not> k then s else if ?i < 29 then u\<lparr>sys_ap_index := Suc ?i\<rparr> else u)"
    using assms(1) by (simp only: option.inject prod.inject)
  then show ?thesis using s(1) u v by (simp split: if_split)
qed

lemma handler_ok_connect_ap:
  assumes "length stk = 20" and "gopro_connect_ap env stk aps sys = Some sys'"
  shows "handler_ok sys sys'"
  using assms(2)
proof (induction aps)
  case Nil
  then show ?case by simp
next
  case (Cons a rest)
  then show ?case
    by (auto simp: Let_def bind_eq_Some_conv split: if_split_asm
        intro: handler_ok_send_request [OF assms(1)])
qed

subsection \<open>The entries of a well-formed answer\<close>

text \<open>
  An entry as the camera sends it: the bytes of the submessage, the name and the numbers
  in it. The last slot of the table is never counted, so at most 29 entries are.
\<close>

definition good_entry :: "gopro_env \<Rightarrow> bytes \<times> bytes \<times> scan_entry_msg \<Rightarrow> bool" where
  "good_entry env e = (case e of (sub, s, m) \<Rightarrow>
     length sub \<le> 128 \<and> length s < MAX_SSID_LEN \<and> 0 \<notin> set s \<and>
     dec_scan_entry env sub = \<lparr>pb_fields = m, pb_subs = [(1, s)], pb_ok = True\<rparr>)"

definition ap_entry_holds :: "ap_list_t \<Rightarrow> bytes \<times> bytes \<times> scan_entry_msg \<Rightarrow> bool" where
  "ap_entry_holds a e = (case e of (sub, s, m) \<Rightarrow>
     ap_frequency a = se_frequency m \<and> ap_bars a = se_bars m \<and> ap_flags a = se_flags m \<and>
     0 \<in> set (ap_ssid a) \<and> c_string (ap_ssid a) = s)"

lemma entry_stored:
  assumes wf: "wf_sys sys" and e: "good_entry env (sub, s, m)"
  shows "\<exists>sys' a. read_ap_entries_callback env sub sys = Some (True, sys') \<and>
    ap_frame sys sys' \<and> sys_ap_list sys' = (sys_ap_list sys)[sys_ap_index sys := a] \<and>
    ap_entry_holds a (sub, s, m) \<and>
    sys_ap_index sys' = (if sys_ap_index sys < 29 then Suc (sys_ap_index sys) else sys_ap_index sys)"
proof -
  let ?i = "sys_ap_index sys"
  let ?old = "sys_ap_list sys ! ?i"
  have i: "?i < length (sys_ap_list sys)" "length (ap_ssid ?old) = MAX_SSID_LEN"
    using wf by (simp_all add: wf_sys_def wf_ap_ssid) (simp add: wf_ap_list_def)
  have st: "store_string (ap_ssid ?old) s 0 (length s) = Some (s @ 0 # drop (Suc (length s)) (ap_ssid ?old))"
    using store_string_eq [of 0 "length s" s "ap_ssid ?old"] e i by (simp add: good_entry_def)
  define a where "a = ?old\<lparr>ap_ssid := s @ 0 # drop (Suc (length s)) (ap_ssid ?old),
    ap_frequency := se_frequency m, ap_bars := se_bars m, ap_flags := se_flags m\<rparr>"
  define t where "t = upd_ap ?i (ap_ssid_update (\<lambda>_. s @ 0 # drop (Suc (length s)) (ap_ssid ?old))) sys"
  have d: "pb_decode_cb (dec_scan_entry env sub) (\<lambda>tag x. read_ssid_callback ?i x) sys = Some (True, t)"
    using e st by (simp add: good_entry_def pb_decode_cb_def read_ssid_callback_def t_def)
  define u where "u = upd_ap ?i (\<lambda>a. a\<lparr>ap_frequency := se_frequency m, ap_bars := se_bars m,
                                             ap_flags := se_flags m\<rparr>) t"
  have tl: "sys_ap_list u = (sys_ap_list sys)[?i := a]"
    using i by (simp add: u_def t_def upd_ap_def a_def)
  have ui: "sys_ap_index u = ?i" by (simp add: u_def t_def upd_ap_def)
  have r: "read_ap_entries_callback env sub sys =
      Some (True, if ?i < 29 then u\<lparr>sys_ap_index := Suc ?i\<rparr> else u)"
    using e d by (simp add: read_ap_entries_callback_def Let_def u_def good_entry_def)
  have h: "ap_entry_holds a (sub, s, m)"
    using e by (simp add: ap_entry_holds_def a_def c_string_append_0 good_entry_def)
  show ?thesis
    by (rule exI [where x = "if ?i < 29 then u\<lparr>sys_ap_index := Suc ?i\<rparr> else u"], rule exI [where x = a])
       (intro conjI; (rule r ap_frame_entry [OF r wf] h)?; simp add: tl ui)
qed

lemma entries_stored:
  assumes "wf_sys sys" and "list_all (good_entry env) es" and "sys_ap_index sys + length es \<le> 29"
  shows "\<exists>sys'. pb_callbacks (\<lambda>tag sub. read_ap_entries_callback env sub) (map (\<lambda>e. (3, fst e)) es) sys =
      Some (True, sys') \<and> ap_frame sys sys' \<and>
    sys_ap_index sys' = sys_ap_index sys + length es \<and>
    take (sys_ap_index sys) (sys_ap_list sys') = take (sys_ap_index sys) (sys_ap_list sys) \<and>
    list_all2 ap_entry_holds (take (length es) (drop (sys_ap_index sys) (sys_ap_list sys'))) es"
  using assms
proof (induction es arbitrary: sys)
  case Nil
  then show ?case by simp
next
  case (Cons e es)
  obtain sub s m where e: "e = (sub, s, m)" by (metis prod_cases3)
  let ?i = "sys_ap_index sys"
  from entry_stored [OF Cons.prems(1), of env sub s m] Cons.prems e obtain sys1 a where
    s1: "read_ap_entries_callback env sub sys = Some (True, sys1)" "ap_frame sys sys1"
      "sys_ap_list sys1 = (sys_ap_list sys)[?i := a]" "ap_entry_holds a e"
      "sys_ap_index sys1 = Suc ?i" by auto
  have w: "wf_sys sys1" using s1(2) Cons.prems(1) by (simp add: ap_frame_def)
  have "?i + length (e # es) \<le> 29" using Cons.prems(3) .
  then have le: "sys_ap_index sys1 + length es \<le> 29" using s1(5) by simp
  have ge: "list_all (good_entry env) es" using Cons.prems(2) by simp
  obtain sys2 where
    s2: "pb_callbacks (\<lambda>tag sub. read_ap_entries_callback env sub) (map (\<lambda>e. (3, fst e)) es) sys1 = Some (True, sys2)"
      "ap_frame sys1 sys2" "sys_ap_index sys2 = Suc ?i + length es"
      "take (Suc ?i) (sys_ap_list sys2) = take (Suc ?i) (sys_ap_list sys1)"
      "list_all2 ap_entry_holds (take (length es) (drop (Suc ?i) (sys_ap_list sys2))) es"
    using Cons.IH [OF w ge le] s1(5) by auto
  have w2: "wf_sys sys2" using s2(2) w by (simp add: ap_frame_def)
  have len: "?i < length (sys_ap_list sys)" "length (sys_ap_list sys2) = 30"
    using Cons.prems(1) w2 by (simp_all add: wf_sys_def wf_ap_list_def)
  have nth: "sys_ap_list sys2 ! ?i = a"
    using s2(4) len s1(3) by (metis lessI nth_list_update_eq nth_take)
  have "take ?i (sys_ap_list sys2) = take ?i (take (Suc ?i) (sys_ap_list sys2))" by simp
  also have "\<dots> = take ?i (sys_ap_list sys)" unfolding s2(4) s1(3) by simp
  finally have t: "take ?i (sys_ap_list sys2) = take ?i (sys_ap_list sys)" .
  have "drop ?i (sys_ap_list sys2) = a # drop (Suc ?i) (sys_ap_list sys2)"
    using nth len Cons.prems(1) by (simp add: wf_sys_def Cons_nth_drop_Suc [symmetric])
  then have l2: "list_all2 ap_entry_holds (take (length (e # es)) (drop ?i (sys_ap_list sys2))) (e # es)"
    using s1(4) s2(5) by simp
  have run: "pb_callbacks (\<lambda>tag sub. read_ap_entries_callback env sub) (map (\<lambda>e. (3, fst e)) (e # es)) sys =
      Some (True, sys2)"
    unfolding e list.map pb_callbacks.simps fst_conv s1(1) bind.simps prod.case if_True
    by (rule s2(1))
  have idx: "sys_ap_index sys2 = ?i + length (e # es)" using s2(3) by simp
  show ?case
    by (intro exI [of _ sys2] conjI run l2 t idx ap_frame_trans [OF s1(2) s2(2)])
qed

subsection \<open>Which access point is joined\<close>

text \<open>
  A table entry is chosen when, up to the length of the shorter of the two names, its name
  and the stored one agree, and that length is not zero.
\<close>

definition ap_candidate :: "bytes \<Rightarrow> bytes \<Rightarrow> bool" where
  "ap_candidate want name \<longleftrightarrow>
     want \<noteq> [] \<and> name \<noteq> [] \<and>
     take (min (length want) (length name)) want = take (min (length want) (length name)) name"

definition join_ap :: "gopro_env \<Rightarrow> bytes \<Rightarrow> int \<Rightarrow> gopro_sys \<Rightarrow> gopro_sys option" where
  "join_ap env stk flags sys =
     (if 0 < flags AND SCAN_FLAG_ASSOCIATED then Some sys
      else if 0 < flags AND SCAN_FLAG_CONFIGURED
      then send_request env stk (snd (enc_connect env (c_string (gs_cohn_ssid (sys_state sys)))
             WORK_BUFF_SIZE)) 0x02 0x04 sys
      else send_request env stk (snd (enc_connect_new env (c_string (gs_cohn_ssid (sys_state sys)))
             (c_string (gs_cohn_pass (sys_state sys))) WORK_BUFF_SIZE)) 0x02 0x05 sys)"

lemma take_strlen: "take (length (c_string b)) b = c_string b"
  unfolding c_string_def by (rule takeWhile_eq_take [symmetric])

lemma ap_candidate_iff:
  "ap_candidate want name \<longleftrightarrow> want \<noteq> [] \<and> name \<noteq> [] \<and> (prefix want name \<or> prefix name want)"
proof -
  have p: "prefix x y \<longleftrightarrow> length x \<le> length y \<and> take (length x) y = x" for x y :: bytes
    by (metis append_eq_conv_conj append_take_drop_id prefix_def prefix_length_le)
  show ?thesis
    by (cases "length want \<le> length name") (auto simp: ap_candidate_def p min_def)
qed

lemma connect_ap_spec:
  assumes cred: "0 \<in> set (gs_cohn_ssid (sys_state sys))" "0 \<in> set (gs_cohn_pass (sys_state sys))"
    and aps: "\<forall>a \<in> set aps. 0 \<in> set (ap_ssid a)"
  shows "gopro_connect_ap env stk aps sys =
    (case find (\<lambda>a. ap_candidate (c_string (gs_cohn_ssid (sys_state sys))) (c_string (ap_ssid a))) aps of
       None \<Rightarrow> Some sys
     | Some a \<Rightarrow> join_ap env stk (ap_flags a) sys)"
  using aps
proof (induction aps)
  case Nil
  then show ?case by simp
next
  case (Cons a rest)
  let ?w = "gs_cohn_ssid (sys_state sys)"
  let ?m = "min (length (c_string ?w)) (length (c_string (ap_ssid a)))"
  have z: "0 \<in> set (ap_ssid a)" using Cons.prems by simp
  have m: "(if length (c_string (ap_ssid a)) < length (c_string ?w)
            then length (c_string (ap_ssid a)) else length (c_string ?w)) = ?m"
    by (simp add: min_def)
  have le: "?m \<le> length (ap_ssid a)" "?m \<le> length ?w"
    using c_string_length [OF z] c_string_length [OF cred(1)] by linarith+
  have nz: "0 \<notin> set (take ?m ?w)"
    by (subst take_c_string) (auto simp: c_string_def dest!: in_set_takeD set_takeWhileD)
  have cmp: "c_strncmp_eq ?m (ap_ssid a) ?w =
      Some (take ?m (c_string (ap_ssid a)) = take ?m (c_string ?w))"
    using c_strncmp_eq_take [OF le nz] take_c_string [of ?m "ap_ssid a"] take_c_string [of ?m ?w]
    by simp
  have join: "(if 0 < ap_flags a AND SCAN_FLAG_ASSOCIATED then Some sys
       else if 0 < ap_flags a AND SCAN_FLAG_CONFIGURED then do {
         msg \<leftarrow> gopro_prepare_connect_saved env sys;
         send_request env stk msg 0x02 0x04 sys
       }
       else do {
         msg \<leftarrow> gopro_prepare_connect_new env sys;
         send_request env stk msg 0x02 0x05 sys
       }) = join_ap env stk (ap_flags a) sys"
    using cred
    by (simp add: join_ap_def gopro_prepare_connect_saved_def gopro_prepare_connect_new_def
        c_strlen_eq take_strlen)
  show ?case
  proof (cases "?m = 0")
    case True
    then have "\<not> ap_candidate (c_string ?w) (c_string (ap_ssid a))"
      by (auto simp: ap_candidate_def min_def split: if_split_asm)
    with Cons True z cred show ?thesis by (simp add: c_strlen_eq m Let_def)
  next
    case False
    then have c: "ap_candidate (c_string ?w) (c_string (ap_ssid a)) \<longleftrightarrow>
        take ?m (c_string (ap_ssid a)) = take ?m (c_string ?w)"
      by (auto simp: ap_candidate_def)
    show ?thesis
      using Cons False z cred
      by (simp only: gopro_connect_ap.simps c_strlen_eq if_True bind.simps m Let_def if_False cmp
          find.simps c join option.case split: if_split) auto
  qed
qed

lemma connect_ap_entries:
  assumes "0 \<in> set (gs_cohn_ssid (sys_state sys))" "0 \<in> set (gs_cohn_pass (sys_state sys))"
    and "list_all2 ap_entry_holds aps es"
  shows "gopro_connect_ap env stk aps sys =
    (case find (\<lambda>(sub, s, m). ap_candidate (c_string (gs_cohn_ssid (sys_state sys))) s) es of
       None \<Rightarrow> Some sys
     | Some (sub, s, m) \<Rightarrow> join_ap env stk (se_flags m) sys)"
proof -
  have z: "\<forall>a \<in> set aps. 0 \<in> set (ap_ssid a)"
    using assms(3) by (induction rule: list_all2_induct) (auto simp: ap_entry_holds_def)
  from assms(3) have
    "(case find (\<lambda>a. ap_candidate w (c_string (ap_ssid a))) aps of
       None \<Rightarrow> Some sys | Some a \<Rightarrow> join_ap env stk (ap_flags a) sys) =
     (case find (\<lambda>(sub, s, m). ap_candidate w s) es of
       None \<Rightarrow> Some sys | Some (sub, s, m) \<Rightarrow> join_ap env stk (se_flags m) sys)" for w
  proof (induction aps es rule: list_all2_induct)
    case Nil
    then show ?case by simp
  next
    case (Cons a as e es)
    then show ?case by (cases e) (simp add: ap_entry_holds_def)
  qed
  then show ?thesis by (simp add: connect_ap_spec [OF assms(1,2) z])
qed

lemma ap_reset_frame:
  "ap_frame sys (sys\<lparr>sys_ap_index := 0, sys_ap_list := (sys_ap_list sys)[0 := zero_ap]\<rparr>)"
proof -
  have "wf_sys sys \<Longrightarrow> wf_sys (sys\<lparr>sys_ap_index := 0, sys_ap_list := (sys_ap_list sys)[0 := zero_ap]\<rparr>)"
    using wf_ap_list_upd [of "sys_ap_list sys" 0 zero_ap]
    by (simp add: wf_sys_def zero_ap_def)
  then show ?thesis by (simp add: ap_frame_def)
qed

lemma handler_ok_ap_entries:
  assumes "length stk = 20" and "wf_sys sys"
    and "gopro_parse_ap_entries env stk inp sys = Some (r, sys')"
  shows "handler_ok sys sys'"
proof -
  let ?s0 = "sys\<lparr>sys_ap_index := 0, sys_ap_list := (sys_ap_list sys)[0 := zero_ap]\<rparr>"
  obtain ok s where d: "pb_decode_cb (dec_ap_entries env inp)
      (\<lambda>tag sub. read_ap_entries_callback env sub) ?s0 = Some (ok, s)"
    using assms(3) by (auto simp: gopro_parse_ap_entries_def Let_def bind_eq_Some_conv)
  have "ap_frame sys s \<and> wf_sys s"
    by (rule pb_decode_cb_invariant [OF d])
       (use assms(2) ap_reset_frame [of sys] in \<open>auto simp: ap_frame_def dest!: ap_frame_entry\<close>)
  then have s: "handler_ok sys s" by (simp add: ap_frame_handler)
  show ?thesis
  proof (cases ok)
    case False
    with assms(3) d s show ?thesis by (simp add: gopro_parse_ap_entries_def Let_def)
  next
    case True
    with assms(3) d have "gopro_connect_ap env stk (take (sys_ap_index s) (sys_ap_list s)) s = Some sys'"
      by (simp add: gopro_parse_ap_entries_def Let_def bind_eq_Some_conv)
    from handler_ok_connect_ap [OF assms(1) this] s show ?thesis by (rule handler_ok_trans [rotated])
  qed
qed

lemma parse_ap_entries_joins:
  assumes wf: "wf_sys sys" and es: "list_all (good_entry env) es" "length es \<le> 29"
    and inp: "dec_ap_entries env inp = \<lparr>pb_fields = (), pb_subs = map (\<lambda>e. (3, fst e)) es, pb_ok = True\<rparr>"
    and cred: "0 \<in> set (gs_cohn_ssid (sys_state sys))" "0 \<in> set (gs_cohn_pass (sys_state sys))"
  shows "\<exists>s. ap_frame sys s \<and> sys_ap_index s = length es \<and>
    list_all2 ap_entry_holds (take (length es) (sys_ap_list s)) es \<and>
    gopro_parse_ap_entries env stk inp sys = map_option (\<lambda>s'. (OK, s'))
      (case find (\<lambda>(sub, n, m). ap_candidate (c_string (gs_cohn_ssid (sys_state sys))) n) es of
         None \<Rightarrow> Some s
       | Some (sub, n, m) \<Rightarrow> join_ap env stk (se_flags m) s)"
proof -
  define s0 where "s0 = sys\<lparr>sys_ap_index := 0, sys_ap_list := (sys_ap_list sys)[0 := zero_ap]\<rparr>"
  have f0: "ap_frame sys s0" unfolding s0_def by (rule ap_reset_frame)
  then have w0: "wf_sys s0" using wf by (simp add: ap_frame_def)
  have i0: "sys_ap_index s0 = 0" by (simp add: s0_def)
  have le: "sys_ap_index s0 + length es \<le> 29" using es(2) i0 by simp
  from entries_stored [OF w0 es(1) le] i0 obtain s where
    s: "pb_callbacks (\<lambda>tag sub. read_ap_entries_callback env sub) (map (\<lambda>e. (3, fst e)) es) s0 = Some (True, s)"
      "ap_frame s0 s" "sys_ap_index s = length es"
      "list_all2 ap_entry_holds (take (length es) (sys_ap_list s)) es"
    by auto
  have fs: "ap_frame sys s" using f0 s(2) by (rule ap_frame_trans)
  then have st: "sys_state s = sys_state sys" by (simp add: ap_frame_def)
  have d: "pb_decode_cb (dec_ap_entries env inp) (\<lambda>tag sub. read_ap_entries_callback env sub) s0 = Some (True, s)"
    by (simp add: pb_decode_cb_def inp s(1))
  have c: "gopro_connect_ap env stk (take (length es) (sys_ap_list s)) s =
    (case find (\<lambda>(sub, n, m). ap_candidate (c_string (gs_cohn_ssid (sys_state sys))) n) es of
       None \<Rightarrow> Some s
     | Some (sub, n, m) \<Rightarrow> join_ap env stk (se_flags m) s)"
    using connect_ap_entries [of s, OF _ _ s(4)] cred st by simp
  have "gopro_parse_ap_entries env stk inp sys =
      do { x \<leftarrow> gopro_connect_ap env stk (take (length es) (sys_ap_list s)) s; Some (OK, x) }"
    unfolding gopro_parse_ap_entries_def Let_def s0_def [symmetric] d by (simp add: s(3))
  then show ?thesis using fs s(3,4) c
    by (intro exI [of _ s]) (simp add: map_conv_bind_option comp_def)
qed

text \<open>An entry name of exactly 40 bytes has its terminator written past the array.\<close>

lemma read_ssid_overflow:
  assumes "length (ap_ssid (sys_ap_list sys ! i)) = MAX_SSID_LEN" and "length sub = MAX_SSID_LEN"
  shows "read_ssid_callback i sub sys = None"
  using assms by (simp add: read_ssid_callback_def)

subsection \<open>Credentials\<close>

lemma wifi_cred_wf:
  assumes "wf_state (sys_state sys)"
  shows "\<exists>sys'. gopro_decode_wifi_cred env inp sys = Some sys' \<and> wf_state (sys_state sys') \<and>
    handler_ok sys sys'"
proof -
  define I where "I = (\<lambda>(a, b). wf_data_ptr a \<and> wf_data_ptr b \<and>
    length (dp_data a) = 20 \<and> length (dp_data b) = 20)"
  let ?st = "(\<lparr>dp_size = 20, dp_data = gs_cohn_ssid (sys_state sys)\<rparr>,
              \<lparr>dp_size = 20, dp_data = gs_cohn_pass (sys_state sys)\<rparr>)"
  have i0: "I ?st" using assms by (simp add: I_def wf_data_ptr_def wf_state_def)
  have step: "\<exists>ok s'. wifi_cred_callback tag sub s = Some (ok, s') \<and> I s'" if "I s" for tag sub s
  proof -
    obtain a b where s: "s = (a, b)" by force
    with that obtain ok1 d1 ok2 d2 where
      "pb_decode_bytes sub a = Some (ok1, d1)" "wf_data_ptr d1" "length (dp_data d1) = 20"
      "pb_decode_bytes sub b = Some (ok2, d2)" "wf_data_ptr d2" "length (dp_data d2) = 20"
      using pb_decode_bytes_wf [of a sub] pb_decode_bytes_wf [of b sub] by (auto simp: I_def)
    with that s show ?thesis by (simp add: wifi_cred_callback_def I_def)
  qed
  obtain ok p where p: "pb_decode_cb (dec_wifi_cred env inp) wifi_cred_callback ?st = Some (ok, p)" "I p"
    using pb_decode_cb_total [of I ?st wifi_cred_callback "dec_wifi_cred env inp", OF i0] step by blast
  obtain a b where ab: "p = (a, b)" by force
  have d: "pb_decode_cb (dec_wifi_cred env inp) wifi_cred_callback ?st = Some (ok, a, b)" and "I (a, b)"
    using p unfolding ab .
  then have l: "length (dp_data a) = 20" "length (dp_data b) = 20" by (simp_all add: I_def)
  define s where "s = upd_state (\<lambda>s. s\<lparr>gs_cohn_ssid := dp_data a, gs_cohn_pass := dp_data b\<rparr>) sys"
  have w: "wf_state (sys_state s)"
    using assms l by (simp add: s_def wf_state_def)
  have "wf_sys sys \<Longrightarrow> wf_sys s"
    unfolding s_def by (rule wf_sys_upd_state) (use w in \<open>simp_all add: s_def\<close>)
  then have "handler_ok sys s" by (simp add: handler_ok_def s_def)
  moreover have "gopro_decode_wifi_cred env inp sys = Some s"
    unfolding gopro_decode_wifi_cred_def d s_def by simp
  ultimately show ?thesis using w by blast
qed

lemma wifi_cred_stored:
  assumes wf: "wf_state (sys_state sys)"
    and d: "dec_wifi_cred env inp = \<lparr>pb_fields = (), pb_subs = [(1, ssid), (2, pasw)], pb_ok = True\<rparr>"
    and l: "length ssid \<le> 20" "length pasw \<le> 20"
  shows "gopro_decode_wifi_cred env inp sys = Some (upd_state
    (\<lambda>s. s\<lparr>gs_cohn_ssid := ssid @ drop (length ssid) (gs_cohn_ssid s),
           gs_cohn_pass := pasw @ drop (length pasw) (gs_cohn_pass s)\<rparr>) sys)"
proof -
  have "wf_data_ptr \<lparr>dp_size = 20, dp_data = gs_cohn_ssid (sys_state sys)\<rparr>"
    "wf_data_ptr \<lparr>dp_size = 20, dp_data = gs_cohn_pass (sys_state sys)\<rparr>"
    using wf by (simp_all add: wf_data_ptr_def wf_state_def)
  then show ?thesis
    using l by (simp add: gopro_decode_wifi_cred_def pb_decode_cb_def d wifi_cred_callback_def
        pb_decode_bytes_ok upd_state_def)
qed

text \<open>
  The name the code uses afterwards is the stored C string: the one sent, followed by what
  an earlier, longer name left behind it.
\<close>

lemma c_string_append:
  "0 \<notin> set v \<Longrightarrow> c_string (v @ w) = v @ c_string w"
  by (induction v) (auto simp: c_string_def)

end
