(* ===== verification/Can_Bridge.thy ===== *)
theory Can_Bridge
  imports Access_Points
begin

section \<open>The bridge between BLE and CAN (\<^verbatim>\<open>gopro_protobuf.c\<close>, \<^verbatim>\<open>canbus_isotp.c\<close>)\<close>

text \<open>
  Messages of the camera are forwarded to the CAN bus (\<^verbatim>\<open>can_reply\<close>, the ISO-TP sender
  and its completion callback); messages from the CAN bus are sent to the camera or set
  the Wi-Fi credentials (\<^verbatim>\<open>can_rx_ble_subscriber_task\<close>, one round of its loop).
\<close>

subsection \<open>Forwarding to CAN\<close>

definition negative :: "cret \<Rightarrow> bool" where
  "negative r = (case r of Neg e \<Rightarrow> True | Code n \<Rightarrow> n < 0)"

definition can_reply :: "gopro_env \<Rightarrow> int \<Rightarrow> bytes \<Rightarrow> gopro_sys \<Rightarrow> cret \<times> gopro_sys" where
  "can_reply env ble_addr data sys =
     (if WORK_BUFF_SIZE < length data then (Neg EINVAL, sys)
      else if sys_can_reply_sem sys = 0 then (Neg EINVAL, sys)
      else
        let taken = sys\<lparr>sys_can_reply_sem := sys_can_reply_sem sys - 1\<rparr>;
            given = taken\<lparr>sys_can_reply_sem := k_sem_give 1 (sys_can_reply_sem taken)\<rparr> in
        case env_alloc env Alloc_Can_Reply WORK_BUFF_SIZE of
          None \<Rightarrow> (Neg ENOMEM, taken)
        | Some blk \<Rightarrow>
            (case enc_bledata env ble_addr data WORK_BUFF_SIZE of (ok, out) \<Rightarrow>
               if \<not> ok then (Neg EINVAL, given)
               else
                 let mem_pkt = \<lparr>mp_index = 0, mp_len = int (length out),
                                mp_data = Some (out @ drop (length out) blk)\<rparr> in
                 if negative (env_can_ble_chan env) then (Neg EIO, given)
                 else (OK, taken\<lparr>sys_can_tx := sys_can_tx taken @ [mem_pkt]\<rparr>)))"

text \<open>
  The sender thread takes a packet from the channel's queue and starts an ISO-TP transfer.
  \<open>started\<close> is whether \<^verbatim>\<open>isotp_send\<close> answered \<^verbatim>\<open>ISOTP_N_OK\<close>; the transfers under way are
  the second component. The completion callback frees the packet and gives the semaphore.
\<close>

definition isotp_tx_step ::
    "bool \<Rightarrow> gopro_sys \<times> mem_pkt_t list \<Rightarrow> (gopro_sys \<times> mem_pkt_t list) option" where
  "isotp_tx_step started st = (case st of (sys, flight) \<Rightarrow>
     (case sys_can_tx sys of
        [] \<Rightarrow> None
      | p # q \<Rightarrow> Some (sys\<lparr>sys_can_tx := q\<rparr>, if started then flight @ [p] else flight)))"

definition isotpsend_callback ::
    "gopro_sys \<times> mem_pkt_t list \<Rightarrow> (gopro_sys \<times> mem_pkt_t list) option" where
  "isotpsend_callback st = (case st of (sys, flight) \<Rightarrow>
     (case flight of
        [] \<Rightarrow> None
      | p # q \<Rightarrow> Some (sys\<lparr>sys_can_reply_sem := k_sem_give 1 (sys_can_reply_sem sys)\<rparr>, q)))"

subsection \<open>The reply slot\<close>

text \<open>
  The semaphore, the channel's queue and the transfers under way share one slot. A step of
  the bridge is a reply, a started or refused transfer, or a completion.
\<close>

inductive slot_step :: "gopro_sys \<times> mem_pkt_t list \<Rightarrow> gopro_sys \<times> mem_pkt_t list \<Rightarrow> bool" where
  reply: "can_reply env addr data sys = (r, sys') \<Longrightarrow> slot_step (sys, fl) (sys', fl)"
| send: "isotp_tx_step started st = Some st' \<Longrightarrow> slot_step st st'"
| finish: "isotpsend_callback st = Some st' \<Longrightarrow> slot_step st st'"

definition slot_load :: "gopro_sys \<times> mem_pkt_t list \<Rightarrow> nat" where
  "slot_load st = sys_can_reply_sem (fst st) + length (sys_can_tx (fst st)) + length (snd st)"

lemma k_sem_give_taken: "n \<noteq> 0 \<Longrightarrow> n \<le> 1 \<Longrightarrow> k_sem_give 1 (n - 1) = n"
  by (simp add: k_sem_give_def)

lemma can_reply_cases:
  assumes "can_reply env addr data sys = (r, sys')"
  obtains (none) "sys' = sys" "r = Neg EINVAL"
  | (lost) "sys_can_reply_sem sys \<noteq> 0" "r = Neg ENOMEM"
      "sys' = sys\<lparr>sys_can_reply_sem := sys_can_reply_sem sys - 1\<rparr>"
  | (returned) "sys_can_reply_sem sys \<noteq> 0" "r \<noteq> OK"
      "sys' = sys\<lparr>sys_can_reply_sem := k_sem_give 1 (sys_can_reply_sem sys - 1)\<rparr>"
  | (queued) p where "sys_can_reply_sem sys \<noteq> 0" "r = OK"
      "sys' = sys\<lparr>sys_can_reply_sem := sys_can_reply_sem sys - 1, sys_can_tx := sys_can_tx sys @ [p]\<rparr>"
proof -
  consider "WORK_BUFF_SIZE < length data \<or> sys_can_reply_sem sys = 0"
    | "length data \<le> WORK_BUFF_SIZE" "sys_can_reply_sem sys \<noteq> 0"
    by linarith
  then show ?thesis
  proof cases
    case 1
    then have "can_reply env addr data sys = (Neg EINVAL, sys)"
      by (cases "WORK_BUFF_SIZE < length data") (simp_all add: can_reply_def)
    with assms show ?thesis by (intro none) simp_all
  next
    case 2
    show ?thesis
    proof (cases "env_alloc env Alloc_Can_Reply WORK_BUFF_SIZE")
      case None
      with assms 2 show ?thesis by (intro lost) (auto simp: can_reply_def Let_def)
    next
      case (Some blk)
      obtain ok out where e: "enc_bledata env addr data WORK_BUFF_SIZE = (ok, out)" by force
      let ?given = "sys\<lparr>sys_can_reply_sem := k_sem_give 1 (sys_can_reply_sem sys - 1)\<rparr>"
      consider "\<not> ok" | "ok" "negative (env_can_ble_chan env)" | "ok" "\<not> negative (env_can_ble_chan env)"
        by blast
      then show ?thesis
      proof cases
        case 1
        then have "can_reply env addr data sys = (Neg EINVAL, ?given)"
          using 2 Some e by (simp add: can_reply_def Let_def)
        with assms \<open>sys_can_reply_sem sys \<noteq> 0\<close> show ?thesis by (intro returned) auto
      next
        case 2
        then have "can_reply env addr data sys = (Neg EIO, ?given)"
          using \<open>length data \<le> WORK_BUFF_SIZE\<close> \<open>sys_can_reply_sem sys \<noteq> 0\<close> Some e
          by (simp add: can_reply_def Let_def)
        with assms \<open>sys_can_reply_sem sys \<noteq> 0\<close> show ?thesis by (intro returned) auto
      next
        case 3
        then have "can_reply env addr data sys = (OK, sys\<lparr>sys_can_reply_sem := sys_can_reply_sem sys - 1,
          sys_can_tx := sys_can_tx sys @ [\<lparr>mp_index = 0, mp_len = int (length out),
            mp_data = Some (out @ drop (length out) blk)\<rparr>]\<rparr>)"
          using \<open>length data \<le> WORK_BUFF_SIZE\<close> \<open>sys_can_reply_sem sys \<noteq> 0\<close> Some e
          by (simp add: can_reply_def Let_def)
        with assms have r: "r = OK" "sys' = sys\<lparr>sys_can_reply_sem := sys_can_reply_sem sys - 1,
          sys_can_tx := sys_can_tx sys @ [\<lparr>mp_index = 0, mp_len = int (length out),
            mp_data = Some (out @ drop (length out) blk)\<rparr>]\<rparr>" by simp_all
        show ?thesis by (rule queued [OF \<open>sys_can_reply_sem sys \<noteq> 0\<close> r])
      qed
    qed
  qed
qed

lemma handler_ok_can_reply: "handler_ok sys (snd (can_reply env addr data sys))"
proof -
  obtain r sys' where c: "can_reply env addr data sys = (r, sys')" by force
  then have "handler_ok sys sys'"
    by (cases rule: can_reply_cases) (simp_all add: handler_ok_def wf_sys_def k_sem_give_def)
  with c show ?thesis by simp
qed

lemma slot_load_step: "slot_step st st' \<Longrightarrow> slot_load st \<le> 1 \<Longrightarrow> slot_load st' \<le> slot_load st"
proof (induction rule: slot_step.induct)
  case (reply env addr data sys r sys' fl)
  from reply(1) show ?case
    by (cases rule: can_reply_cases) (use reply(2) in \<open>auto simp: slot_load_def k_sem_give_def\<close>)
next
  case (send started st st')
  then show ?case
    by (auto simp: isotp_tx_step_def slot_load_def split: prod.splits list.splits if_split_asm)
next
  case (finish st st')
  then show ?case
    by (auto simp: isotpsend_callback_def slot_load_def k_sem_give_def split: prod.splits list.splits)
qed

inductive_cases slot_stepE: "slot_step st st'"

text \<open>A lost slot is lost: nothing of the bridge gives the semaphore again.\<close>

lemma slot_lost_step: "slot_step st st' \<Longrightarrow> slot_load st = 0 \<Longrightarrow> slot_load st' = 0"
  using slot_load_step [of st st'] by simp

lemma slot_load_run: "slot_step\<^sup>*\<^sup>* st st' \<Longrightarrow> slot_load st \<le> 1 \<Longrightarrow> slot_load st' \<le> slot_load st"
proof (induction rule: rtranclp_induct)
  case base
  then show ?case by simp
next
  case (step y z)
  then show ?case using slot_load_step [of y z] by simp
qed

subsection \<open>Messages from CAN\<close>

record can_rx_t =
  crx_buf :: bytes
  crx_sem :: nat

abbreviation (input) BLE_ADDR_SET_WIFI_CRED :: int where "BLE_ADDR_SET_WIFI_CRED \<equiv> 0xF0"

definition mem_pkt_input :: "mem_pkt_t \<Rightarrow> bytes option" where
  "mem_pkt_input p =
     (if mp_len p < 0 then None
      else case mp_data p of
        None \<Rightarrow> if mp_len p = 0 then Some [] else None
      | Some d \<Rightarrow> rd_block d 0 (nat (mp_len p)))"

definition can_rx_ble_step ::
    "gopro_env \<Rightarrow> bytes \<Rightarrow> mem_pkt_t \<Rightarrow> can_rx_t \<times> gopro_sys \<Rightarrow> (can_rx_t \<times> gopro_sys) option" where
  "can_rx_ble_step env stk mem_pkt st = (case st of (rx, sys) \<Rightarrow> do {
     inp \<leftarrow> mem_pkt_input mem_pkt;
     let r = dec_bledata env inp;
     let ble_addr = pb_fields r;
     (ok, d) \<leftarrow> pb_decode_cb r (\<lambda>tag sub. pb_decode_bytes sub)
                 \<lparr>dp_size = BLEDATA_BUFF_SIZE, dp_data = crx_buf rx\<rparr>;
     sys \<leftarrow>
       (if \<not> ok then Some sys
        else if ble_addr < int (unat GP_CNTRL_HANDLE_END) then
          if gs_state (sys_state sys) = GP_STATE_CONNECTED
          then gopro_send_buf env stk (dp_data d) (of_nat (dp_size d)) (word_of_int ble_addr) sys
          else Some sys
        else if ble_addr = BLE_ADDR_SET_WIFI_CRED
        then gopro_decode_wifi_cred env (take (dp_size d) (dp_data d)) sys
        else Some sys);
     Some (\<lparr>crx_buf = dp_data d, crx_sem = k_sem_give 1 (crx_sem rx)\<rparr>, sys)
   })"

subsection \<open>Sending a CAN message to the camera\<close>

lemma send_buf_short:
  assumes "unat len \<le> 20" and "unat len \<le> length data" and "length stk = 20"
  shows "\<exists>f. send_buf_frames stk data len ty = Some [f] \<and> wf_cmd f \<and> cmd_type f = ucast ty \<and>
    cmd_len f = len \<and> frame_bytes f = take (unat len) data"
proof -
  have c: "len \<le> 20" using assms(1) by (simp add: word_le_nat_alt)
  show ?thesis using assms c by (simp add: send_buf_frames_def wf_cmd_def frame_bytes_def)
qed

lemma send_buf_long:
  assumes l: "20 < unat len" "unat len < 8191" and d: "unat len \<le> length data"
  shows "\<exists>f fs. send_buf_frames stk data len ty = Some (f # fs) \<and>
    wf_cmd f \<and> cmd_type f = ucast ty \<and> cmd_len f = 20 \<and>
    cmd_data f = [hdr13_0 len, hdr13_1 len] @ take 18 data \<and>
    (\<forall>g \<in> set fs. cont_frame (ucast ty) g) \<and>
    map frame_bytes fs = numbered 0 (pieces 19 (drop 18 (take (unat len) data)))"
proof -
  have c: "\<not> len \<le> 20" "len < 8191" using l by (simp_all add: word_le_nat_alt word_less_nat_alt)
  have u: "unat (len - 18) = unat len - 18"
    using l by (intro unat_sub [of 18 len, simplified]) (simp add: word_le_nat_alt)
  define buf where "buf = [hdr13_0 len, hdr13_1 len] @ take 18 data"
  have b: "length buf = 20" using l d by (simp add: buf_def)
  have "18 + unat (len - 18) \<le> length data" using l d u by simp
  from cont_frames_spec [OF this b, of 0 "ucast ty"] obtain fs where
    fs: "cont_frames data 18 (unat (len - 18)) 0 (ucast ty) buf = Some fs"
      "\<forall>g \<in> set fs. cont_frame (ucast ty) g"
      "map frame_bytes fs = numbered 0 (pieces 19 (take (unat len - 18) (drop 18 data)))"
    using u by auto
  define f where "f = \<lparr>cmd_len = 20 :: u32, cmd_type = ucast ty :: u32, cmd_data = buf\<rparr>"
  have "rd_block data 0 18 = Some (take 18 data)" using l d by simp
  then have "send_buf_frames stk data len ty = Some (f # fs)"
    using c fs(1) by (simp add: send_buf_frames_def buf_def f_def)
  then show ?thesis using fs(2,3) b
    by (intro exI [of _ f] exI [of _ fs]) (simp add: f_def wf_cmd_def drop_take buf_def)
qed

lemma send_buf_frames_wf:
  assumes "unat len \<le> length data" and "length stk = 20"
  shows "\<exists>fs. send_buf_frames stk data len ty = Some fs \<and> list_all wf_cmd fs"
proof -
  consider "unat len \<le> 20" | "20 < unat len" "unat len < 8191" | "8191 \<le> unat len" by linarith
  then show ?thesis
  proof cases
    case 1
    from send_buf_short [OF 1 assms, of ty] show ?thesis by auto
  next
    case 2
    from send_buf_long [OF 2 assms(1), of stk ty] show ?thesis
      by (auto simp: cont_frame_def list_all_iff)
  next
    case 3
    then have "\<not> len \<le> 20" "\<not> len < 8191" by (simp_all add: word_le_nat_alt word_less_nat_alt)
    then show ?thesis by (simp add: send_buf_frames_def)
  qed
qed

definition wf_can_rx :: "can_rx_t \<Rightarrow> bool" where
  "wf_can_rx rx \<longleftrightarrow> length (crx_buf rx) = BLEDATA_BUFF_SIZE \<and> crx_sem rx \<le> 1"

definition wf_mem_pkt :: "mem_pkt_t \<Rightarrow> bool" where
  "wf_mem_pkt p \<longleftrightarrow> (case mp_data p of None \<Rightarrow> mp_len p = 0
                                      | Some d \<Rightarrow> mp_len p = int (length d))"

lemma mem_pkt_input_Some: "wf_mem_pkt p \<Longrightarrow> \<exists>inp. mem_pkt_input p = Some inp"
  by (auto simp: wf_mem_pkt_def mem_pkt_input_def split: option.splits)

lemma bledata_decode:
  assumes "length buf = BLEDATA_BUFF_SIZE"
  shows "\<exists>ok d. pb_decode_cb r (\<lambda>tag sub. pb_decode_bytes sub) \<lparr>dp_size = BLEDATA_BUFF_SIZE, dp_data = buf\<rparr>
      = Some (ok, d) \<and> dp_size d \<le> BLEDATA_BUFF_SIZE \<and> length (dp_data d) = BLEDATA_BUFF_SIZE"
proof -
  define I where "I d \<longleftrightarrow> wf_data_ptr d \<and> length (dp_data d) = BLEDATA_BUFF_SIZE" for d
  have "\<exists>ok d. pb_decode_cb r (\<lambda>tag sub. pb_decode_bytes sub) \<lparr>dp_size = BLEDATA_BUFF_SIZE, dp_data = buf\<rparr>
      = Some (ok, d) \<and> I d"
  proof (rule pb_decode_cb_total)
    show "I \<lparr>dp_size = BLEDATA_BUFF_SIZE, dp_data = buf\<rparr>"
      using assms by (simp add: I_def wf_data_ptr_def)
    fix tag :: nat and sub d
    assume "I d"
    then show "\<exists>ok d'. pb_decode_bytes sub d = Some (ok, d') \<and> I d'"
      using pb_decode_bytes_wf [of d sub] by (auto simp: I_def)
  qed
  then show ?thesis by (auto simp: I_def wf_data_ptr_def)
qed

text \<open>
  A round of the task on a packet whose length is that of its buffer makes no access outside
  an object, whatever the packet's contents decode to, and gives the receive semaphore.
\<close>

lemma can_rx_ble_total:
  assumes p: "wf_mem_pkt p" and rx: "wf_can_rx rx" and wf: "wf_sys sys" and stk: "length stk = 20"
  shows "\<exists>rx' sys'. can_rx_ble_step env stk p (rx, sys) = Some (rx', sys') \<and> wf_can_rx rx' \<and>
    crx_sem rx' = 1 \<and> handler_ok sys sys'"
proof -
  obtain inp where i: "mem_pkt_input p = Some inp" using mem_pkt_input_Some [OF p] by blast
  define r where "r = dec_bledata env inp"
  obtain ok d where d: "pb_decode_cb r (\<lambda>tag sub. pb_decode_bytes sub)
      \<lparr>dp_size = BLEDATA_BUFF_SIZE, dp_data = crx_buf rx\<rparr> = Some (ok, d)"
    "dp_size d \<le> BLEDATA_BUFF_SIZE" "length (dp_data d) = BLEDATA_BUFF_SIZE"
    using bledata_decode [of "crx_buf rx" r] rx by (auto simp: wf_can_rx_def)
  have un: "unat (of_nat (dp_size d) :: u32) = dp_size d"
    using d(2) by (simp add: unat_of_nat)
  obtain fs where fs: "send_buf_frames stk (dp_data d) (of_nat (dp_size d)) (word_of_int (pb_fields r)) = Some fs"
    "list_all wf_cmd fs"
    using send_buf_frames_wf [of "of_nat (dp_size d)" "dp_data d" stk] d(2,3) stk un by auto
  have snd: "\<exists>s. gopro_send_buf env stk (dp_data d) (of_nat (dp_size d)) (word_of_int (pb_fields r)) sys = Some s \<and>
      handler_ok sys s"
    using fs by (simp add: gopro_send_buf_def handler_ok_pub_all)
  have cred: "\<exists>s. gopro_decode_wifi_cred env (take (dp_size d) (dp_data d)) sys = Some s \<and> handler_ok sys s"
    using wifi_cred_wf [of sys env "take (dp_size d) (dp_data d)"] wf by (auto simp: wf_sys_def)
  have "\<exists>s. (if \<not> ok then Some sys
        else if pb_fields r < int (unat GP_CNTRL_HANDLE_END) then
          if gs_state (sys_state sys) = GP_STATE_CONNECTED
          then gopro_send_buf env stk (dp_data d) (of_nat (dp_size d)) (word_of_int (pb_fields r)) sys
          else Some sys
        else if pb_fields r = BLE_ADDR_SET_WIFI_CRED
        then gopro_decode_wifi_cred env (take (dp_size d) (dp_data d)) sys
        else Some sys) = Some s \<and> handler_ok sys s"
    using snd cred by (simp split: if_split)
  then obtain s where s: "(if \<not> ok then Some sys
        else if pb_fields r < int (unat GP_CNTRL_HANDLE_END) then
          if gs_state (sys_state sys) = GP_STATE_CONNECTED
          then gopro_send_buf env stk (dp_data d) (of_nat (dp_size d)) (word_of_int (pb_fields r)) sys
          else Some sys
        else if pb_fields r = BLE_ADDR_SET_WIFI_CRED
        then gopro_decode_wifi_cred env (take (dp_size d) (dp_data d)) sys
        else Some sys) = Some s" "handler_ok sys s" by blast
  have "can_rx_ble_step env stk p (rx, sys) =
      Some (\<lparr>crx_buf = dp_data d, crx_sem = k_sem_give 1 (crx_sem rx)\<rparr>, s)"
    unfolding can_rx_ble_step_def prod.case i bind.simps Let_def r_def [symmetric] d(1) s(1) ..
  then show ?thesis
    using s(2) d(3) by (simp add: wf_can_rx_def k_sem_give_def)
qed

text \<open>A payload of at most 20 bytes for a valid address goes out as one frame, unchanged.\<close>

lemma can_rx_ble_raw:
  assumes p: "wf_mem_pkt p" "mem_pkt_input p = Some inp"
    and r: "dec_bledata env inp = \<lparr>pb_fields = addr, pb_subs = [(2, msg)], pb_ok = True\<rparr>"
    and a: "0 \<le> addr" "addr < 4" and l: "length msg \<le> 20"
    and rx: "wf_can_rx rx" and stk: "length stk = 20" and st: "gs_state (sys_state sys) = GP_STATE_CONNECTED"
    and ch: "\<And>c. env_cmd_chan env c = OK"
  shows "\<exists>rx' sys' f. can_rx_ble_step env stk p (rx, sys) = Some (rx', sys') \<and>
    sys_cmd_queue sys' = sys_cmd_queue sys @ [f] \<and> cmd_type f = word_of_int addr \<and> frame_bytes f = msg"
proof -
  define d where "d = \<lparr>dp_size = length msg, dp_data = msg @ drop (length msg) (crx_buf rx)\<rparr>"
  have dec: "pb_decode_cb (dec_bledata env inp) (\<lambda>tag sub. pb_decode_bytes sub)
      \<lparr>dp_size = BLEDATA_BUFF_SIZE, dp_data = crx_buf rx\<rparr> = Some (True, d)"
    using rx l by (simp add: pb_decode_cb_def r pb_decode_bytes_ok wf_data_ptr_def wf_can_rx_def d_def)
  have u: "unat (of_nat (length msg) :: u32) = length msg" using l by (simp add: unat_of_nat)
  obtain f where f: "send_buf_frames stk (dp_data d) (of_nat (length msg)) (word_of_int addr) = Some [f]"
    "wf_cmd f" "cmd_type f = ucast (word_of_int addr :: u8)" "cmd_len f = of_nat (length msg)"
    "frame_bytes f = msg"
    using send_buf_short [of "of_nat (length msg)" "dp_data d" stk "word_of_int addr"] l u stk
    by (auto simp: d_def)
  have ad: "addr \<in> {0, 1, 2, 3}" using a by auto
  then have ty: "cmd_type f = word_of_int addr" "cmd_type f \<in> {0, 1, 2, 3}" using f(3) by auto
  have "gopro_cmd_validator (sys_state sys) f"
    using st f(4) u l ty(2) by (intro validator_accepts) simp_all
  then have q: "sys_cmd_queue (snd (cmd_chan_pub env f sys)) = sys_cmd_queue sys @ [f]"
    by (simp add: cmd_chan_pub_def ch)
  have "can_rx_ble_step env stk p (rx, sys) =
      Some (\<lparr>crx_buf = dp_data d, crx_sem = k_sem_give 1 (crx_sem rx)\<rparr>, snd (cmd_chan_pub env f sys))"
    using p dec a st f(1) r
    by (simp add: can_rx_ble_step_def gopro_send_buf_def d_def)
  then show ?thesis using q ty(1) f(5) by blast
qed

text \<open>
  The address is signed and only bounded from above, and is cut to a byte on its way out: the
  address \<open>- 1\<close> becomes the type \<open>0xFF\<close> of the board's own control commands. A message of one
  byte from the bus so becomes a control command, such as the one that removes the bonds.
\<close>

lemma negative_address_is_control:
  assumes p: "mem_pkt_input p = Some inp"
    and r: "dec_bledata env inp = \<lparr>pb_fields = - 1, pb_subs = [(2, [x])], pb_ok = True\<rparr>"
    and rx: "wf_can_rx rx" and stk: "length stk = 20" and st: "gs_state (sys_state sys) = GP_STATE_CONNECTED"
    and ch: "\<And>c. env_cmd_chan env c = OK"
  shows "\<exists>rx' sys' f. can_rx_ble_step env stk p (rx, sys) = Some (rx', sys') \<and>
    sys_cmd_queue sys' = sys_cmd_queue sys @ [f] \<and> cmd_type f = 0xFF \<and> cmd_len f = 1 \<and> cmd_data f ! 0 = x"
proof -
  define d where "d = \<lparr>dp_size = 1, dp_data = x # drop 1 (crx_buf rx)\<rparr>"
  have dec: "pb_decode_cb (dec_bledata env inp) (\<lambda>tag sub. pb_decode_bytes sub)
      \<lparr>dp_size = BLEDATA_BUFF_SIZE, dp_data = crx_buf rx\<rparr> = Some (True, d)"
    using rx by (simp add: pb_decode_cb_def r pb_decode_bytes_ok wf_data_ptr_def wf_can_rx_def d_def)
  obtain f where f: "send_buf_frames stk (dp_data d) 1 0xFF = Some [f]" "cmd_type f = ucast (0xFF :: u8)"
    "cmd_len f = 1" "frame_bytes f = [x]"
    using send_buf_short [of 1 "dp_data d" stk "0xFF"] stk by (auto simp: d_def)
  have "gopro_cmd_validator (sys_state sys) f" using f(2) by (simp add: gopro_cmd_validator_def)
  then have q: "sys_cmd_queue (snd (cmd_chan_pub env f sys)) = sys_cmd_queue sys @ [f]"
    by (simp add: cmd_chan_pub_def ch)
  have "(- 1 :: u8) = 0xFF" by simp
  then have s: "send_buf_frames stk (dp_data d) 1 (- 1) = Some [f]" using f(1) by metis
  have "can_rx_ble_step env stk p (rx, sys) =
      Some (\<lparr>crx_buf = dp_data d, crx_sem = k_sem_give 1 (crx_sem rx)\<rparr>, snd (cmd_chan_pub env f sys))"
    using p dec st s r by (simp add: can_rx_ble_step_def gopro_send_buf_def d_def)
  moreover have "cmd_data f ! 0 = x"
    using f(3,4) by (cases "cmd_data f") (simp_all add: frame_bytes_def)
  ultimately show ?thesis using q f(2,3) by auto
qed

text \<open>
  A message without a data field leaves the size of the buffer as it was set before the decoding:
  the camera is sent all 2048 bytes that are in it, whatever message they come from.
\<close>

lemma missing_data_sends_buffer:
  assumes p: "mem_pkt_input p = Some inp"
    and r: "dec_bledata env inp = \<lparr>pb_fields = addr, pb_subs = [], pb_ok = True\<rparr>"
    and a: "0 \<le> addr" "addr < 4"
    and rx: "wf_can_rx rx" and stk: "length stk = 20" and st: "gs_state (sys_state sys) = GP_STATE_CONNECTED"
    and ch: "\<And>c. env_cmd_chan env c = OK"
  shows "\<exists>rx' sys' f fs. can_rx_ble_step env stk p (rx, sys) = Some (rx', sys') \<and>
    sys_cmd_queue sys' = sys_cmd_queue sys @ f # fs \<and>
    frame_bytes f = [hdr13_0 2048, hdr13_1 2048] @ take 18 (crx_buf rx) \<and>
    map frame_bytes fs = numbered 0 (pieces 19 (drop 18 (crx_buf rx)))"
proof -
  define d where "d = \<lparr>dp_size = BLEDATA_BUFF_SIZE, dp_data = crx_buf rx\<rparr>"
  have l: "length (crx_buf rx) = 2048" using rx by (simp add: wf_can_rx_def)
  have dec: "pb_decode_cb (dec_bledata env inp) (\<lambda>tag sub. pb_decode_bytes sub) d = Some (True, d)"
    by (simp add: pb_decode_cb_def r)
  have ad: "addr \<in> {0, 1, 2, 3}" using a by auto
  obtain f fs where f: "send_buf_frames stk (crx_buf rx) 2048 (word_of_int addr) = Some (f # fs)"
    "wf_cmd f" "cmd_type f = ucast (word_of_int addr :: u8)" "cmd_len f = 20"
    "cmd_data f = [hdr13_0 2048, hdr13_1 2048] @ take 18 (crx_buf rx)"
    "\<forall>g \<in> set fs. cont_frame (ucast (word_of_int addr :: u8)) g"
    "map frame_bytes fs = numbered 0 (pieces 19 (drop 18 (crx_buf rx)))"
    using send_buf_long [of 2048 "crx_buf rx" stk "word_of_int addr"] l by auto
  have "\<forall>g \<in> set (f # fs). gopro_cmd_validator (sys_state sys) g"
    using st f(3,4,6) ad by (auto intro!: validator_accepts simp: cont_frame_def)
  then have q: "sys_cmd_queue (pub_all (cmd_chan_pub env) (f # fs) sys) = sys_cmd_queue sys @ f # fs"
    by (intro cmd_chan.pub_all_accepted) (auto simp: cmd_chan_pub_def ch)
  have "can_rx_ble_step env stk p (rx, sys) =
      Some (\<lparr>crx_buf = crx_buf rx, crx_sem = k_sem_give 1 (crx_sem rx)\<rparr>, pub_all (cmd_chan_pub env) (f # fs) sys)"
    using p dec st f(1) r a by (simp add: can_rx_ble_step_def gopro_send_buf_def d_def)
  moreover have "frame_bytes f = [hdr13_0 2048, hdr13_1 2048] @ take 18 (crx_buf rx)"
    using f(4,5) l by (simp add: frame_bytes_def)
  ultimately show ?thesis using f(7) q by blast
qed

end
