(* ===== verification/Hw_Info.thy ===== *)
theory Hw_Info
  imports Protobuf
begin

section \<open>The hardware information message (\<^verbatim>\<open>gopro_packet.c\<close>)\<close>

text \<open>
  \<open>b\<close> is the reassembled message, \<open>i\<close> the C variable \<^verbatim>\<open>index\<close> (relative to \<^verbatim>\<open>pdata\<close>, which
  is two bytes into the message). Each string is preceded by its length; a length that does
  not fit the destination ends the parse, with what was stored before it kept.
\<close>

datatype hw_result = HW_Invalid string | HW_Parsed u32 bool

fun hw_model_loop :: "bytes \<Rightarrow> nat \<Rightarrow> nat \<Rightarrow> u32 \<Rightarrow> u32 option" where
  "hw_model_loop b i 0 v = Some v"
| "hw_model_loop b i (Suc k) v = do {
     x \<leftarrow> rd b (2 + i);
     hw_model_loop b (Suc i) k (v OR push_bit (8 * k) (ucast x))
   }"

definition hw_field ::
    "('s \<Rightarrow> bytes) \<Rightarrow> (bytes \<Rightarrow> 's \<Rightarrow> 's) \<Rightarrow> string \<Rightarrow> bytes \<Rightarrow> nat \<Rightarrow> 's \<Rightarrow>
     (nat \<Rightarrow> 's \<Rightarrow> (hw_result \<times> 's) option) \<Rightarrow> (hw_result \<times> 's) option" where
  "hw_field get put name b i s continue = do {
     l \<leftarrow> rd b (2 + i);
     if 20 \<le> unat l then Some (HW_Invalid name, s)
     else do {
       s \<leftarrow> store_field get put s b (2 + (i + 1)) (unat l);
       continue (i + 1 + unat l) s
     }
   }"

definition hw_skip ::
    "bytes \<Rightarrow> nat \<Rightarrow> 's \<Rightarrow> (nat \<Rightarrow> 's \<Rightarrow> (hw_result \<times> 's) option) \<Rightarrow> (hw_result \<times> 's) option" where
  "hw_skip b i s continue = do { d \<leftarrow> rd b (2 + i); continue (i + 1 + unat d) s }"

definition hw_info_strings ::
    "bytes \<Rightarrow> u32 \<Rightarrow> u32 \<Rightarrow> nat \<Rightarrow> gopro_state_t \<Rightarrow> (hw_result \<times> gopro_state_t) option" where
  "hw_info_strings b model len i s =
     hw_field gs_model_name (\<lambda>v. gs_model_name_update (\<lambda>_. v)) ''model name'' b i s
     (\<lambda>i s. hw_skip b i s
     (\<lambda>i s. hw_field gs_firmware_version (\<lambda>v. gs_firmware_version_update (\<lambda>_. v)) ''firmware_version'' b i s
     (\<lambda>i s. hw_field gs_serial_number (\<lambda>v. gs_serial_number_update (\<lambda>_. v)) ''serial_number'' b i s
     (\<lambda>i s. hw_field gs_wifi_ssid (\<lambda>v. gs_wifi_ssid_update (\<lambda>_. v)) ''ap_ssid'' b i s
     (\<lambda>i s. hw_field gs_ap_mac (\<lambda>v. gs_ap_mac_update (\<lambda>_. v)) ''ap_mac_address_length'' b i s
     (\<lambda>i s. Some (HW_Parsed model (of_nat (i + 11) = len), s)))))))"

definition hw_info_fields :: "bytes \<Rightarrow> u32 \<Rightarrow> gopro_state_t \<Rightarrow> (hw_result \<times> gopro_state_t) option" where
  "hw_info_fields b len s = do {
     ml \<leftarrow> rd b 2;
     if 4 < unat ml then Some (HW_Invalid ''model number'', s)
     else do {
       model \<leftarrow> hw_model_loop b 1 (unat ml) 0;
       hw_info_strings b model len (1 + unat ml) s
     }
   }"

definition gopro_parse_response_hw_info :: "bytes \<Rightarrow> u32 \<Rightarrow> gopro_sys \<Rightarrow> (hw_result \<times> gopro_sys) option" where
  "gopro_parse_response_hw_info b len sys = do {
     (r, s) \<leftarrow> hw_info_fields b len (sys_state sys);
     Some (r, sys\<lparr>sys_state := s\<rparr>)
   }"

subsection \<open>Every string field keeps the declared sizes\<close>

definition keeps :: "('s \<Rightarrow> bool) \<Rightarrow> (nat \<Rightarrow> 's \<Rightarrow> (hw_result \<times> 's) option) \<Rightarrow> bool" where
  "keeps I k \<longleftrightarrow> (\<forall>i s r s'. I s \<longrightarrow> k i s = Some (r, s') \<longrightarrow> I s')"

lemma keepsD: "keeps I k \<Longrightarrow> I s \<Longrightarrow> k i s = Some (r, s') \<Longrightarrow> I s'"
  by (simp add: keeps_def)

lemma keeps_end: "keeps I (\<lambda>i s. Some (f i, s))"
  by (simp add: keeps_def)

lemma keeps_skip: "keeps I k \<Longrightarrow> keeps I (\<lambda>i s. hw_skip b i s k)"
  unfolding keeps_def hw_skip_def by (auto simp: bind_eq_Some_conv)

context char_field
begin

lemma keeps_field: "keeps wf k \<Longrightarrow> keeps wf (\<lambda>i s. hw_field get put name b i s k)"
  unfolding keeps_def hw_field_def
  by (auto simp: bind_eq_Some_conv split: if_split_asm dest: store_wf)

lemma hw_field_step:
  assumes "wf s" and "size = 20" and "length v < 20" and p: "length pre = 2 + i"
  shows "hw_field get put name (pre @ of_nat (length v) # v @ post) i s k =
    k (i + 1 + length v) (put (v @ 0 # drop (Suc (length v)) (get s)) s)"
proof -
  let ?b = "pre @ of_nat (length v) # v @ post"
  have u: "unat (of_nat (length v) :: u8) = length v"
    using assms(3) by (simp add: unat_of_nat)
  have r: "rd ?b (2 + i) = Some (of_nat (length v))"
    using p by (simp add: rd_def nth_append)
  have t: "take (length v) (drop (2 + (i + 1)) ?b) = v"
    using p by simp
  have "store_field get put s ?b (2 + (i + 1)) (length v) =
      Some (put (v @ 0 # drop (Suc (length v)) (get s)) s)"
    using store_Some [OF assms(1), of "2 + (i + 1)" "length v" ?b] assms(2,3) p unfolding t by simp
  then show ?thesis
    unfolding hw_field_def r using assms(3) u by simp
qed

end

lemmas hw_keeps = keeps_end keeps_skip model_name_f.keeps_field firmware_f.keeps_field
  serial_f.keeps_field wifi_ssid_f.keeps_field ap_mac_f.keeps_field

lemma hw_strings_keeps: "keeps wf_state (hw_info_strings b model len)"
  unfolding hw_info_strings_def [abs_def] by (intro hw_keeps)

text \<open>The connection state is not among the fields.\<close>

lemma keeps_other_field:
  assumes "\<And>v s. I (put v s) = I s" and "keeps I k"
  shows "keeps I (\<lambda>i s. hw_field get put name b i s k)"
  using assms unfolding keeps_def hw_field_def
  by (auto simp: bind_eq_Some_conv store_field_def split: if_split_asm) metis

lemma hw_strings_keeps_conn: "keeps (\<lambda>s. gs_state s = q) (hw_info_strings b model len)"
  unfolding hw_info_strings_def [abs_def] by (intro keeps_end keeps_skip keeps_other_field) simp_all

lemma hw_info_conn:
  assumes "hw_info_fields b len s = Some (r, s')"
  shows "gs_state s' = gs_state s"
proof -
  have "hw_info_strings b m len i s = Some (r, s') \<Longrightarrow> gs_state s' = gs_state s" for m i
    using hw_strings_keeps_conn [of "gs_state s" b m len] unfolding keeps_def by blast
  then show ?thesis
    using assms by (auto simp: hw_info_fields_def bind_eq_Some_conv split: if_split_asm)
qed

lemma hw_info_wf:
  assumes "wf_state s" and "hw_info_fields b len s = Some (r, s')"
  shows "wf_state s'"
  using assms
  by (auto simp: hw_info_fields_def bind_eq_Some_conv split: if_split_asm
      dest: keepsD [OF hw_strings_keeps])

lemma handler_ok_hw_info:
  assumes "gopro_parse_response_hw_info b len sys = Some (r, sys')"
  shows "handler_ok sys sys'"
proof -
  obtain s where s: "hw_info_fields b len (sys_state sys) = Some (r, s)" and e: "sys' = sys\<lparr>sys_state := s\<rparr>"
    using assms by (auto simp: gopro_parse_response_hw_info_def bind_eq_Some_conv)
  have "wf_sys sys \<Longrightarrow> wf_sys (sys\<lparr>sys_state := s\<rparr>)"
    using hw_info_wf [OF _ s] by (simp add: wf_sys_def)
  then show ?thesis using hw_info_conn [OF s] by (simp add: handler_ok_def e)
qed

subsection \<open>Reading what the camera sends\<close>

record hw_info =
  hw_model :: bytes
  hw_name :: bytes
  hw_deprecated :: bytes
  hw_firmware :: bytes
  hw_serial :: bytes
  hw_ssid :: bytes
  hw_mac :: bytes

definition lstr :: "bytes \<Rightarrow> bytes" where
  "lstr v = of_nat (length v) # v"

definition enc_hw_info :: "hw_info \<Rightarrow> bytes" where
  "enc_hw_info h = lstr (hw_model h) @ lstr (hw_name h) @ lstr (hw_deprecated h) @
     lstr (hw_firmware h) @ lstr (hw_serial h) @ lstr (hw_ssid h) @ lstr (hw_mac h)"

definition c_text :: "bytes \<Rightarrow> bool" where
  "c_text v \<longleftrightarrow> length v < 20 \<and> 0 \<notin> set v"

definition wf_hw_info :: "hw_info \<Rightarrow> bool" where
  "wf_hw_info h \<longleftrightarrow> length (hw_model h) \<le> 4 \<and> c_text (hw_name h) \<and> length (hw_deprecated h) < 256 \<and>
     c_text (hw_firmware h) \<and> c_text (hw_serial h) \<and> c_text (hw_ssid h) \<and> c_text (hw_mac h)"

definition hw_info_in :: "gopro_state_t \<Rightarrow> hw_info \<Rightarrow> bool" where
  "hw_info_in s h \<longleftrightarrow>
     c_string (gs_model_name s) = hw_name h \<and> c_string (gs_firmware_version s) = hw_firmware h \<and>
     c_string (gs_serial_number s) = hw_serial h \<and> c_string (gs_wifi_ssid s) = hw_ssid h \<and>
     c_string (gs_ap_mac s) = hw_mac h"

lemma length_lstr [simp]: "length (lstr v) = Suc (length v)"
  by (simp add: lstr_def)

lemma unat_lstr: "length v < 256 \<Longrightarrow> unat (of_nat (length v) :: u8) = length v"
  by (simp add: unat_of_nat)

text \<open>The model number is read most significant byte first.\<close>

lemma hw_model_loop_total:
  "2 + i + k \<le> length b \<Longrightarrow> \<exists>v. hw_model_loop b i k w = Some v"
  by (induction k arbitrary: i w) auto

definition reads :: "bytes \<Rightarrow> nat \<Rightarrow> bytes \<Rightarrow> bool" where
  "reads b i v \<longleftrightarrow> (\<exists>pre post. b = pre @ lstr v @ post \<and> length pre = 2 + i)"

definition stored :: "bytes \<Rightarrow> bytes \<Rightarrow> bytes" where
  "stored v old = v @ 0 # drop (Suc (length v)) old"

lemma readsI: "b = pre @ lstr v @ post \<Longrightarrow> length pre = 2 + i \<Longrightarrow> reads b i v"
  by (auto simp: reads_def)

lemma c_string_stored: "c_text v \<Longrightarrow> c_string (stored v old) = v"
  by (simp add: stored_def c_text_def c_string_append_0)

context char_field
begin

lemma hw_field_reads:
  assumes "wf s" and "size = 20" and "c_text v" and "reads b i v"
  shows "hw_field get put name b i s k = k (i + 1 + length v) (put (stored v (get s)) s)"
proof -
  obtain pre post where b: "b = pre @ lstr v @ post" "length pre = 2 + i"
    using assms(4) by (auto simp: reads_def)
  show ?thesis
    using hw_field_step [OF assms(1,2) _ b(2), of v name post k] assms(3) b
    by (simp add: lstr_def stored_def c_text_def)
qed

lemma wf_stored: "wf s \<Longrightarrow> size = 20 \<Longrightarrow> c_text v \<Longrightarrow> wf (put (stored v (get s)) s)"
  by (rule wf_put) (simp_all add: stored_def c_text_def wf_get)

end

lemma hw_skip_reads:
  assumes "length v < 256" and "reads b i v"
  shows "hw_skip b i s k = k (i + 1 + length v) s"
  using assms by (auto simp: hw_skip_def rd_def nth_append lstr_def unat_lstr reads_def)

lemma hw_strings_read:
  assumes wf: "wf_state s" and h: "wf_hw_info h"
    and b: "reads b i (hw_name h)" "reads b (i + 1 + length (hw_name h)) (hw_deprecated h)"
      "i1 = i + 1 + length (hw_name h) + 1 + length (hw_deprecated h)"
      "reads b i1 (hw_firmware h)" "i2 = i1 + 1 + length (hw_firmware h)"
      "reads b i2 (hw_serial h)" "i3 = i2 + 1 + length (hw_serial h)"
      "reads b i3 (hw_ssid h)" "i4 = i3 + 1 + length (hw_ssid h)" "reads b i4 (hw_mac h)"
  shows "\<exists>s'. hw_info_strings b model len i s =
      Some (HW_Parsed model (of_nat (i4 + 1 + length (hw_mac h) + 11) = len), s') \<and>
    wf_state s' \<and> hw_info_in s' h"
proof -
  have hs: "c_text (hw_name h)" "length (hw_deprecated h) < 256"
    "c_text (hw_firmware h)" "c_text (hw_serial h)" "c_text (hw_ssid h)" "c_text (hw_mac h)"
    using h by (simp_all add: wf_hw_info_def)
  define s1 where "s1 = s\<lparr>gs_model_name := stored (hw_name h) (gs_model_name s)\<rparr>"
  define s2 where "s2 = s1\<lparr>gs_firmware_version := stored (hw_firmware h) (gs_firmware_version s1)\<rparr>"
  define s3 where "s3 = s2\<lparr>gs_serial_number := stored (hw_serial h) (gs_serial_number s2)\<rparr>"
  define s4 where "s4 = s3\<lparr>gs_wifi_ssid := stored (hw_ssid h) (gs_wifi_ssid s3)\<rparr>"
  define s5 where "s5 = s4\<lparr>gs_ap_mac := stored (hw_mac h) (gs_ap_mac s4)\<rparr>"
  have w1: "wf_state s1" unfolding s1_def by (rule model_name_f.wf_stored [OF wf refl hs(1)])
  have w2: "wf_state s2" unfolding s2_def by (rule firmware_f.wf_stored [OF w1 refl hs(3)])
  have w3: "wf_state s3" unfolding s3_def by (rule serial_f.wf_stored [OF w2 refl hs(4)])
  have w4: "wf_state s4" unfolding s4_def by (rule wifi_ssid_f.wf_stored [OF w3 refl hs(5)])
  have w5: "wf_state s5" unfolding s5_def by (rule ap_mac_f.wf_stored [OF w4 refl hs(6)])
  note steps = model_name_f.hw_field_reads [OF wf refl hs(1) b(1), folded s1_def]
    hw_skip_reads [OF hs(2) b(2), folded b(3)]
    firmware_f.hw_field_reads [OF w1 refl hs(3) b(4), folded s2_def b(5)]
    serial_f.hw_field_reads [OF w2 refl hs(4) b(6), folded s3_def b(7)]
    wifi_ssid_f.hw_field_reads [OF w3 refl hs(5) b(8), folded s4_def b(9)]
    ap_mac_f.hw_field_reads [OF w4 refl hs(6) b(10), folded s5_def]
  have "hw_info_strings b model len i s =
      Some (HW_Parsed model (of_nat (i4 + 1 + length (hw_mac h) + 11) = len), s5)"
    unfolding hw_info_strings_def by (simp only: steps)
  moreover have "hw_info_in s5 h"
    using hs by (simp add: hw_info_in_def s5_def s4_def s3_def s2_def s1_def c_string_stored)
  ultimately show ?thesis using w5 by blast
qed

lemma hw_info_read:
  assumes wf: "wf_state s" and h: "wf_hw_info h" and t: "length trail = 11"
    and len: "len = of_nat (length (enc_hw_info h @ trail))"
  shows "\<exists>model s'. hw_info_fields ([f, a] @ enc_hw_info h @ trail) len s = Some (HW_Parsed model True, s') \<and>
    wf_state s' \<and> hw_info_in s' h"
proof -
  define b where "b = [f, a] @ enc_hw_info h @ trail"
  define m where "m = length (hw_model h)"
  have m: "m \<le> 4" using h by (simp add: wf_hw_info_def m_def)
  obtain model where model: "hw_model_loop b 1 m 0 = Some model"
    using hw_model_loop_total [of 1 m b 0] by (auto simp: b_def enc_hw_info_def m_def)
  have r2: "rd b 2 = Some (of_nat m)"
    by (simp add: b_def enc_hw_info_def lstr_def rd_def m_def)
  have u: "unat (of_nat m :: u8) = m" using m unat_lstr [of "hw_model h"] by (simp add: m_def)
  have start: "hw_info_fields b len s = hw_info_strings b model len (1 + m) s"
    using m by (simp add: hw_info_fields_def r2 u model del: One_nat_def)
  define q where "q = [f, a] @ lstr (hw_model h)"
  define q1 where "q1 = q @ lstr (hw_name h)"
  define q2 where "q2 = q1 @ lstr (hw_deprecated h)"
  define q3 where "q3 = q2 @ lstr (hw_firmware h)"
  define q4 where "q4 = q3 @ lstr (hw_serial h)"
  define q5 where "q5 = q4 @ lstr (hw_ssid h)"
  note qs = q1_def q2_def q3_def q4_def q5_def q_def
  have fin: "length q5 - 2 + 1 + length (hw_mac h) + 11 = length (enc_hw_info h @ trail)"
    using t by (simp add: qs enc_hw_info_def)
  have "\<exists>s'. hw_info_strings b model len (1 + m) s =
      Some (HW_Parsed model (of_nat (length q5 - 2 + 1 + length (hw_mac h) + 11) = len), s') \<and>
    wf_state s' \<and> hw_info_in s' h"
  proof (rule hw_strings_read [OF wf h, where ?i1.0 = "length q2 - 2" and ?i2.0 = "length q3 - 2"
        and ?i3.0 = "length q4 - 2"])
    show "reads b (1 + m) (hw_name h)"
      by (rule readsI [of _ q]) (simp_all add: b_def qs enc_hw_info_def m_def)
    show "reads b (1 + m + 1 + length (hw_name h)) (hw_deprecated h)"
      by (rule readsI [of _ q1]) (simp_all add: b_def qs enc_hw_info_def m_def)
    show "reads b (length q2 - 2) (hw_firmware h)"
      by (rule readsI [of _ q2]) (simp_all add: b_def qs enc_hw_info_def m_def)
    show "reads b (length q3 - 2) (hw_serial h)"
      by (rule readsI [of _ q3]) (simp_all add: b_def qs enc_hw_info_def m_def)
    show "reads b (length q4 - 2) (hw_ssid h)"
      by (rule readsI [of _ q4]) (simp_all add: b_def qs enc_hw_info_def m_def)
    show "reads b (length q5 - 2) (hw_mac h)"
      by (rule readsI [of _ q5]) (simp_all add: b_def qs enc_hw_info_def m_def)
  qed (simp_all add: qs m_def)
  moreover have "of_nat (length q5 - 2 + 1 + length (hw_mac h) + 11) = len"
    by (simp only: fin len)
  ultimately have "\<exists>s'. hw_info_strings b model len (1 + m) s = Some (HW_Parsed model True, s') \<and>
    wf_state s' \<and> hw_info_in s' h" by (simp only: simp_thms)
  then show ?thesis unfolding b_def [symmetric] start by blast
qed

end
