(* ===== verification/Dispatch.thy ===== *)
theory Dispatch
  imports Can_Bridge Hw_Info
begin

section \<open>Handing a message to its parser (\<^verbatim>\<open>gopro_packet.c\<close>)\<close>

text \<open>
  A complete message is forwarded to CAN and then handed to the parser its source (the
  characteristic), feature and action name. The block a parser is given is
  \<^verbatim>\<open>&data[2]\<close> with the length \<^verbatim>\<open>packet_len\<close>; when it does not lie inside the message the
  result is \<open>None\<close>.
\<close>

definition pkt_payload :: "gopro_packet_t \<Rightarrow> bytes option" where
  "pkt_payload pk = do { d \<leftarrow> pk_data pk; rd_block d 2 (unat (pk_packet_len pk)) }"

definition parse_generic_in :: "gopro_env \<Rightarrow> gopro_packet_t \<Rightarrow> gopro_sys \<Rightarrow> gopro_sys option" where
  "parse_generic_in env pk sys = do {
     inp \<leftarrow> pkt_payload pk;
     Some (gopro_parse_response_generic env inp sys)
   }"

definition gopro_packet_parse_cmd :: "gopro_env \<Rightarrow> gopro_packet_t \<Rightarrow> gopro_sys \<Rightarrow> gopro_sys option" where
  "gopro_packet_parse_cmd env pk sys =
     (if pk_feature pk = 0xF1 then
        if pk_action pk \<in> {0xE4, 0xE5, 0xE6, 0xE7, 0xE9, 0xEB, 0xF9} then parse_generic_in env pk sys
        else Some sys
      else if pk_feature pk = 0x3C then
        if pk_action pk = 0 then do {
          d \<leftarrow> pk_data pk;
          (r, sys) \<leftarrow> gopro_parse_response_hw_info d (pk_packet_len pk) sys;
          Some (sys\<lparr>sys_hw_sem := k_sem_give 1 (sys_hw_sem sys)\<rparr>)
        }
        else Some sys
      else Some sys)"

definition gopro_packet_parse_query :: "gopro_env \<Rightarrow> gopro_packet_t \<Rightarrow> gopro_sys \<Rightarrow> gopro_sys option" where
  "gopro_packet_parse_query env pk sys =
     (if pk_feature pk = 0xF5 then
        if pk_action pk = 0xEF then do {
          inp \<leftarrow> pkt_payload pk;
          gopro_parse_response_cohn_status env inp sys
        }
        else if pk_action pk = 0xEE then do {
          inp \<leftarrow> pkt_payload pk;
          gopro_parse_response_cohn_cert env inp sys
        }
        else Some sys
      else if pk_feature pk = GOPRO_QUERY_STATUS_REG_STATUS \<or>
              pk_feature pk = GOPRO_QUERY_STATUS_REG_STATUS_NOTIFY then
        if pk_action pk = 0 then do {
          d \<leftarrow> pk_data pk;
          (r, sys) \<leftarrow> gopro_parse_query_status_notify d (ucast (pk_total_len pk)) sys;
          Some sys
        }
        else Some sys
      else if pk_feature pk = GOPRO_QUERY_STATUS_GET_STATUS then
        if pk_action pk = 0 then do {
          d \<leftarrow> pk_data pk;
          (r, sys) \<leftarrow> gopro_parse_query_status_reply d (ucast (pk_total_len pk)) sys;
          Some sys
        }
        else Some sys
      else Some sys)"

definition gopro_packet_parse_net ::
    "gopro_env \<Rightarrow> bytes \<Rightarrow> gopro_packet_t \<Rightarrow> gopro_sys \<Rightarrow> gopro_sys option" where
  "gopro_packet_parse_net env stk pk sys =
     (if pk_feature pk = 0x02 then
        if pk_action pk = 0x0B then do {
          inp \<leftarrow> pkt_payload pk;
          gopro_parse_start_scaning env stk inp sys
        }
        else if pk_action pk = 0x82 then do {
          inp \<leftarrow> pkt_payload pk;
          Some (gopro_parse_request_scan_req env inp sys)
        }
        else if pk_action pk = 0x83 then do {
          inp \<leftarrow> pkt_payload pk;
          (r, sys) \<leftarrow> gopro_parse_ap_entries env stk inp sys;
          Some sys
        }
        else if pk_action pk = 0x84 then do {
          inp \<leftarrow> pkt_payload pk;
          Some (gopro_parse_resp_connect env inp sys)
        }
        else if pk_action pk = 0x85 then do {
          inp \<leftarrow> pkt_payload pk;
          Some (gopro_parse_resp_connect_new env inp sys)
        }
        else if pk_action pk = 0x0C then do {
          inp \<leftarrow> pkt_payload pk;
          Some (gopro_parse_notif_prov_state env inp sys)
        }
        else Some sys
      else if pk_feature pk = 0xF1 then
        if pk_action pk = 0xE6 then parse_generic_in env pk sys
        else if pk_action pk = 0xE7 then parse_generic_in env pk sys
        else Some sys
      else if pk_feature pk = 0x03 then
        if pk_action pk = 0x81 then parse_generic_in env pk sys else Some sys
      else Some sys)"

definition gopro_packet_parse ::
    "gopro_env \<Rightarrow> bytes \<Rightarrow> gopro_packet_t \<Rightarrow> gopro_sys \<Rightarrow> gopro_sys option" where
  "gopro_packet_parse env stk pk sys = do {
     d \<leftarrow> pk_data pk;
     msg \<leftarrow> rd_block d 0 (unat (pk_total_len pk));
     let sys = snd (can_reply env (uint (pk_type pk)) msg sys);
     if pk_type pk = ucast GP_CNTRL_HANDLE_CMD then gopro_packet_parse_cmd env pk sys
     else if pk_type pk = ucast GP_CNTRL_HANDLE_SETTINGS then Some sys
     else if pk_type pk = ucast GP_CNTRL_HANDLE_QUERY then gopro_packet_parse_query env pk sys
     else if pk_type pk = ucast GP_CNTRL_HANDLE_NET then gopro_packet_parse_net env stk pk sys
     else Some sys
   }"

subsection \<open>Every parser keeps the system well-formed\<close>

lemma handler_ok_hw_sem: "handler_ok sys (sys\<lparr>sys_hw_sem := k_sem_give (Suc 0) (sys_hw_sem sys)\<rparr>)"
  using k_sem_give_le [of "Suc 0"] by (simp add: handler_ok_def wf_sys_def)

lemma handler_ok_parse_cmd:
  assumes "gopro_packet_parse_cmd env pk sys = Some sys'"
  shows "handler_ok sys sys'"
  using assms
  by (auto simp: gopro_packet_parse_cmd_def parse_generic_in_def bind_eq_Some_conv handler_ok_simple
      split: if_split_asm intro: handler_ok_trans [OF handler_ok_hw_info handler_ok_hw_sem])

lemma handler_ok_parse_query:
  assumes "alloc_ok env" and "gopro_packet_parse_query env pk sys = Some sys'"
  shows "handler_ok sys sys'"
  using assms(2)
  by (auto simp: gopro_packet_parse_query_def bind_eq_Some_conv split: if_split_asm
      intro: handler_ok_status status_notify_frame status_reply_frame
        handler_ok_cohn_status handler_ok_cohn_cert [OF assms(1)])

lemma handler_ok_parse_net:
  assumes "length stk = 20" and "wf_sys sys" and "gopro_packet_parse_net env stk pk sys = Some sys'"
  shows "handler_ok sys sys'"
  using assms(3)
  by (auto simp: gopro_packet_parse_net_def parse_generic_in_def bind_eq_Some_conv handler_ok_simple
      split: if_split_asm
      intro: handler_ok_start_scaning [OF assms(1)] handler_ok_ap_entries [OF assms(1,2)])

lemma handler_ok_parse:
  assumes env: "alloc_ok env" and stk: "length stk = 20" and wf: "wf_sys sys"
    and p: "gopro_packet_parse env stk pk sys = Some sys'"
  shows "handler_ok sys sys'"
proof -
  obtain msg where m: "pk_data pk \<bind> (\<lambda>d. rd_block d 0 (unat (pk_total_len pk))) = Some msg"
    using p by (auto simp: gopro_packet_parse_def bind_eq_Some_conv)
  define s where "s = snd (can_reply env (uint (pk_type pk)) msg sys)"
  have s: "handler_ok sys s" unfolding s_def by (rule handler_ok_can_reply)
  then have w: "wf_sys s" using wf by (simp add: handler_ok_def)
  have "sys' = s \<or> gopro_packet_parse_cmd env pk s = Some sys' \<or>
      gopro_packet_parse_query env pk s = Some sys' \<or> gopro_packet_parse_net env stk pk s = Some sys'"
    using p m unfolding s_def
    by (auto simp: gopro_packet_parse_def bind_eq_Some_conv Let_def split: if_split_asm)
  then have "handler_ok s sys'"
    by (auto intro: handler_ok_parse_cmd handler_ok_parse_query [OF env] handler_ok_parse_net [OF stk w])
  with s show ?thesis by (rule handler_ok_trans)
qed

text \<open>The parser looks at six fields of the packet only.\<close>

lemma packet_parse_cong:
  assumes eq: "pk_type pk = pk_type pk'" "pk_feature pk = pk_feature pk'" "pk_action pk = pk_action pk'"
    "pk_data pk = pk_data pk'" "pk_total_len pk = pk_total_len pk'" "pk_packet_len pk = pk_packet_len pk'"
  shows "gopro_packet_parse env stk pk sys = gopro_packet_parse env stk pk' sys"
proof -
  have pay: "pkt_payload pk = pkt_payload pk'" by (simp only: pkt_payload_def eq)
  have gen: "parse_generic_in env pk = parse_generic_in env pk'"
    by (rule ext) (simp only: parse_generic_in_def pay)
  have "gopro_packet_parse_cmd env pk = gopro_packet_parse_cmd env pk'"
    by (rule ext) (simp only: gopro_packet_parse_cmd_def gen eq)
  moreover have "gopro_packet_parse_query env pk = gopro_packet_parse_query env pk'"
    by (rule ext) (simp only: gopro_packet_parse_query_def pay eq)
  moreover have "gopro_packet_parse_net env stk pk = gopro_packet_parse_net env stk pk'"
    by (rule ext) (simp only: gopro_packet_parse_net_def gen pay eq)
  ultimately show ?thesis by (simp only: gopro_packet_parse_def eq)
qed

end
