(* ===== verification/Packet_Header.thy ===== *)
theory Packet_Header
  imports Segmentation
begin

section \<open>Frame headers (\<^verbatim>\<open>gopro_packet.c\<close>)\<close>

text \<open>
  The functions that read the header of a BLE frame: its type, the length it announces,
  the feature and action bytes, and where data and payload start. A frame has 20 bytes, so
  the constant indices below are always inside it; the number of bytes actually received
  is \<open>cmd_len\<close>, and the subtractions from it wrap as \<^verbatim>\<open>uint32_t\<close> does.
\<close>

datatype gopro_packet_type_t =
    gopro_packet_5bit | gopro_packet_13bit | gopro_packet_16bit
  | gopro_packet_cont | gopro_packet_invalid

definition gopro_packet_get_type :: "gopro_cmd_t \<Rightarrow> gopro_packet_type_t" where
  "gopro_packet_get_type c =
     (if cmd_data c ! 0 AND 0x80 \<noteq> 0 then gopro_packet_cont
      else let packet_type = drop_bit 5 (cmd_data c ! 0 AND 0x60) in
        if 2 < packet_type then gopro_packet_invalid
        else if packet_type = 0 then gopro_packet_5bit
        else if packet_type = 1 then gopro_packet_13bit
        else gopro_packet_16bit)"

definition gopro_packet_get_len :: "gopro_cmd_t \<Rightarrow> int" where
  "gopro_packet_get_len c =
     (case gopro_packet_get_type c of
        gopro_packet_5bit \<Rightarrow> uint (cmd_data c ! 0 AND 0x1F)
      | gopro_packet_13bit \<Rightarrow> push_bit 8 (uint (cmd_data c ! 0 AND 0x1F)) OR uint (cmd_data c ! 1)
      | gopro_packet_16bit \<Rightarrow> push_bit 8 (uint (cmd_data c ! 1)) OR uint (cmd_data c ! 2)
      | _ \<Rightarrow> - 1)"

text \<open>The old values are kept where the C function does not write through its pointers.\<close>

definition gopro_packet_get_feature :: "gopro_cmd_t \<Rightarrow> u8 \<times> u8 \<Rightarrow> u8 \<times> u8" where
  "gopro_packet_get_feature c old =
     (case gopro_packet_get_type c of
        gopro_packet_5bit \<Rightarrow> (cmd_data c ! 1, cmd_data c ! 2)
      | gopro_packet_13bit \<Rightarrow> (cmd_data c ! 2, cmd_data c ! 3)
      | gopro_packet_16bit \<Rightarrow> (cmd_data c ! 3, cmd_data c ! 4)
      | _ \<Rightarrow> old)"

definition gopro_packet_get_data_ptr :: "gopro_cmd_t \<Rightarrow> u8 \<times> u32" where
  "gopro_packet_get_data_ptr c =
     (case gopro_packet_get_type c of
        gopro_packet_5bit \<Rightarrow> (3, cmd_len c - 3)
      | gopro_packet_13bit \<Rightarrow> (4, cmd_len c - 4)
      | gopro_packet_16bit \<Rightarrow> (5, cmd_len c - 5)
      | gopro_packet_cont \<Rightarrow> (1, cmd_len c - 1)
      | gopro_packet_invalid \<Rightarrow> (0, cmd_len c))"

definition gopro_packet_get_pkt_ptr :: "gopro_cmd_t \<Rightarrow> u8 \<times> u32" where
  "gopro_packet_get_pkt_ptr c =
     (case gopro_packet_get_type c of
        gopro_packet_5bit \<Rightarrow> (1, cmd_len c - 1)
      | gopro_packet_13bit \<Rightarrow> (2, cmd_len c - 2)
      | gopro_packet_16bit \<Rightarrow> (3, cmd_len c - 3)
      | gopro_packet_cont \<Rightarrow> (1, cmd_len c - 1)
      | gopro_packet_invalid \<Rightarrow> (0, cmd_len c))"

subsection \<open>Reading the type\<close>

lemma bit_0x80: "bit (0x80 :: u8) n \<longleftrightarrow> n = 7"
proof -
  have e: "(0x80 :: u8) = 2 ^ 7" by simp
  show ?thesis by (simp only: e bit_exp_iff) auto
qed

lemma bit_0x20: "bit (0x20 :: u8) n \<longleftrightarrow> n = 5"
proof -
  have e: "(0x20 :: u8) = 2 ^ 5" by simp
  show ?thesis by (simp only: e bit_exp_iff) auto
qed

lemma and_0x80: "(x :: u8) AND 0x80 \<noteq> 0 \<longleftrightarrow> bit x 7"
proof -
  have b: "bit (x AND 0x80) n \<longleftrightarrow> n = 7 \<and> bit x 7" for n
    by (auto simp: bit_and_iff bit_0x80 simp del: bit_numeral_word_iff)
  show ?thesis
  proof (cases "bit x 7")
    case True
    then have "bit (x AND 0x80) 7" by (simp only: b simp_thms)
    with True show ?thesis by auto
  next
    case False
    then have "x AND 0x80 = 0" by (intro bit_word_eqI) (simp only: b simp_thms bit_0_eq bot_apply bot_bool_def)
    with False show ?thesis by simp
  qed
qed

lemma cont_type_iff: "gopro_packet_get_type c = gopro_packet_cont \<longleftrightarrow> bit (cmd_data c ! 0) 7"
  unfolding gopro_packet_get_type_def Let_def and_0x80 by simp

lemma cont_frame_type: "cont_frame ty c \<Longrightarrow> gopro_packet_get_type c = gopro_packet_cont"
  by (simp add: cont_type_iff cont_frame_def)

subsection \<open>The length a header announces\<close>

lemma shift_or_add: "push_bit 8 (uint (a :: u8)) OR uint (b :: u8) = 256 * uint a + uint b"
proof -
  have "push_bit 8 (uint a) AND uint b = 0"
    by (rule bit_eqI) (auto simp: bit_simps dest: bit_imp_le_length)
  then have "push_bit 8 (uint a) + uint b = push_bit 8 (uint a) OR uint b"
    by (rule disjunctive_add_eq_or)
  then show ?thesis by (simp add: push_bit_eq_mult)
qed

lemma get_len_5bit:
  "gopro_packet_get_type c = gopro_packet_5bit \<Longrightarrow>
   gopro_packet_get_len c = int (unat (cmd_data c ! 0) mod 32)"
  by (simp add: gopro_packet_get_len_def flip: unat_and_mask5)

lemma get_len_13bit:
  "gopro_packet_get_type c = gopro_packet_13bit \<Longrightarrow>
   gopro_packet_get_len c = int (256 * (unat (cmd_data c ! 0) mod 32) + unat (cmd_data c ! 1))"
  by (simp add: gopro_packet_get_len_def shift_or_add flip: unat_and_mask5)

lemma get_len_16bit:
  "gopro_packet_get_type c = gopro_packet_16bit \<Longrightarrow>
   gopro_packet_get_len c = int (256 * unat (cmd_data c ! 1) + unat (cmd_data c ! 2))"
  by (simp add: gopro_packet_get_len_def shift_or_add)

text \<open>The largest length each header form can announce.\<close>

definition header_max :: "gopro_packet_type_t \<Rightarrow> int" where
  "header_max t = (case t of
     gopro_packet_5bit \<Rightarrow> 31 | gopro_packet_13bit \<Rightarrow> 8191 | gopro_packet_16bit \<Rightarrow> 65535 | _ \<Rightarrow> - 1)"

lemma get_len_bounds: "- 1 \<le> gopro_packet_get_len c \<and> gopro_packet_get_len c \<le> header_max (gopro_packet_get_type c)"
proof (cases "gopro_packet_get_type c")
  case gopro_packet_5bit
  moreover have "unat (cmd_data c ! 0) mod 32 \<le> 31" by simp
  ultimately show ?thesis by (simp add: get_len_5bit header_max_def)
next
  case gopro_packet_13bit
  moreover have "256 * (unat (cmd_data c ! 0) mod 32) + unat (cmd_data c ! 1) \<le> 8191"
    using unat_u8_less [of "cmd_data c ! 1"] by linarith
  ultimately show ?thesis
    by (simp only: get_len_13bit header_max_def gopro_packet_type_t.case) linarith
next
  case gopro_packet_16bit
  moreover have "256 * unat (cmd_data c ! 1) + unat (cmd_data c ! 2) \<le> 65535"
    using unat_u8_less [of "cmd_data c ! 1"] unat_u8_less [of "cmd_data c ! 2"] by linarith
  ultimately show ?thesis
    by (simp only: get_len_16bit header_max_def gopro_packet_type_t.case) linarith
qed (simp_all add: gopro_packet_get_len_def header_max_def)

subsection \<open>The headers the sender writes\<close>

lemma mask5_u8: "(0x1F :: u8) = mask 5"
  by (simp add: mask_eq_exp_minus_1)

lemma mask5_u32: "(0x1F :: u32) = mask 5"
  by (simp add: mask_eq_exp_minus_1)

lemma mask8_u32: "(0xFF :: u32) = mask 8"
  by (simp add: mask_eq_exp_minus_1)

lemma hdr13_0_bits: "n < 8 \<Longrightarrow> bit (hdr13_0 x) n \<longleftrightarrow> (n < 5 \<and> bit x (8 + n)) \<or> n = 5"
  unfolding hdr13_0_def mask5_u32 by (auto simp: bit_simps bit_0x20 simp del: bit_numeral_word_iff)

lemma hdr13_0_low: "unat (hdr13_0 x) mod 32 = unat x div 256 mod 32"
proof -
  have "hdr13_0 x AND 0x1F = ucast (take_bit 5 (drop_bit 8 x))"
    unfolding mask5_u8 by (rule bit_word_eqI) (auto simp: bit_simps hdr13_0_bits)
  then have "unat (hdr13_0 x AND 0x1F) = unat (ucast (take_bit 5 (drop_bit 8 x)) :: u8)" by simp
  also have "\<dots> = take_bit 8 (take_bit 5 (drop_bit 8 (take_bit 32 (unat x))))"
    by (simp only: unsigned_ucast_eq unsigned_take_bit_eq unsigned_drop_bit_eq) simp
  also have "take_bit 32 (unat x) = unat x"
    using unsigned_less [of x] by (simp add: take_bit_nat_eq_self_iff)
  finally show ?thesis by (simp add: take_bit_eq_mod drop_bit_eq_div)
qed

lemma hdr13_1_val: "unat (hdr13_1 x) = unat x mod 256"
proof -
  have "hdr13_1 x = ucast (take_bit 8 x)"
    unfolding hdr13_1_def mask8_u32 by (simp add: take_bit_eq_mask)
  then show ?thesis
    by (simp only: unsigned_ucast_eq unsigned_take_bit_eq) (simp add: take_bit_eq_mod)
qed

lemma type_bits:
  assumes "\<not> bit (cmd_data c ! 0) 7"
  shows "gopro_packet_get_type c =
    (if bit (cmd_data c ! 0) 6 then if bit (cmd_data c ! 0) 5 then gopro_packet_invalid else gopro_packet_16bit
     else if bit (cmd_data c ! 0) 5 then gopro_packet_13bit else gopro_packet_5bit)"
proof -
  define t where "t = drop_bit 5 (cmd_data c ! 0 AND 0x60)"
  have m: "(0x60 :: u8) = push_bit 5 (mask 2)" by (simp add: mask_eq_exp_minus_1)
  have b: "bit t n \<longleftrightarrow> n < 2 \<and> bit (cmd_data c ! 0) (5 + n)" for n
    unfolding t_def m using bit_imp_le_length [of "cmd_data c ! 0" "5 + n"]
    by (auto simp: bit_simps)
  have "t = of_bool (bit (cmd_data c ! 0) 5) + 2 * of_bool (bit (cmd_data c ! 0) 6)"
    by (rule bit_word_eqI)
       (auto simp: b bit_simps numeral_2_eq_2 less_Suc_eq split: if_splits)
  then show ?thesis
    using assms unfolding gopro_packet_get_type_def Let_def and_0x80 t_def [symmetric] by simp
qed

lemma long_header:
  assumes "cmd_data c ! 0 = hdr13_0 n" and "cmd_data c ! 1 = hdr13_1 n"
  shows "gopro_packet_get_type c = gopro_packet_13bit"
    and "gopro_packet_get_len c = int (unat n mod 8192)"
proof -
  have nb: "\<not> bit (cmd_data c ! 0) 7" "\<not> bit (cmd_data c ! 0) 6" "bit (cmd_data c ! 0) 5"
    using assms(1) by (simp_all add: hdr13_0_bits)
  show t: "gopro_packet_get_type c = gopro_packet_13bit"
    using nb by (simp add: type_bits)
  have "256 * (unat n div 256 mod 32) + unat n mod 256 = unat n mod 8192"
    using mod_mult2_eq [of "unat n" 256 32] by simp
  then show "gopro_packet_get_len c = int (unat n mod 8192)"
    using assms by (simp only: get_len_13bit [OF t] hdr13_0_low hdr13_1_val)
qed

lemma short_header:
  assumes h: "cmd_data c ! 0 = ucast ((n :: u32) AND 0x1F)" and n: "unat n < 32"
  shows "gopro_packet_get_type c = gopro_packet_5bit" and "gopro_packet_get_len c = int (unat n)"
proof -
  have b: "bit (cmd_data c ! 0) k \<longleftrightarrow> k < 5 \<and> bit n k" if "k < 8" for k
    using that unfolding h mask5_u32 by (auto simp: bit_simps)
  show t: "gopro_packet_get_type c = gopro_packet_5bit"
    by (simp add: type_bits b)
  have "cmd_data c ! 0 = ucast (take_bit 5 n)"
    unfolding h mask5_u32 by (simp add: take_bit_eq_mask)
  then have "unat (cmd_data c ! 0) = take_bit 8 (take_bit 5 (unat n))"
    by (simp only: unsigned_ucast_eq unsigned_take_bit_eq) simp
  also have "\<dots> = unat n" using n by (simp add: take_bit_eq_mod)
  finally show "gopro_packet_get_len c = int (unat n)"
    using n by (simp add: get_len_5bit [OF t])
qed

end
