(* ===== verification/Reassembly.thy ===== *)
theory Reassembly
  imports Dispatch Packet_Header
begin

section \<open>Putting frames together (\<^verbatim>\<open>gopro_packet_build\<close>)\<close>

text \<open>
  A frame that is not a continuation starts a message: the old buffer is dropped, the
  header fields are read, a zeroed buffer of the announced length is allocated and the
  frame's bytes are copied into it. A continuation frame is appended. When the announced
  length is reached the message is parsed and the buffer freed.
\<close>

subsection \<open>The handler\<close>

definition upd_packet :: "(gopro_packet_t \<Rightarrow> gopro_packet_t) \<Rightarrow> gopro_sys \<Rightarrow> gopro_sys" where
  "upd_packet f sys = sys\<lparr>sys_packet := f (sys_packet sys)\<rparr>"

definition zero_packet :: gopro_packet_t where
  "zero_packet = \<lparr>pk_total_len = 0, pk_packet_len = 0, pk_pkt_len = 0, pk_data_len = 0,
     pk_saved_len = 0, pk_pkt_start = 0, pk_data_start = 0, pk_type = 0, pk_feature = 0,
     pk_action = 0, pk_data = None\<rparr>"

text \<open>\<^verbatim>\<open>gopro_packet_parse(&gopro_packet); k_free(gopro_packet.data); gopro_packet.data = 0;\<close>\<close>

definition parse_and_free :: "gopro_env \<Rightarrow> bytes \<Rightarrow> gopro_sys \<Rightarrow> gopro_sys option" where
  "parse_and_free env stk sys = do {
     sys \<leftarrow> gopro_packet_parse env stk (sys_packet sys) sys;
     Some (upd_packet (pk_data_update (\<lambda>_. None)) sys)
   }"

definition build_cont :: "gopro_env \<Rightarrow> bytes \<Rightarrow> gopro_cmd_t \<Rightarrow> gopro_sys \<Rightarrow> gopro_sys option" where
  "build_cont env stk c sys =
     (case gopro_packet_get_data_ptr c of (start, len) \<Rightarrow>
        let pk = (sys_packet sys)\<lparr>pk_data_start := start, pk_data_len := len\<rparr> in
        case pk_data pk of
          None \<Rightarrow> Some (sys\<lparr>sys_packet := pk\<rparr>)
        | Some d \<Rightarrow>
            if pk_total_len pk < pk_data_len pk + pk_saved_len pk
            then Some (sys\<lparr>sys_packet := pk\<lparr>pk_data := None\<rparr>\<rparr>)
            else do {
              d \<leftarrow> memcpy d (unat (pk_saved_len pk)) (cmd_data c) (unat (pk_data_start pk))
                     (unat (pk_data_len pk));
              let pk = pk\<lparr>pk_data := Some d, pk_saved_len := pk_saved_len pk + pk_data_len pk\<rparr>;
              if pk_saved_len pk = pk_total_len pk
              then parse_and_free env stk (sys\<lparr>sys_packet := pk\<rparr>)
              else Some (sys\<lparr>sys_packet := pk\<rparr>)
            })"

definition first_packet :: "gopro_cmd_t \<Rightarrow> gopro_packet_t" where
  "first_packet c =
     (let (feature, action) = gopro_packet_get_feature c (pk_feature zero_packet, pk_action zero_packet);
          (data_start, data_len) = gopro_packet_get_data_ptr c;
          (pkt_start, pkt_len) = gopro_packet_get_pkt_ptr c;
          total_len = word_of_int (gopro_packet_get_len c) in
      zero_packet\<lparr>pk_type := ucast (cmd_type c), pk_feature := feature, pk_action := action,
        pk_data_start := data_start, pk_data_len := data_len, pk_pkt_start := pkt_start,
        pk_pkt_len := pkt_len, pk_total_len := total_len, pk_packet_len := total_len - 2\<rparr>)"

definition build_first :: "gopro_env \<Rightarrow> bytes \<Rightarrow> gopro_cmd_t \<Rightarrow> gopro_sys \<Rightarrow> gopro_sys option" where
  "build_first env stk c sys =
     (let pk = first_packet c in
      if pk_total_len pk = 0 then Some (sys\<lparr>sys_packet := pk\<rparr>)
      else case env_alloc env Alloc_Packet (unat (pk_total_len pk)) of
        None \<Rightarrow> Some (sys\<lparr>sys_packet := pk\<rparr>)
      | Some blk \<Rightarrow> do {
          d \<leftarrow> wr_block blk 0 (replicate (unat (pk_total_len pk)) 0);
          d \<leftarrow> memcpy d 0 (cmd_data c) (unat (pk_pkt_start pk)) (unat (pk_pkt_len pk));
          let pk = pk\<lparr>pk_data := Some d, pk_saved_len := pk_pkt_len pk\<rparr>;
          if pk_saved_len pk = pk_total_len pk
          then parse_and_free env stk (sys\<lparr>sys_packet := pk\<rparr>)
          else Some (sys\<lparr>sys_packet := pk\<rparr>)
        })"

definition gopro_packet_build :: "gopro_env \<Rightarrow> bytes \<Rightarrow> gopro_cmd_t \<Rightarrow> gopro_sys \<Rightarrow> gopro_sys option" where
  "gopro_packet_build env stk c sys =
     (if gopro_packet_get_type c = gopro_packet_cont then build_cont env stk c sys
      else build_first env stk c sys)"

fun build_all :: "gopro_env \<Rightarrow> bytes \<Rightarrow> gopro_cmd_t list \<Rightarrow> gopro_sys \<Rightarrow> gopro_sys option" where
  "build_all env stk [] sys = Some sys"
| "build_all env stk (c # cs) sys = do {
     sys \<leftarrow> gopro_packet_build env stk c sys;
     build_all env stk cs sys
   }"

lemma build_all_Nil_bind [simp]: "x \<bind> build_all env stk [] = x"
  by (cases x) simp_all

subsection \<open>The abstract assembler\<close>

text \<open>
  What reassembly promises, without buffers and lengths: collecting a message of a given
  source and announced length, with the bytes received so far.
\<close>

record message =
  msg_type :: u8
  msg_bytes :: bytes

datatype assembler = Idle | Collecting u8 nat bytes

datatype frame_view = First u8 nat bytes | Cont bytes

fun asm_add :: "u8 \<Rightarrow> nat \<Rightarrow> bytes \<Rightarrow> assembler \<times> message option" where
  "asm_add ty n bs =
     (if n < length bs then (Idle, None)
      else if length bs = n then (Idle, Some \<lparr>msg_type = ty, msg_bytes = bs\<rparr>)
      else (Collecting ty n bs, None))"

fun asm_step :: "bool \<Rightarrow> frame_view \<Rightarrow> assembler \<Rightarrow> assembler \<times> message option" where
  "asm_step heap (First ty n bs) a = (if n = 0 \<or> \<not> heap then (Idle, None) else asm_add ty n bs)"
| "asm_step heap (Cont bs) Idle = (Idle, None)"
| "asm_step heap (Cont bs) (Collecting ty n acc) = asm_add ty n (acc @ bs)"

definition header_size :: "gopro_packet_type_t \<Rightarrow> nat" where
  "header_size t = (case t of
     gopro_packet_5bit \<Rightarrow> 1 | gopro_packet_13bit \<Rightarrow> 2 | gopro_packet_16bit \<Rightarrow> 3
   | gopro_packet_cont \<Rightarrow> 1 | gopro_packet_invalid \<Rightarrow> 0)"

definition frame_payload :: "gopro_cmd_t \<Rightarrow> bytes" where
  "frame_payload c = drop (header_size (gopro_packet_get_type c)) (frame_bytes c)"

definition frame_view :: "gopro_cmd_t \<Rightarrow> frame_view" where
  "frame_view c =
     (if gopro_packet_get_type c = gopro_packet_cont then Cont (frame_payload c)
      else First (ucast (cmd_type c)) (nat (gopro_packet_get_len c)) (frame_payload c))"

text \<open>
  A frame as the radio delivers it: at most 20 bytes, at least its header, of a known
  type; a first frame does not carry more than it announces.
\<close>

definition frame_ok :: "gopro_cmd_t \<Rightarrow> bool" where
  "frame_ok c \<longleftrightarrow>
     wf_cmd c \<and> unat (cmd_len c) \<le> 20 \<and> gopro_packet_get_type c \<noteq> gopro_packet_invalid \<and>
     header_size (gopro_packet_get_type c) \<le> unat (cmd_len c) \<and>
     (gopro_packet_get_type c \<noteq> gopro_packet_cont \<longrightarrow> gopro_packet_get_len c = 0 \<or>
        2 \<le> length (frame_payload c) \<and> length (frame_payload c) \<le> nat (gopro_packet_get_len c))"

text \<open>
  The concrete state: a buffer of the announced length, filled up to \<^verbatim>\<open>saved_len\<close>, whose
  first two bytes are the feature and the action.
\<close>

definition wf_fill :: "gopro_packet_t \<Rightarrow> bytes \<Rightarrow> bool" where
  "wf_fill pk d \<longleftrightarrow>
     length d = unat (pk_total_len pk) \<and> unat (pk_total_len pk) \<le> 65535 \<and>
     2 \<le> unat (pk_saved_len pk) \<and> unat (pk_saved_len pk) \<le> unat (pk_total_len pk) \<and>
     pk_packet_len pk = pk_total_len pk - 2 \<and> pk_feature pk = d ! 0 \<and> pk_action pk = d ! 1"

definition wf_packet :: "gopro_packet_t \<Rightarrow> bool" where
  "wf_packet pk \<longleftrightarrow> (case pk_data pk of None \<Rightarrow> True
                      | Some d \<Rightarrow> wf_fill pk d \<and> pk_saved_len pk \<noteq> pk_total_len pk)"

definition abs_packet :: "gopro_packet_t \<Rightarrow> assembler" where
  "abs_packet pk = (case pk_data pk of None \<Rightarrow> Idle | Some d \<Rightarrow>
     Collecting (pk_type pk) (unat (pk_total_len pk)) (take (unat (pk_saved_len pk)) d))"

text \<open>A packet that holds a complete message.\<close>

definition holds_message :: "gopro_packet_t \<Rightarrow> message \<Rightarrow> bool" where
  "holds_message pk m \<longleftrightarrow>
     pk_data pk = Some (msg_bytes m) \<and> pk_type pk = msg_type m \<and>
     unat (pk_total_len pk) = length (msg_bytes m) \<and> 2 \<le> length (msg_bytes m) \<and>
     pk_packet_len pk = pk_total_len pk - 2 \<and>
     pk_feature pk = msg_bytes m ! 0 \<and> pk_action pk = msg_bytes m ! 1"

text \<open>What the code does with the answer of the abstract assembler.\<close>

definition implements ::
    "gopro_env \<Rightarrow> bytes \<Rightarrow> gopro_sys \<Rightarrow> assembler \<times> message option \<Rightarrow> gopro_sys option \<Rightarrow> bool" where
  "implements env stk sys step res \<longleftrightarrow>
     (\<exists>pk. case step of
        (a, None) \<Rightarrow> res = Some (sys\<lparr>sys_packet := pk\<rparr>) \<and> wf_packet pk \<and> abs_packet pk = a
      | (a, Some m) \<Rightarrow> holds_message pk m \<and> res = parse_and_free env stk (sys\<lparr>sys_packet := pk\<rparr>))"

lemma implementsI_state:
  "wf_packet pk \<Longrightarrow> abs_packet pk = a \<Longrightarrow> implements env stk sys (a, None) (Some (sys\<lparr>sys_packet := pk\<rparr>))"
  by (auto simp: implements_def)

lemma no_data_packet: "pk_data pk = None \<Longrightarrow> wf_packet pk \<and> abs_packet pk = Idle"
  by (simp add: wf_packet_def abs_packet_def)

text \<open>The end of both branches of the handler.\<close>

lemma fill_implements:
  assumes w: "wf_fill pk d" and d: "pk_data pk = Some d"
  shows "implements env stk sys
    (asm_add (pk_type pk) (unat (pk_total_len pk)) (take (unat (pk_saved_len pk)) d))
    (if pk_saved_len pk = pk_total_len pk then parse_and_free env stk (sys\<lparr>sys_packet := pk\<rparr>)
     else Some (sys\<lparr>sys_packet := pk\<rparr>))"
proof (cases "pk_saved_len pk = pk_total_len pk")
  case True
  have l: "length d = unat (pk_total_len pk)" using w by (simp add: wf_fill_def)
  then have "holds_message pk \<lparr>msg_type = pk_type pk, msg_bytes = d\<rparr>"
    using w d True by (simp add: holds_message_def wf_fill_def)
  then show ?thesis using True l by (auto simp: implements_def)
next
  case False
  have l: "length (take (unat (pk_saved_len pk)) d) = unat (pk_saved_len pk)"
    using w by (simp add: wf_fill_def)
  have "unat (pk_saved_len pk) \<noteq> unat (pk_total_len pk)" using False by (simp add: word_unat_eq_iff)
  then have "asm_add (pk_type pk) (unat (pk_total_len pk)) (take (unat (pk_saved_len pk)) d) =
      (abs_packet pk, None)"
    using w d l by (simp add: abs_packet_def wf_fill_def)
  moreover have "wf_packet pk" using w d False by (simp add: wf_packet_def)
  ultimately show ?thesis using False by (auto simp: implements_def)
qed

subsection \<open>One frame\<close>

lemma frame_payload_block:
  assumes "wf_cmd c" and "unat (cmd_len c) \<le> 20" and "h = header_size (gopro_packet_get_type c)"
    and "h \<le> unat (cmd_len c)"
  shows "take (unat (cmd_len c) - h) (drop h (cmd_data c)) = frame_payload c"
    and "length (frame_payload c) = unat (cmd_len c) - h"
  using assms by (simp_all add: frame_payload_def frame_bytes_def drop_take wf_cmd_def)

lemma unat_len_minus:
  "h \<le> unat (cmd_len c) \<Longrightarrow> h < 2 ^ 32 \<Longrightarrow> unat (cmd_len c - of_nat h) = unat (cmd_len c) - h"
proof -
  assume h: "h \<le> unat (cmd_len c)" "h < 2 ^ 32"
  then have u: "unat (of_nat h :: u32) = h" by (simp add: unat_of_nat)
  then have "(of_nat h :: u32) \<le> cmd_len c" using h by (simp add: word_le_nat_alt)
  from unat_sub [OF this] u show ?thesis by simp
qed

lemma memcpy_frame:
  assumes c: "wf_cmd c" "unat (cmd_len c) \<le> 20" and h: "h = header_size (gopro_packet_get_type c)"
    "h \<le> unat (cmd_len c)" and fits: "n + length (frame_payload c) \<le> length d"
  shows "memcpy d n (cmd_data c) h (unat (cmd_len c) - h) =
    Some (take n d @ frame_payload c @ drop (n + length (frame_payload c)) d)"
proof -
  note p = frame_payload_block [OF c h]
  have "h + (unat (cmd_len c) - h) \<le> length (cmd_data c)" using c h by (simp add: wf_cmd_def)
  then show ?thesis using fits by (simp add: memcpy_Some p)
qed

lemma build_cont_refines:
  assumes f: "frame_ok c" "gopro_packet_get_type c = gopro_packet_cont" and w: "wf_packet (sys_packet sys)"
  shows "implements env stk sys (asm_step heap (Cont (frame_payload c)) (abs_packet (sys_packet sys)))
    (build_cont env stk c sys)"
proof -
  let ?pk = "(sys_packet sys)\<lparr>pk_data_start := 1, pk_data_len := cmd_len c - 1\<rparr>"
  have c: "wf_cmd c" "unat (cmd_len c) \<le> 20" "1 \<le> unat (cmd_len c)"
    using f by (simp_all add: frame_ok_def header_size_def)
  have ptr: "gopro_packet_get_data_ptr c = (1, cmd_len c - 1)"
    by (simp add: gopro_packet_get_data_ptr_def f(2))
  have hs: "1 = header_size (gopro_packet_get_type c)" by (simp add: f(2) header_size_def)
  have n: "unat (cmd_len c - 1) = unat (cmd_len c) - 1"
    using unat_len_minus [of 1 c] c(3) by simp
  define p where "p = frame_payload c"
  have lp: "length p = unat (cmd_len c) - 1"
    using frame_payload_block(2) [OF c(1,2) hs c(3)] by (simp add: p_def)
  show ?thesis
  proof (cases "pk_data (sys_packet sys)")
    case None
    then have "build_cont env stk c sys = Some (sys\<lparr>sys_packet := ?pk\<rparr>)"
      by (simp add: build_cont_def ptr Let_def)
    with None show ?thesis
      using implementsI_state no_data_packet [of ?pk] by (simp add: abs_packet_def)
  next
    case (Some d)
    define pk where "pk = ?pk"
    have wf: "wf_fill pk d" and ne: "pk_saved_len pk \<noteq> pk_total_len pk"
      using w Some by (simp_all add: wf_packet_def wf_fill_def pk_def)
    have dl: "length d = unat (pk_total_len pk)" and sv: "unat (pk_saved_len pk) \<le> unat (pk_total_len pk)"
      "2 \<le> unat (pk_saved_len pk)" and t: "unat (pk_total_len pk) \<le> 65535"
      using wf by (simp_all add: wf_fill_def)
    have ab: "abs_packet (sys_packet sys) = Collecting (pk_type pk) (unat (pk_total_len pk))
        (take (unat (pk_saved_len pk)) d)"
      using Some by (simp add: abs_packet_def pk_def)
    have lens: "pk_data_len pk = cmd_len c - 1" "pk_data_start pk = 1" by (simp_all add: pk_def)
    have sum: "unat (pk_data_len pk + pk_saved_len pk) = length p + unat (pk_saved_len pk)"
      using n lp sv t c(2) unfolding lens(1) by (subst unat_add_lem [THEN iffD1]) simp_all
    have saved: "length (take (unat (pk_saved_len pk)) d @ p) = unat (pk_saved_len pk) + length p"
      using dl sv by simp
    show ?thesis
    proof (cases "pk_total_len pk < pk_data_len pk + pk_saved_len pk")
      case True
      then have "build_cont env stk c sys = Some (sys\<lparr>sys_packet := pk\<lparr>pk_data := None\<rparr>\<rparr>)"
        using Some by (simp add: build_cont_def ptr Let_def pk_def)
      moreover have "unat (pk_total_len pk) < unat (pk_saved_len pk) + length p"
        using True sum by (simp add: word_less_nat_alt)
      ultimately show ?thesis
        using implementsI_state no_data_packet [of "pk\<lparr>pk_data := None\<rparr>"] saved
        by (simp add: ab p_def [symmetric])
    next
      case False
      then have fits: "unat (pk_saved_len pk) + length p \<le> unat (pk_total_len pk)"
        using sum by (simp add: word_less_nat_alt not_less)
      define d' where "d' = take (unat (pk_saved_len pk)) d @ p @ drop (unat (pk_saved_len pk) + length p) d"
      have m: "memcpy d (unat (pk_saved_len pk)) (cmd_data c) (unat (pk_data_start pk)) (unat (pk_data_len pk)) = Some d'"
        using memcpy_frame [OF c(1,2) hs c(3), of "unat (pk_saved_len pk)" d] fits dl
        by (simp add: lens n d'_def p_def)
      define q where "q = pk\<lparr>pk_data := Some d', pk_saved_len := pk_saved_len pk + pk_data_len pk\<rparr>"
      have us: "unat (pk_saved_len q) = unat (pk_saved_len pk) + length p"
        using sum by (simp add: q_def add.commute)
      have l': "length d' = unat (pk_total_len pk)" using fits dl by (simp add: d'_def)
      have i: "d' ! i = d ! i" if "i < 2" for i
        using that sv dl by (simp add: d'_def nth_append)
      have q: "wf_fill q d'"
        using wf us fits l' sv i [of 0] i [of 1] by (simp add: wf_fill_def) (simp add: q_def)
      have tk: "take (unat (pk_saved_len q)) d' = take (unat (pk_saved_len pk)) d @ p"
        unfolding us using dl sv by (simp add: d'_def)
      have "build_cont env stk c sys =
          (if pk_saved_len q = pk_total_len q then parse_and_free env stk (sys\<lparr>sys_packet := q\<rparr>)
           else Some (sys\<lparr>sys_packet := q\<rparr>))"
        using Some False m by (simp add: build_cont_def ptr Let_def pk_def [symmetric] q_def) (simp add: pk_def)
      moreover have "asm_step heap (Cont p) (abs_packet (sys_packet sys)) =
          asm_add (pk_type q) (unat (pk_total_len q)) (take (unat (pk_saved_len q)) d')"
        unfolding ab tk by (simp add: q_def del: asm_add.simps)
      moreover have "pk_data q = Some d'" by (simp add: q_def)
      ultimately show ?thesis
        unfolding p_def [symmetric] by (simp only: fill_implements [OF q])
    qed
  qed
qed

lemma get_len_nat:
  assumes "gopro_packet_get_type c \<noteq> gopro_packet_cont" "gopro_packet_get_type c \<noteq> gopro_packet_invalid"
  shows "\<exists>m \<le> 65535. gopro_packet_get_len c = int m"
proof -
  have "0 \<le> gopro_packet_get_len c"
    using assms by (cases "gopro_packet_get_type c") (simp_all add: get_len_5bit get_len_13bit get_len_16bit)
  moreover have "gopro_packet_get_len c \<le> 65535"
    using get_len_bounds [of c] assms by (cases "gopro_packet_get_type c") (simp_all add: header_max_def)
  ultimately show ?thesis by (intro exI [of _ "nat (gopro_packet_get_len c)"]) simp
qed

lemma first_packet_fields:
  assumes t: "gopro_packet_get_type c \<noteq> gopro_packet_cont" "gopro_packet_get_type c \<noteq> gopro_packet_invalid"
    and h: "h = header_size (gopro_packet_get_type c)" and m: "gopro_packet_get_len c = int m"
  shows "pk_type (first_packet c) = ucast (cmd_type c)"
    and "pk_feature (first_packet c) = cmd_data c ! h"
    and "pk_action (first_packet c) = cmd_data c ! Suc h"
    and "unat (pk_pkt_start (first_packet c)) = h"
    and "pk_pkt_len (first_packet c) = cmd_len c - of_nat h"
    and "pk_total_len (first_packet c) = of_nat m"
    and "pk_packet_len (first_packet c) = of_nat m - 2"
    and "pk_data (first_packet c) = None"
  using t m
  by (cases "gopro_packet_get_type c";
      simp add: first_packet_def Let_def gopro_packet_get_feature_def gopro_packet_get_pkt_ptr_def
        gopro_packet_get_data_ptr_def h header_size_def zero_packet_def flip: numeral_2_eq_2)+

lemma build_first_refines:
  assumes f: "frame_ok c" "gopro_packet_get_type c \<noteq> gopro_packet_cont" and env: "alloc_ok env"
    and heap: "heap \<longleftrightarrow> env_alloc env Alloc_Packet (nat (gopro_packet_get_len c)) \<noteq> None"
  shows "implements env stk sys (asm_step heap (frame_view c) a) (build_first env stk c sys)"
proof -
  define h where "h = header_size (gopro_packet_get_type c)"
  define p where "p = frame_payload c"
  have c: "wf_cmd c" "unat (cmd_len c) \<le> 20" "h \<le> unat (cmd_len c)"
    "gopro_packet_get_type c \<noteq> gopro_packet_invalid"
    using f by (simp_all add: frame_ok_def h_def)
  obtain m where m: "gopro_packet_get_len c = int m" "m \<le> 65535"
    using get_len_nat [OF f(2) c(4)] by blast
  note fld = first_packet_fields [OF f(2) c(4) h_def m(1)]
  have um: "unat (of_nat m :: u32) = m" using m(2) by (simp add: unat_of_nat)
  have lp: "length p = unat (cmd_len c) - h"
    using frame_payload_block(2) [OF c(1,2) h_def c(3)] by (simp add: p_def)
  have h3: "h \<le> 3" by (simp add: h_def header_size_def split: gopro_packet_type_t.split)
  have un: "unat (cmd_len c - of_nat h) = length p"
    using unat_len_minus [OF c(3)] h3 lp by simp
  have view: "frame_view c = First (ucast (cmd_type c)) m p"
    by (simp add: frame_view_def f(2) m(1) p_def)
  show ?thesis
  proof (cases "m = 0 \<or> \<not> heap")
    case True
    then have "build_first env stk c sys = Some (sys\<lparr>sys_packet := first_packet c\<rparr>)"
      using heap m(1) um by (auto simp: build_first_def fld Let_def)
    moreover have "asm_step heap (frame_view c) a = (Idle, None)" using True by (simp add: view)
    ultimately show ?thesis
      using implementsI_state no_data_packet [OF fld(8)] by simp
  next
    case False
    then obtain blk where b: "env_alloc env Alloc_Packet m = Some blk" using heap m(1) by auto
    have lb: "length blk = m" using alloc_okD [OF env b] .
    have pl: "2 \<le> length p" "length p \<le> m"
      using f False m(1) by (auto simp: frame_ok_def p_def)
    define d where "d = p @ replicate (m - length p) 0"
    have z: "wr_block blk 0 (replicate m 0) = Some (replicate m 0)" using lb by simp
    have cp: "memcpy (replicate m 0) 0 (cmd_data c) h (length p) = Some d"
      using memcpy_frame [OF c(1,2) h_def c(3), of 0 "replicate m 0"] pl lp
      by (simp add: d_def p_def)
    define pk where "pk = (first_packet c)\<lparr>pk_data := Some d, pk_saved_len := cmd_len c - of_nat h\<rparr>"
    have nz: "pk_total_len (first_packet c) \<noteq> 0"
      using False um unfolding fld(6) by (metis unat_0)
    have res: "build_first env stk c sys =
        (if pk_saved_len pk = pk_total_len pk then parse_and_free env stk (sys\<lparr>sys_packet := pk\<rparr>)
         else Some (sys\<lparr>sys_packet := pk\<rparr>))"
      using nz by (simp add: build_first_def Let_def fld(4-6) um b z cp un pk_def)
    have at: "d ! i = cmd_data c ! (h + i)" if "i < 2" for i
    proof -
      have "p ! i = cmd_data c ! (h + i)"
        using that pl lp c by (simp add: p_def frame_payload_def frame_bytes_def h_def wf_cmd_def)
      then show ?thesis using that pl by (simp add: d_def nth_append)
    qed
    have w: "wf_fill pk d"
      using at [of 0] at [of 1] pl m(2) by (simp add: wf_fill_def pk_def fld um un) (simp add: d_def)
    have tk: "take (unat (pk_saved_len pk)) d = p" by (simp add: pk_def un d_def)
    have "asm_step heap (frame_view c) a =
        asm_add (pk_type pk) (unat (pk_total_len pk)) (take (unat (pk_saved_len pk)) d)"
      using False unfolding view tk by (simp add: pk_def fld um del: asm_add.simps)
    moreover have "pk_data pk = Some d" by (simp add: pk_def)
    ultimately show ?thesis unfolding res by (simp only: fill_implements [OF w])
  qed
qed

definition heap_has :: "gopro_env \<Rightarrow> gopro_cmd_t \<Rightarrow> bool" where
  "heap_has env c \<longleftrightarrow> env_alloc env Alloc_Packet (nat (gopro_packet_get_len c)) \<noteq> None"

lemma build_refines:
  assumes "frame_ok c" and "alloc_ok env" and "wf_packet (sys_packet sys)"
  shows "implements env stk sys (asm_step (heap_has env c) (frame_view c) (abs_packet (sys_packet sys)))
    (gopro_packet_build env stk c sys)"
proof (cases "gopro_packet_get_type c = gopro_packet_cont")
  case True
  then show ?thesis
    using build_cont_refines [OF assms(1) True assms(3)] by (simp add: gopro_packet_build_def frame_view_def)
next
  case False
  then show ?thesis
    using build_first_refines [OF assms(1) False assms(2)] by (simp add: gopro_packet_build_def heap_has_def)
qed

lemma wf_sys_packet [simp]: "wf_sys (sys\<lparr>sys_packet := pk\<rparr>) = wf_sys sys"
  by (simp add: wf_sys_def)

text \<open>Parsing leaves the assembler idle.\<close>

lemma parse_and_free_idle:
  assumes "alloc_ok env" "length stk = 20" "wf_sys sys" and "parse_and_free env stk sys = Some sys'"
  shows "sys_packet sys' = (sys_packet sys)\<lparr>pk_data := None\<rparr> \<and> sys_client sys' = sys_client sys \<and> wf_sys sys'"
proof -
  obtain s where s: "gopro_packet_parse env stk (sys_packet sys) sys = Some s"
    "sys' = upd_packet (pk_data_update (\<lambda>_. None)) s"
    using assms(4) by (auto simp: parse_and_free_def bind_eq_Some_conv)
  have "handler_ok sys s" by (rule handler_ok_parse [OF assms(1-3) s(1)])
  then show ?thesis using assms(3) by (simp add: s(2) upd_packet_def handler_ok_def)
qed

lemma build_invariant:
  assumes f: "frame_ok c" and env: "alloc_ok env" "length stk = 20"
    and w: "wf_sys sys" "wf_packet (sys_packet sys)"
    and b: "gopro_packet_build env stk c sys = Some sys'"
  shows "wf_sys sys' \<and> wf_packet (sys_packet sys') \<and> sys_client sys' = sys_client sys \<and>
    abs_packet (sys_packet sys') = fst (asm_step (heap_has env c) (frame_view c) (abs_packet (sys_packet sys)))"
proof -
  obtain a r where step: "asm_step (heap_has env c) (frame_view c) (abs_packet (sys_packet sys)) = (a, r)"
    by force
  from build_refines [OF f env(1) w(2), of stk] b step obtain pk where
    i: "case r of None \<Rightarrow> sys' = sys\<lparr>sys_packet := pk\<rparr> \<and> wf_packet pk \<and> abs_packet pk = a
        | Some m \<Rightarrow> holds_message pk m \<and> parse_and_free env stk (sys\<lparr>sys_packet := pk\<rparr>) = Some sys'"
    by (cases r) (auto simp: implements_def)
  show ?thesis
  proof (cases r)
    case None
    with i w step show ?thesis by simp
  next
    case (Some m)
    have add: "a' = Idle" if "asm_add ty n bs = (a', Some m)" for ty n bs a'
      using that by (auto split: if_split_asm)
    have "asm_step hp v x = (a', Some m) \<Longrightarrow> a' = Idle" for hp v x a'
      by (cases "(hp, v, x)" rule: asm_step.cases) (auto simp del: asm_add.simps dest: add split: if_split_asm)
    then have "a = Idle" using step Some by simp
    moreover have "parse_and_free env stk (sys\<lparr>sys_packet := pk\<rparr>) = Some sys'" using i Some by simp
    from parse_and_free_idle [OF env _ this] w have
      "sys_packet sys' = pk\<lparr>pk_data := None\<rparr>" "wf_sys sys'" "sys_client sys' = sys_client sys"
      by simp_all
    ultimately show ?thesis using step no_data_packet [of "pk\<lparr>pk_data := None\<rparr>"] by simp
  qed
qed

text \<open>Whatever a frame holds, the connection state and the client stay as they are.\<close>

lemma build_conn:
  assumes env: "alloc_ok env" "length stk = 20" and w: "wf_sys sys"
    and b: "gopro_packet_build env stk c sys = Some sys'"
  shows "gs_state (sys_state sys') = gs_state (sys_state sys) \<and> sys_client sys' = sys_client sys \<and> wf_sys sys' \<and>
    pending_from sys sys' \<and> reply_slots sys' \<le> reply_slots sys"
proof -
  obtain pk where "sys' = sys\<lparr>sys_packet := pk\<rparr> \<or> parse_and_free env stk (sys\<lparr>sys_packet := pk\<rparr>) = Some sys'"
    using b
    by (auto simp: gopro_packet_build_def build_cont_def build_first_def bind_eq_Some_conv Let_def
        split: if_split_asm prod.splits option.splits)
  then show ?thesis
  proof
    assume "sys' = sys\<lparr>sys_packet := pk\<rparr>"
    then show ?thesis using w by simp
  next
    assume p: "parse_and_free env stk (sys\<lparr>sys_packet := pk\<rparr>) = Some sys'"
    then obtain s where s: "gopro_packet_parse env stk pk (sys\<lparr>sys_packet := pk\<rparr>) = Some s"
      "sys' = upd_packet (pk_data_update (\<lambda>_. None)) s"
      by (auto simp: parse_and_free_def bind_eq_Some_conv)
    have "wf_sys (sys\<lparr>sys_packet := pk\<rparr>)" using w by simp
    from handler_ok_parse [OF env this s(1)] this s(2) show ?thesis
      by (simp add: handler_ok_def upd_packet_def pending_from_def)
  qed
qed

subsection \<open>Whole messages\<close>

definition good_cont :: "gopro_cmd_t \<Rightarrow> bool" where
  "good_cont c \<longleftrightarrow> frame_ok c \<and> gopro_packet_get_type c = gopro_packet_cont \<and> frame_payload c \<noteq> []"

lemma build_conts:
  assumes env: "alloc_ok env" and w: "wf_packet (sys_packet sys)"
    and a: "abs_packet (sys_packet sys) = Collecting ty n acc"
    and fs: "list_all good_cont fs" "fs \<noteq> []" and n: "length (acc @ concat (map frame_payload fs)) = n"
  shows "\<exists>pk. holds_message pk \<lparr>msg_type = ty, msg_bytes = acc @ concat (map frame_payload fs)\<rparr> \<and>
    build_all env stk fs sys = parse_and_free env stk (sys\<lparr>sys_packet := pk\<rparr>)"
  using w a fs n
proof (induction fs arbitrary: sys acc)
  case Nil
  then show ?case by simp
next
  case (Cons f fs)
  let ?p = "frame_payload f"
  have f: "frame_ok f" "gopro_packet_get_type f = gopro_packet_cont" "?p \<noteq> []"
    using Cons.prems(3) by (simp_all add: good_cont_def)
  have imp: "implements env stk sys (asm_add ty n (acc @ ?p)) (gopro_packet_build env stk f sys)"
    using build_refines [OF f(1) env Cons.prems(1), of stk]
    by (simp add: frame_view_def f(2) Cons.prems(2) del: asm_add.simps)
  show ?case
  proof (cases fs)
    case Nil
    then have "asm_add ty n (acc @ ?p) = (Idle, Some \<lparr>msg_type = ty, msg_bytes = acc @ ?p\<rparr>)"
      using Cons.prems(5) by simp
    with imp Nil show ?thesis by (auto simp: implements_def)
  next
    case (Cons g gs)
    have "0 < length (frame_payload g)" using Cons.prems(3) Cons by (simp add: good_cont_def)
    then have "length (acc @ ?p) < n" using Cons.prems(5) Cons by (simp del: length_greater_0_conv)
    then have "asm_add ty n (acc @ ?p) = (Collecting ty n (acc @ ?p), None)" by simp
    with imp obtain pk where pk: "gopro_packet_build env stk f sys = Some (sys\<lparr>sys_packet := pk\<rparr>)"
      "wf_packet pk" "abs_packet pk = Collecting ty n (acc @ ?p)"
      by (auto simp: implements_def)
    have ih: "\<exists>q. holds_message q \<lparr>msg_type = ty, msg_bytes = (acc @ ?p) @ concat (map frame_payload fs)\<rparr> \<and>
        build_all env stk fs (sys\<lparr>sys_packet := pk\<rparr>) =
          parse_and_free env stk (sys\<lparr>sys_packet := pk\<rparr>\<lparr>sys_packet := q\<rparr>)"
      using Cons.prems(3,5) Cons pk(2,3) by (intro Cons.IH) simp_all
    then show ?thesis using pk(1) by auto
  qed
qed

lemma build_message:
  assumes env: "alloc_ok env" and w: "wf_packet (sys_packet sys)"
    and f: "frame_ok f" "frame_view f = First ty n p" "heap_has env f" "n \<noteq> 0"
    and fs: "list_all good_cont fs" and n: "length (p @ concat (map frame_payload fs)) = n"
  shows "\<exists>pk. holds_message pk \<lparr>msg_type = ty, msg_bytes = p @ concat (map frame_payload fs)\<rparr> \<and>
    build_all env stk (f # fs) sys = parse_and_free env stk (sys\<lparr>sys_packet := pk\<rparr>)"
proof -
  have imp: "implements env stk sys (asm_add ty n p) (gopro_packet_build env stk f sys)"
    using build_refines [OF f(1) env w, of stk] f(2-4) by (simp del: asm_add.simps)
  show ?thesis
  proof (cases fs)
    case Nil
    then have "asm_add ty n p = (Idle, Some \<lparr>msg_type = ty, msg_bytes = p\<rparr>)" using n by simp
    with imp Nil show ?thesis by (auto simp: implements_def)
  next
    case (Cons g gs)
    have "0 < length (frame_payload g)" using fs Cons by (simp add: good_cont_def)
    then have "length p < n" using n Cons by (simp del: length_greater_0_conv)
    then have "asm_add ty n p = (Collecting ty n p, None)" by simp
    with imp obtain pk where pk: "gopro_packet_build env stk f sys = Some (sys\<lparr>sys_packet := pk\<rparr>)"
      "wf_packet pk" "abs_packet pk = Collecting ty n p"
      by (auto simp: implements_def)
    from build_conts [OF env, of "sys\<lparr>sys_packet := pk\<rparr>" ty n p fs stk] pk(2,3) fs n Cons
    show ?thesis using pk(1) by auto
  qed
qed

subsection \<open>The sender's frames\<close>

lemma sender_conts:
  assumes "\<forall>g \<in> set fs. cont_frame ty g" and "map frame_bytes fs = numbered k (pieces 19 msg)"
  shows "list_all good_cont fs" and "concat (map frame_payload fs) = msg"
proof -
  have pay: "frame_payload g = tl (frame_bytes g)" "good_cont g" if "g \<in> set fs" for g
  proof -
    have g: "cont_frame ty g" using assms(1) that by blast
    note t = cont_frame_type [OF g]
    show p: "frame_payload g = tl (frame_bytes g)"
      by (simp add: frame_payload_def t header_size_def drop_Suc)
    have "length (frame_bytes g) = unat (cmd_len g)"
      using g by (simp add: frame_bytes_def cont_frame_def wf_cmd_def)
    then have "frame_payload g \<noteq> []" unfolding p using g
      by (metis Suc_1 Suc_le_lessD cont_frame_def diff_is_0_eq length_tl list.size(3) not_less)
    then show "good_cont g" using g t by (simp add: good_cont_def frame_ok_def cont_frame_def header_size_def)
  qed
  then show "list_all good_cont fs" by (simp add: list_all_iff)
  have "map frame_payload fs = map tl (map frame_bytes fs)" using pay(1) by simp
  then show "concat (map frame_payload fs) = msg" using assms(2) by (simp add: concat_pieces)
qed

lemma long_frame_ok:
  assumes d: "cmd_data f = [hdr13_0 n, hdr13_1 n] @ p" and f: "wf_cmd f" "cmd_len f = 20"
    and n: "18 \<le> unat n" "unat n < 8192"
  shows "frame_ok f" and "frame_view f = First (ucast (cmd_type f)) (unat n) p"
    and "gopro_packet_get_len f = int (unat n)"
proof -
  note h = long_header [of f n, unfolded d]
  have t: "gopro_packet_get_type f = gopro_packet_13bit" using h(1) by simp
  have l: "gopro_packet_get_len f = int (unat n)" using h(2) n by simp
  then show "gopro_packet_get_len f = int (unat n)" .
  have p: "length p = 18" using f(1) d by (simp add: wf_cmd_def)
  then have fp: "frame_payload f = p"
    using d f(2) by (simp add: frame_payload_def frame_bytes_def t header_size_def)
  show "frame_ok f" using f n p by (simp add: frame_ok_def t l fp header_size_def)
  show "frame_view f = First (ucast (cmd_type f)) (unat n) p"
    by (simp add: frame_view_def t fp l)
qed

lemma take_drop_take: "k \<le> n \<Longrightarrow> take k xs @ drop k (take n xs) = take n xs"
  by (subst append_take_drop_id [of k "take n xs", symmetric]) (simp add: min_def del: append_take_drop_id)

text \<open>The frames of a message, as the receiver sees them.\<close>

definition frames_of :: "u8 \<Rightarrow> bytes \<Rightarrow> gopro_cmd_t list \<Rightarrow> bool" where
  "frames_of ty msg frames \<longleftrightarrow>
     (\<exists>f fs p. frames = f # fs \<and> frame_ok f \<and> 1 \<le> unat (cmd_len f) \<and>
        frame_view f = First ty (length msg) p \<and> gopro_packet_get_len f = int (length msg) \<and>
        list_all good_cont fs \<and> p @ concat (map frame_payload fs) = msg \<and>
        (\<forall>c \<in> set frames. cmd_type c = ucast ty))"

lemma frames_of_received:
  assumes "frames_of ty msg frames" and "alloc_ok env" and "env_alloc env Alloc_Packet (length msg) \<noteq> None"
    and "wf_packet (sys_packet sys)" and "msg \<noteq> []"
  shows "\<exists>pk. holds_message pk \<lparr>msg_type = ty, msg_bytes = msg\<rparr> \<and>
    build_all env stk frames sys = parse_and_free env stk (sys\<lparr>sys_packet := pk\<rparr>)"
proof -
  obtain f fs p where f: "frames = f # fs" "frame_ok f" "frame_view f = First ty (length msg) p"
    "gopro_packet_get_len f = int (length msg)" "list_all good_cont fs" "p @ concat (map frame_payload fs) = msg"
    using assms(1) by (auto simp: frames_of_def)
  have hp: "heap_has env f" using assms(3) unfolding heap_has_def f(4) nat_int .
  from build_message [OF assms(2,4) f(2,3) hp _ f(5), of stk] assms(5) f(1,6) show ?thesis by auto
qed

lemma sender_frames:
  assumes stk: "length stk = 20" and l: "unat len \<le> 8189" "unat len \<le> length data"
  shows "\<exists>frames. big_data_frames stk data len ty feat act = Some frames \<and>
    frames_of ty ([feat, act] @ take (unat len) data) frames"
proof -
  have u: "unat (len + 2) = unat len + 2" using l(1) by (simp add: unat_word_ariths)
  have lm: "length ([feat, act] @ take (unat len) data) = unat len + 2" using l(2) by simp
  have ucast_id: "ucast (ucast ty :: u32) = ty" by (simp add: ucast_down_ucast_id is_down)
  show ?thesis
  proof (cases "unat len \<le> 17")
    case True
    obtain f where f: "big_data_frames stk data len ty feat act = Some [f]" "wf_cmd f"
      "cmd_type f = ucast ty" "unat (cmd_len f) = unat len + 3"
      "frame_bytes f = [ucast ((len + 2) AND 0x1F), feat, act] @ take (unat len) data"
      using big_data_short [OF True l(2) stk] by blast
    have h0: "cmd_data f ! 0 = ucast ((len + 2) AND 0x1F)"
      using f(4,5) nth_take [of 0 "unat (cmd_len f)" "cmd_data f"] by (simp add: frame_bytes_def)
    note h = short_header [OF h0]
    have t: "gopro_packet_get_type f = gopro_packet_5bit" and gl: "gopro_packet_get_len f = int (unat len + 2)"
      using h u True by simp_all
    have ngl: "nat (gopro_packet_get_len f) = unat len + 2" by (simp only: gl nat_int)
    have fp: "frame_payload f = [feat, act] @ take (unat len) data"
      by (simp add: frame_payload_def t header_size_def f(5))
    have ok: "frame_ok f"
      using f(2,4) True l(2) by (simp add: frame_ok_def t ngl fp header_size_def)
    have view: "frame_view f = First ty (unat len + 2) ([feat, act] @ take (unat len) data)"
      unfolding frame_view_def fp ngl f(3) ucast_id by (simp add: t)
    show ?thesis
      using f(1,3,4) ok view gl lm unfolding frames_of_def by (intro exI [of _ "[f]"]) auto
  next
    case False
    then have b: "17 < unat len" "unat len < 8191" using l(1) by simp_all
    obtain f fs where f: "big_data_frames stk data len ty feat act = Some (f # fs)" "wf_cmd f"
      "cmd_type f = ucast ty" "cmd_len f = 20"
      "cmd_data f = [hdr13_0 (len + 2), hdr13_1 (len + 2), feat, act] @ take 16 data"
      "\<forall>g \<in> set fs. cont_frame (ucast ty) g"
      "map frame_bytes fs = numbered 0 (pieces 19 (drop 16 (take (unat len) data)))"
      using big_data_long [OF b l(2)] by blast
    have d: "cmd_data f = [hdr13_0 (len + 2), hdr13_1 (len + 2)] @ [feat, act] @ take 16 data"
      using f(5) by simp
    have "18 \<le> unat (len + 2)" "unat (len + 2) < 8192" using u b(1) l(1) by simp_all
    note ok = long_frame_ok [OF d f(2,4) this]
    have view: "frame_view f = First ty (unat len + 2) ([feat, act] @ take 16 data)"
      unfolding ok(2) f(3) u ucast_id ..
    note cs = sender_conts [OF f(6,7)]
    have all: "take 16 data @ drop 16 (take (unat len) data) = take (unat len) data"
      using b(1) by (intro take_drop_take) simp
    have ty: "\<forall>c \<in> set (f # fs). cmd_type c = ucast ty" using f(3,6) by (auto simp: cont_frame_def)
    have msg: "([feat, act] @ take 16 data) @ concat (map frame_payload fs) = [feat, act] @ take (unat len) data"
      by (simp add: cs(2) all)
    have c1: "1 \<le> unat (cmd_len f)" by (simp add: f(4))
    show ?thesis
      unfolding frames_of_def lm
      using f(1) ok(1) view ok(3) [unfolded u] cs(1) msg ty c1 by blast
  qed
qed

lemma sent_message_received:
  assumes env: "alloc_ok env" "env_alloc env Alloc_Packet (unat len + 2) \<noteq> None"
    and w: "wf_packet (sys_packet sys)" and stk: "length stk' = 20"
    and l: "unat len \<le> 8189" "unat len \<le> length data"
  shows "\<exists>frames pk. big_data_frames stk' data len ty feat act = Some frames \<and>
    holds_message pk \<lparr>msg_type = ty, msg_bytes = [feat, act] @ take (unat len) data\<rparr> \<and>
    build_all env stk frames sys = parse_and_free env stk (sys\<lparr>sys_packet := pk\<rparr>)"
proof -
  obtain frames where f: "big_data_frames stk' data len ty feat act = Some frames"
    "frames_of ty ([feat, act] @ take (unat len) data) frames"
    using sender_frames [OF stk l] by blast
  have "length ([feat, act] @ take (unat len) data) = unat len + 2" using l(2) by simp
  with frames_of_received [OF f(2) env(1) _ w] env(2) f(1) show ?thesis by auto
qed

lemma sent_buffer_received:
  assumes env: "alloc_ok env" "env_alloc env Alloc_Packet (unat len) \<noteq> None"
    and w: "wf_packet (sys_packet sys)"
    and l: "20 < unat len" "unat len < 8191" "unat len \<le> length data"
  shows "\<exists>frames pk. send_buf_frames stk' data len ty = Some frames \<and>
    holds_message pk \<lparr>msg_type = ty, msg_bytes = take (unat len) data\<rparr> \<and>
    build_all env stk frames sys = parse_and_free env stk (sys\<lparr>sys_packet := pk\<rparr>)"
proof -
  obtain f fs where f: "send_buf_frames stk' data len ty = Some (f # fs)" "wf_cmd f"
    "cmd_type f = ucast ty" "cmd_len f = 20"
    "cmd_data f = [hdr13_0 len, hdr13_1 len] @ take 18 data"
    "\<forall>g \<in> set fs. cont_frame (ucast ty) g"
    "map frame_bytes fs = numbered 0 (pieces 19 (drop 18 (take (unat len) data)))"
    using send_buf_long [OF l] by blast
  have "18 \<le> unat len" "unat len < 8192" using l by simp_all
  note ok = long_frame_ok [OF f(5,2,4) this]
  have view: "frame_view f = First ty (unat len) (take 18 data)"
    unfolding ok(2) f(3) by (simp add: ucast_down_ucast_id is_down)
  have hp: "heap_has env f" using env(2) unfolding heap_has_def ok(3) nat_int .
  note cs = sender_conts [OF f(6,7)]
  have all: "take 18 data @ drop 18 (take (unat len) data) = take (unat len) data"
    using l(1) by (intro take_drop_take) simp
  have n: "length (take 18 data @ concat (map frame_payload fs)) = unat len"
    unfolding cs(2) all using l(3) by simp
  have nz: "unat len \<noteq> 0" using l(1) by simp
  from build_message [OF env(1) w ok(1) view hp nz cs(1) n, of stk] f(1) show ?thesis
    unfolding cs(2) all by blast
qed

text \<open>
  The sender accepts a length of 8190: the message has 8192 bytes with feature and action,
  which the 13-bit length field cannot hold. The receiver reads the length 0 and drops the
  message.
\<close>

lemma longest_message_lost:
  assumes env: "alloc_ok env" and w: "wf_packet (sys_packet sys)"
    and l: "unat len = 8190" "8190 \<le> length data"
  shows "\<exists>frames pk. big_data_frames stk' data len ty feat act = Some frames \<and>
    build_all env stk frames sys = Some (sys\<lparr>sys_packet := pk\<rparr>) \<and> pk_data pk = None"
proof -
  have u: "unat (len + 2) = 8192" using l(1) by (simp add: unat_word_ariths)
  have b: "17 < unat len" "unat len < 8191" "unat len \<le> length data" using l by simp_all
  obtain f fs where f: "big_data_frames stk' data len ty feat act = Some (f # fs)" "wf_cmd f"
    "cmd_len f = 20"
    "cmd_data f = [hdr13_0 (len + 2), hdr13_1 (len + 2), feat, act] @ take 16 data"
    "\<forall>g \<in> set fs. cont_frame (ucast ty) g"
    "map frame_bytes fs = numbered 0 (pieces 19 (drop 16 (take (unat len) data)))"
    using big_data_long [OF b] by blast
  have h: "gopro_packet_get_type f = gopro_packet_13bit" "gopro_packet_get_len f = 0"
    using long_header [of f "len + 2"] f(4) u by simp_all
  have first: "gopro_packet_build env stk f s = Some (s\<lparr>sys_packet := first_packet f\<rparr>)" for s
    using first_packet_fields(6) [of f 2 0] h
    by (simp add: gopro_packet_build_def build_first_def Let_def header_size_def)
  have none: "pk_data (first_packet f) = None"
    using first_packet_fields(8) [of f 2 0] h by (simp add: header_size_def)
  have rest: "\<exists>pk. build_all env stk gs s = Some (s\<lparr>sys_packet := pk\<rparr>) \<and> pk_data pk = None"
    if "list_all good_cont gs" "pk_data (sys_packet s) = None" for gs s
    using that
  proof (induction gs arbitrary: s)
    case Nil
    then show ?case by (intro exI [of _ "sys_packet s"]) simp
  next
    case (Cons g gs)
    define pk where "pk = (sys_packet s)\<lparr>pk_data_start := fst (gopro_packet_get_data_ptr g),
      pk_data_len := snd (gopro_packet_get_data_ptr g)\<rparr>"
    have "gopro_packet_build env stk g s = Some (s\<lparr>sys_packet := pk\<rparr>)"
      using Cons.prems by (simp add: gopro_packet_build_def good_cont_def build_cont_def Let_def pk_def split_beta)
    moreover have "pk_data pk = None" using Cons.prems(2) by (simp add: pk_def)
    ultimately show ?case using Cons.IH [of "s\<lparr>sys_packet := pk\<rparr>"] Cons.prems(1) by simp
  qed
  obtain pk where "build_all env stk fs (sys\<lparr>sys_packet := first_packet f\<rparr>) =
      Some (sys\<lparr>sys_packet := first_packet f\<rparr>\<lparr>sys_packet := pk\<rparr>)" "pk_data pk = None"
    using rest [OF sender_conts(1) [OF f(5,6)], of "sys\<lparr>sys_packet := first_packet f\<rparr>"] none by auto
  then show ?thesis using f(1) first [of sys] by (intro exI [of _ "f # fs"] exI [of _ pk]) simp
qed

subsection \<open>What the handler does not check\<close>

text \<open>
  A first frame that carries more bytes than it announces is copied past the buffer it
  allocated: there is no comparison before the copy.
\<close>

lemma first_frame_overflow:
  assumes t: "gopro_packet_get_type c \<notin> {gopro_packet_cont, gopro_packet_invalid}"
    and c: "wf_cmd c" "unat (cmd_len c) \<le> 20" "header_size (gopro_packet_get_type c) \<le> unat (cmd_len c)"
    and n: "0 < gopro_packet_get_len c" "nat (gopro_packet_get_len c) < length (frame_payload c)"
    and env: "alloc_ok env" "heap_has env c"
  shows "gopro_packet_build env stk c sys = None"
proof -
  define h where "h = header_size (gopro_packet_get_type c)"
  have t': "gopro_packet_get_type c \<noteq> gopro_packet_cont" "gopro_packet_get_type c \<noteq> gopro_packet_invalid"
    using t by auto
  obtain m where m: "gopro_packet_get_len c = int m" "m \<le> 65535" using get_len_nat [OF t'] by blast
  note fld = first_packet_fields [OF t' h_def m(1)]
  have um: "unat (of_nat m :: u32) = m" using m(2) by (simp add: unat_of_nat)
  have hc: "h \<le> unat (cmd_len c)" using c(3) by (simp add: h_def)
  have h3: "h \<le> 3" by (simp add: h_def header_size_def split: gopro_packet_type_t.split)
  have un: "unat (cmd_len c - of_nat h) = length (frame_payload c)"
    using unat_len_minus [OF hc] h3 frame_payload_block(2) [OF c(1,2) h_def hc] by simp
  obtain blk where b: "env_alloc env Alloc_Packet m = Some blk"
    using env(2) m(1) by (auto simp: heap_has_def)
  have lb: "length blk = m" using alloc_okD [OF env(1) b] .
  have z: "wr_block blk 0 (replicate m 0) = Some (replicate m 0)" using lb by simp
  have cp: "memcpy (replicate m 0) 0 (cmd_data c) h (length (frame_payload c)) = None"
    using n m(1) by (simp add: memcpy_eq_None)
  have "(of_nat m :: u32) \<noteq> 0" using n(1) m(1) um by (metis of_nat_0_less_iff less_irrefl unat_0)
  then show ?thesis
    using t'(1) by (simp add: gopro_packet_build_def build_first_def Let_def fld(4-6) um b z un cp)
qed

text \<open>The number in a continuation frame's header has no effect.\<close>

lemma rd_block_drop1: "1 \<le> length b \<Longrightarrow> rd_block b 1 n = rd_block (drop 1 b) 0 n"
  by (auto simp: rd_block_def)

lemma cont_number_ignored:
  assumes "gopro_packet_get_type c = gopro_packet_cont" "gopro_packet_get_type c' = gopro_packet_cont"
    and "wf_cmd c" "wf_cmd c'" and "cmd_len c = cmd_len c'" "drop 1 (cmd_data c) = drop 1 (cmd_data c')"
  shows "gopro_packet_build env stk c sys = gopro_packet_build env stk c' sys"
proof -
  have ptr: "gopro_packet_get_data_ptr c = gopro_packet_get_data_ptr c'"
    by (simp add: gopro_packet_get_data_ptr_def assms(1,2,5))
  have m: "memcpy d n (cmd_data c) 1 k = memcpy d n (cmd_data c') 1 k" for d n k
    using assms(3,4,6) rd_block_drop1 [of "cmd_data c" k] rd_block_drop1 [of "cmd_data c'" k]
    by (simp add: memcpy_def wf_cmd_def)
  have one: "fst (gopro_packet_get_data_ptr c') = 1"
    by (simp add: gopro_packet_get_data_ptr_def assms(2))
  show ?thesis
    unfolding gopro_packet_build_def assms(1,2) if_P [OF refl] build_cont_def ptr
    using one m by (simp add: split_beta Let_def split: option.split)
qed

end
