(* ===== verification/Client_Gatt.thy ===== *)
theory Client_Gatt
  imports Reassembly
begin

section \<open>The GATT client (\<^verbatim>\<open>gopro_client.c\<close>, second part)\<close>

text \<open>
  Notifications, writes, reads and subscriptions of the four control characteristics. A
  pointer to one of the client's parameter structures is its index \<open>k\<close> in the array. What
  the Bluetooth stack answers to a request (\<^verbatim>\<open>bt_gatt_write\<close>, \<^verbatim>\<open>bt_gatt_read\<close>,
  \<^verbatim>\<open>bt_gatt_subscribe\<close>) is an argument.
\<close>

definition upd_client :: "(bt_gopro_client \<Rightarrow> bt_gopro_client) \<Rightarrow> gopro_sys \<Rightarrow> gopro_sys" where
  "upd_client f sys = sys\<lparr>sys_client := f (sys_client sys)\<rparr>"

abbreviation (input) notif_handle :: "bt_gopro_client \<Rightarrow> nat \<Rightarrow> u16" where
  "notif_handle gc i \<equiv> sp_value_handle (gc_notif_params gc ! i)"

abbreviation (input) write_handle :: "bt_gopro_client \<Rightarrow> nat \<Rightarrow> u16" where
  "write_handle gc i \<equiv> wp_handle (gc_write_params gc ! i)"

subsection \<open>Notifications\<close>

text \<open>The loop over the characteristics; \<open>0xFF\<close> when no handle matches.\<close>

definition notify_cmd_type :: "bt_gopro_client \<Rightarrow> u16 \<Rightarrow> u32" where
  "notify_cmd_type gc h =
     (case find (\<lambda>i. h = notif_handle gc i) [0 ..< unat GP_CNTRL_HANDLE_END] of
        Some i \<Rightarrow> of_nat i
      | None \<Rightarrow> 0xFF)"

definition unsubscribe :: "nat \<Rightarrow> nat \<Rightarrow> bt_gopro_client \<Rightarrow> bt_gopro_client" where
  "unsubscribe k flag gc =
     gc\<lparr>gc_notif_params := (gc_notif_params gc)[k := (gc_notif_params gc ! k)\<lparr>sp_value_handle := 0\<rparr>],
        gc_state := atomic_clear_bit flag (gc_state gc)\<rparr>"

definition notify_frame :: "bytes \<Rightarrow> u32 \<Rightarrow> bytes \<Rightarrow> gopro_cmd_t" where
  "notify_frame stk ty pdata =
     (let len = (if GOPRO_CMD_DATA_LEN < length pdata then GOPRO_CMD_DATA_LEN else length pdata) in
      \<lparr>cmd_len = of_nat len, cmd_type = ty, cmd_data = take len pdata @ drop len stk\<rparr>)"

definition on_notify_received ::
    "gopro_env \<Rightarrow> bytes \<Rightarrow> bytes \<Rightarrow> nat \<Rightarrow> bytes option \<Rightarrow> gopro_sys \<Rightarrow> (gatt_iter \<times> gopro_sys) option" where
  "on_notify_received env stk stk' k data sys =
     (let gc = sys_client sys; h = notif_handle gc k in
      case data of
        None \<Rightarrow>
          if h = notif_handle gc (unat GP_CNTRL_HANDLE_SETTINGS)
          then Some (BT_GATT_ITER_STOP, upd_client (unsubscribe k GP_FLAG_SETTINGS_NOTIF_ENABLED) sys)
          else if h = notif_handle gc (unat GP_CNTRL_HANDLE_CMD)
          then Some (BT_GATT_ITER_STOP, upd_client (unsubscribe k GP_FLAG_CMD_NOTIF_ENABLED) sys)
          else if h = notif_handle gc (unat GP_CNTRL_HANDLE_QUERY)
          then Some (BT_GATT_ITER_STOP, upd_client (unsubscribe k GP_FLAG_QUERY_NOTIF_ENABLED) sys)
          else if h = notif_handle gc (unat GP_CNTRL_HANDLE_NET)
          then Some (BT_GATT_ITER_STOP, upd_client (unsubscribe k GP_FLAG_NET_NOTIF_ENABLED) sys)
          else Some (BT_GATT_ITER_CONTINUE, sys)
      | Some pdata \<Rightarrow>
          let ty = notify_cmd_type gc h in
          if ty = 0xFF then Some (BT_GATT_ITER_CONTINUE, sys)
          else do {
            sys \<leftarrow> gopro_packet_build env stk' (notify_frame stk ty pdata) sys;
            Some (BT_GATT_ITER_CONTINUE, sys)
          })"

subsection \<open>Writing a command\<close>

definition write_pending_flag :: "nat \<Rightarrow> nat" where
  "write_pending_flag i =
     (if i = 0 then GP_FLAG_CMD_WRITE_PENDING else if i = 1 then GP_FLAG_SETTINGS_WRITE_PENDING
      else if i = 2 then GP_FLAG_QUERY_WRITE_PENDING else GP_FLAG_NET_WRITE_PENDING)"

definition bt_gopro_client_send ::
    "(bt_gatt_write_params \<Rightarrow> cret) \<Rightarrow> gopro_cmd_t \<Rightarrow> bt_gopro_client \<Rightarrow> cret \<times> bt_gopro_client" where
  "bt_gopro_client_send gatt_write c gc =
     (if gc_conn gc = None then (Neg ENOTCONN, gc)
      else if GP_CNTRL_HANDLE_END \<le> cmd_type c then (Neg ENOTSUP, gc)
      else
        let i = unat (cmd_type c); flag = write_pending_flag i in
        if atomic_test_bit (gc_state gc) flag then (Neg EALREADY, gc)
        else
          let gc = gc\<lparr>gc_state := atomic_set_bit flag (gc_state gc)\<rparr>;
              wp = \<lparr>wp_handle = h_write (gc_handles gc ! i), wp_offset = 0, wp_data = cmd_data c,
                    wp_length = ucast (cmd_len c)\<rparr>;
              gc = gc\<lparr>gc_write_params := (gc_write_params gc)[i := wp]\<rparr>;
              err = gatt_write wp in
          if err \<noteq> OK then (err, gc\<lparr>gc_state := atomic_clear_bit flag (gc_state gc)\<rparr>)
          else (err, gc))"

definition sent_flag :: "bt_gopro_client \<Rightarrow> u16 \<Rightarrow> nat option" where
  "sent_flag gc h =
     (if h = write_handle gc (unat GP_CNTRL_HANDLE_SETTINGS) then Some GP_FLAG_SETTINGS_WRITE_PENDING
      else if h = write_handle gc (unat GP_CNTRL_HANDLE_CMD) then Some GP_FLAG_CMD_WRITE_PENDING
      else if h = write_handle gc (unat GP_CNTRL_HANDLE_QUERY) then Some GP_FLAG_QUERY_WRITE_PENDING
      else if h = write_handle gc (unat GP_CNTRL_HANDLE_NET) then Some GP_FLAG_NET_WRITE_PENDING
      else None)"

definition on_sent_data :: "u8 \<Rightarrow> nat \<Rightarrow> gopro_sys \<Rightarrow> gopro_sys" where
  "on_sent_data err k sys =
     (case sent_flag (sys_client sys) (write_handle (sys_client sys) k) of
        None \<Rightarrow> sys
      | Some flag \<Rightarrow>
          (upd_client (\<lambda>gc. gc\<lparr>gc_state := atomic_clear_bit flag (gc_state gc)\<rparr>) sys)
            \<lparr>sys_write_sem := k_sem_give 1 (sys_write_sem sys)\<rparr>)"

subsection \<open>Reading a Wi-Fi characteristic and subscribing\<close>

definition read_func :: "read_func_t list" where
  "read_func = [on_read_ssid_cb, on_read_pass_cb, on_read_default_cb, on_read_default_cb]"

definition bt_gopro_client_get ::
    "(bt_gatt_read_params \<Rightarrow> cret) \<Rightarrow> u16 \<Rightarrow> bt_gopro_client \<Rightarrow> cret \<times> bt_gopro_client" where
  "bt_gopro_client_get gatt_read handle gc =
     (if gc_conn gc = None then (Neg ENOTCONN, gc)
      else if GP_WIFI_HANDLE_END \<le> unat handle then (Code (- 1), gc)
      else
        let i = unat handle;
            rp = \<lparr>rp_func = Some (read_func ! i), rp_handle = gc_wifihandles gc ! i,
                  rp_offset = 0, rp_count = 1\<rparr> in
        (gatt_read rp, gc\<lparr>gc_read_params := (gc_read_params gc)[i := rp]\<rparr>))"

definition notif_enabled_flag :: "nat \<Rightarrow> nat" where
  "notif_enabled_flag i =
     (if i = 0 then GP_FLAG_CMD_NOTIF_ENABLED else if i = 1 then GP_FLAG_SETTINGS_NOTIF_ENABLED
      else if i = 2 then GP_FLAG_QUERY_NOTIF_ENABLED else GP_FLAG_NET_NOTIF_ENABLED)"

definition gopro_set_subscribe ::
    "(bt_gatt_subscribe_params \<Rightarrow> cret) \<Rightarrow> nat \<Rightarrow> bt_gopro_client \<Rightarrow> cret \<times> bt_gopro_client" where
  "gopro_set_subscribe gatt_subscribe i gc =
     (if unat GP_CNTRL_HANDLE_END \<le> i then (Code (- 1), gc)
      else if atomic_test_bit (gc_state gc) (notif_enabled_flag i) then (Neg EALREADY, gc)
      else
        let gc = gc\<lparr>gc_state := atomic_set_bit (notif_enabled_flag i) (gc_state gc)\<rparr>;
            sp = (gc_notif_params gc ! i)\<lparr>sp_notify_set := True, sp_value := 1,
                   sp_value_handle := h_notify (gc_handles gc ! i),
                   sp_ccc_handle := h_notify_ccc (gc_handles gc ! i), sp_volatile := True\<rparr>;
            gc = gc\<lparr>gc_notif_params := (gc_notif_params gc)[i := sp]\<rparr> in
        if gatt_subscribe sp \<noteq> OK
        then (OK, gc\<lparr>gc_state := atomic_clear_bit (notif_enabled_flag i) (gc_state gc)\<rparr>)
        else (OK, gc))"

subsection \<open>Flags\<close>

lemma flag_ranges [simp]: "write_pending_flag i < 32" "notif_enabled_flag i < 32"
  by (simp_all add: write_pending_flag_def notif_enabled_flag_def)

lemma send_wf [wf_intros]: "wf_client gc \<Longrightarrow> wf_client (snd (bt_gopro_client_send w c gc))"
  by (simp add: bt_gopro_client_send_def Let_def wf_client_def)

lemma get_wf [wf_intros]: "wf_client gc \<Longrightarrow> wf_client (snd (bt_gopro_client_get r h gc))"
  by (simp add: bt_gopro_client_get_def Let_def wf_client_def)

lemma subscribe_wf [wf_intros]: "wf_client gc \<Longrightarrow> wf_client (snd (gopro_set_subscribe s i gc))"
  by (simp add: gopro_set_subscribe_def Let_def wf_client_def)

lemma send_not_accepted:
  assumes "gopro_res = bt_gopro_client_send w c gc" and "fst gopro_res \<noteq> OK"
  shows "gc_state (snd gopro_res) = gc_state gc"
  using assms
  by (auto simp: bt_gopro_client_send_def Let_def split: if_split_asm)

lemma send_accepted:
  assumes "bt_gopro_client_send w c gc = (OK, gc')" and "wf_client gc"
  shows "unat (cmd_type c) < 4 \<and> gc_conn gc \<noteq> None \<and>
    \<not> atomic_test_bit (gc_state gc) (write_pending_flag (unat (cmd_type c))) \<and>
    gc_state gc' = atomic_set_bit (write_pending_flag (unat (cmd_type c))) (gc_state gc) \<and>
    gc_write_params gc' ! unat (cmd_type c) =
      \<lparr>wp_handle = h_write (gc_handles gc ! unat (cmd_type c)), wp_offset = 0, wp_data = cmd_data c,
       wp_length = ucast (cmd_len c)\<rparr>"
proof -
  have t: "\<not> GP_CNTRL_HANDLE_END \<le> cmd_type c"
    using assms(1) by (auto simp: bt_gopro_client_send_def split: if_split_asm)
  then have u: "unat (cmd_type c) < 4" by (simp add: word_le_nat_alt)
  have len: "unat (cmd_type c) < length (gc_write_params gc)"
    using u assms(2) by (simp add: wf_client_def)
  show ?thesis
    using assms(1) u len by (auto simp: bt_gopro_client_send_def Let_def split: if_split_asm)
qed

text \<open>While a write is pending another write to the same characteristic is refused.\<close>

lemma send_twice:
  assumes "bt_gopro_client_send w c gc = (OK, gc')" and "wf_client gc" and "cmd_type c' = cmd_type c"
  shows "bt_gopro_client_send w' c' gc' = (Neg EALREADY, gc')"
proof -
  note acc = send_accepted [OF assms(1,2)]
  have conn: "gc_conn gc' = gc_conn gc"
    using assms(1) by (auto simp: bt_gopro_client_send_def Let_def split: if_split_asm)
  have "\<not> GP_CNTRL_HANDLE_END \<le> cmd_type c" using acc by (simp add: word_le_nat_alt)
  then show ?thesis
    using acc conn assms(3) by (simp add: bt_gopro_client_send_def Let_def)
qed

definition distinct_write_handles :: "bt_gopro_client \<Rightarrow> bool" where
  "distinct_write_handles gc \<longleftrightarrow> distinct (map wp_handle (gc_write_params gc))"

lemma distinct_nth4:
  "length xs = 4 \<Longrightarrow> distinct (map f xs) \<Longrightarrow> i < 4 \<Longrightarrow> j < 4 \<Longrightarrow> f (xs ! i) = f (xs ! j) \<Longrightarrow> i = j"
  by (metis distinct_conv_nth length_map nth_map)

lemma sent_flag_own:
  assumes "wf_client gc" and "distinct_write_handles gc" and "k < 4"
  shows "sent_flag gc (write_handle gc k) = Some (write_pending_flag k)"
proof -
  have l: "length (gc_write_params gc) = 4" using assms(1) by (simp add: wf_client_def)
  have d: "write_handle gc k = write_handle gc j \<longleftrightarrow> k = j" if "j < 4" for j
    using distinct_nth4 [OF l assms(2) [unfolded distinct_write_handles_def] assms(3) that] by auto
  have k: "k \<in> {0, 1, 2, 3}" using assms(3) by auto
  then show ?thesis
    unfolding sent_flag_def using d by (auto simp: write_pending_flag_def)
qed

text \<open>The completion of a write clears the flag the write has set, and gives the semaphore.\<close>

lemma send_then_sent:
  assumes s: "bt_gopro_client_send w c gc = (OK, gc')" and wf: "wf_client gc"
    and d: "distinct_write_handles gc'" and sys: "sys_client sys = gc'"
  shows "gc_state (sys_client (on_sent_data err (unat (cmd_type c)) sys)) = gc_state gc \<and>
    sys_write_sem (on_sent_data err (unat (cmd_type c)) sys) = k_sem_give 1 (sys_write_sem sys)"
proof -
  note acc = send_accepted [OF s wf]
  have wf': "wf_client gc'" using send_wf [OF wf, of w c] s by simp
  have "sent_flag gc' (write_handle gc' (unat (cmd_type c))) = Some (write_pending_flag (unat (cmd_type c)))"
    using acc by (intro sent_flag_own [OF wf' d]) simp
  then show ?thesis using acc sys by (simp add: on_sent_data_def upd_client_def)
qed

subsection \<open>Subscriptions and notifications\<close>

lemma subscribe_failed:
  assumes "gopro_set_subscribe s i gc = (r, gc')" and "i < 4"
    and "\<not> atomic_test_bit (gc_state gc) (notif_enabled_flag i)" and "\<And>sp. s sp \<noteq> OK"
  shows "r = OK \<and> gc_state gc' = gc_state gc"
  using assms by (auto simp: gopro_set_subscribe_def Let_def)

lemma subscribe_sets:
  assumes "gopro_set_subscribe s i gc = (OK, gc')" and "wf_client gc" and "i < 4"
  shows "notif_handle gc' i = h_notify (gc_handles gc ! i) \<and> gc_handles gc' = gc_handles gc \<and>
    (\<forall>j < 4. j \<noteq> i \<longrightarrow> notif_handle gc' j = notif_handle gc j)"
proof -
  have l: "length (gc_notif_params gc) = 4" using assms(2) by (simp add: wf_client_def)
  show ?thesis
    using assms(1,3) l by (auto simp: gopro_set_subscribe_def Let_def split: if_split_asm)
qed

definition distinct_notif_handles :: "bt_gopro_client \<Rightarrow> bool" where
  "distinct_notif_handles gc \<longleftrightarrow> distinct (map sp_value_handle (gc_notif_params gc))"

lemma notify_cmd_type_own:
  assumes "wf_client gc" and "distinct_notif_handles gc" and "k < 4"
  shows "notify_cmd_type gc (notif_handle gc k) = of_nat k"
proof -
  have l: "length (gc_notif_params gc) = 4" using assms(1) by (simp add: wf_client_def)
  have d: "notif_handle gc k = notif_handle gc j \<longleftrightarrow> k = j" if "j < 4" for j
    using distinct_nth4 [OF l assms(2) [unfolded distinct_notif_handles_def] assms(3) that] by auto
  have u: "[0 ..< 4] = [0, 1, 2, 3 :: nat]" by (simp add: upt_rec)
  have k: "k \<in> {0, 1, 2, 3}" using assms(3) by auto
  then show ?thesis
    unfolding notify_cmd_type_def using d by (auto simp: u)
qed

lemma notify_cmd_type_cases:
  "notify_cmd_type gc h = 0xFF \<or> (\<exists>i < 4. notify_cmd_type gc h = of_nat i \<and> h = notif_handle gc i)"
  by (auto simp: notify_cmd_type_def find_Some_iff split: option.split)

lemma notify_frame_wf: "length stk = 20 \<Longrightarrow> wf_cmd (notify_frame stk ty p) \<and>
    unat (cmd_len (notify_frame stk ty p)) = min 20 (length p) \<and>
    frame_bytes (notify_frame stk ty p) = take 20 p"
  by (simp add: notify_frame_def wf_cmd_def frame_bytes_def Let_def unat_of_nat min_def)

lemma notify_data:
  assumes "wf_client (sys_client sys)" and "distinct_notif_handles (sys_client sys)" and "k < 4"
  shows "on_notify_received env stk stk' k (Some p) sys =
    map_option (Pair BT_GATT_ITER_CONTINUE) (gopro_packet_build env stk' (notify_frame stk (of_nat k) p) sys)"
proof -
  have k: "k \<in> {0, 1, 2, 3}" using assms(3) by auto
  then have "(of_nat k :: u32) \<noteq> 0xFF" by auto
  then show ?thesis
    using notify_cmd_type_own [OF assms]
    by (simp add: on_notify_received_def Let_def map_conv_bind_option comp_def)
qed

lemma unsubscribed:
  assumes "wf_client (sys_client sys)" and "distinct_notif_handles (sys_client sys)" and "k < 4"
  shows "on_notify_received env stk stk' k None sys =
    Some (BT_GATT_ITER_STOP, upd_client (unsubscribe k (notif_enabled_flag k)) sys)"
proof -
  have l: "length (gc_notif_params (sys_client sys)) = 4" using assms(1) by (simp add: wf_client_def)
  have d: "notif_handle (sys_client sys) k = notif_handle (sys_client sys) j \<longleftrightarrow> k = j" if "j < 4" for j
    using distinct_nth4 [OF l assms(2) [unfolded distinct_notif_handles_def] assms(3) that] by auto
  have k: "k \<in> {0, 1, 2, 3}" using assms(3) by auto
  then show ?thesis
    unfolding on_notify_received_def using d by (auto simp: Let_def notif_enabled_flag_def)
qed

text \<open>A notification changes neither the connection nor the handles, nor the connection state.\<close>

definition same_link :: "bt_gopro_client \<Rightarrow> bt_gopro_client \<Rightarrow> bool" where
  "same_link gc gc' \<longleftrightarrow> gc_conn gc' = gc_conn gc \<and> gc_handles gc' = gc_handles gc \<and>
     gc_wifihandles gc' = gc_wifihandles gc \<and> (wf_client gc \<longrightarrow> wf_client gc')"

lemma same_link_refl [simp]: "same_link gc gc"
  by (simp add: same_link_def)

lemma unsubscribe_link [simp]: "same_link gc (unsubscribe k f gc)"
  by (simp add: same_link_def unsubscribe_def wf_client_def)

lemma notify_link:
  assumes "on_notify_received env stk stk' k data sys = Some (it, sys')"
    and "alloc_ok env" and "length stk' = 20" and "wf_sys sys"
  shows "gs_state (sys_state sys') = gs_state (sys_state sys) \<and> same_link (sys_client sys) (sys_client sys') \<and>
    wf_sys sys' \<and> pending_from sys sys' \<and> reply_slots sys' \<le> reply_slots sys"
proof (cases data)
  case None
  then show ?thesis
    using assms(1,4)
    by (auto simp: on_notify_received_def Let_def upd_client_def wf_sys_def split: if_split_asm)
next
  case (Some p)
  then have "sys' = sys \<or> (\<exists>c. gopro_packet_build env stk' c sys = Some sys')"
    using assms(1) by (auto simp: on_notify_received_def Let_def bind_eq_Some_conv split: if_split_asm)
  then show ?thesis using build_conn [OF assms(2-4)] assms(4) by (metis le_refl pending_same same_link_refl)
qed

subsection \<open>A message over notifications\<close>

text \<open>The bytes of a frame arrive in another buffer; nothing the receiver looks at changes.\<close>

lemma notify_frame_same:
  assumes c: "wf_cmd c" "unat (cmd_len c) \<le> 20" "1 \<le> unat (cmd_len c)"
    and h: "header_size (gopro_packet_get_type c) \<le> unat (cmd_len c)"
    and c': "c' = notify_frame stk ty (frame_bytes c)" and stk: "length stk = 20"
  shows "gopro_packet_get_type c' = gopro_packet_get_type c"
    and "frame_payload c' = frame_payload c" and "gopro_packet_get_len c' = gopro_packet_get_len c"
proof -
  have lb: "length (frame_bytes c) = unat (cmd_len c)" using c by (simp add: frame_bytes_def wf_cmd_def)
  have fb: "frame_bytes c' = frame_bytes c"
    using notify_frame_wf [OF stk, of ty "frame_bytes c"] c(2) lb by (simp add: c')
  have nth: "cmd_data c' ! i = cmd_data c ! i" if "i < unat (cmd_len c)" for i
    using that lb c(2) by (simp add: c' notify_frame_def Let_def nth_append) (simp add: frame_bytes_def)
  have n0: "cmd_data c' ! 0 = cmd_data c ! 0" using nth c(3) by simp
  show t: "gopro_packet_get_type c' = gopro_packet_get_type c"
    by (simp add: gopro_packet_get_type_def n0)
  show "frame_payload c' = frame_payload c" by (simp add: frame_payload_def t fb)
  have n1: "2 \<le> header_size (gopro_packet_get_type c) \<Longrightarrow> cmd_data c' ! 1 = cmd_data c ! 1"
    and n2: "3 \<le> header_size (gopro_packet_get_type c) \<Longrightarrow> cmd_data c' ! 2 = cmd_data c ! 2"
    using nth h by simp_all
  show "gopro_packet_get_len c' = gopro_packet_get_len c"
    using n1 n2 by (simp add: gopro_packet_get_len_def t n0 header_size_def split: gopro_packet_type_t.split)
qed

lemma notify_frame_ok:
  assumes f: "frame_ok c" "1 \<le> unat (cmd_len c)" and stk: "length stk = 20"
  shows "frame_ok (notify_frame stk ty (frame_bytes c))"
proof -
  have c: "wf_cmd c" "unat (cmd_len c) \<le> 20" "header_size (gopro_packet_get_type c) \<le> unat (cmd_len c)"
    using f(1) by (simp_all add: frame_ok_def)
  note same = notify_frame_same [OF c(1,2) f(2) c(3) refl stk, of ty]
  have "length (frame_bytes c) = unat (cmd_len c)" using c by (simp add: frame_bytes_def wf_cmd_def)
  then show ?thesis
    using f(1) notify_frame_wf [OF stk, of ty "frame_bytes c"] unfolding frame_ok_def same by simp
qed

lemma good_cont_len: "good_cont c \<Longrightarrow> 1 \<le> unat (cmd_len c)"
  by (auto simp: good_cont_def frame_ok_def header_size_def)

lemma notify_frames_of:
  assumes f: "frames_of ty msg frames" and stk: "length stk = 20"
  shows "frames_of ty msg (map (\<lambda>c. notify_frame stk (ucast ty) (frame_bytes c)) frames)"
proof -
  let ?n = "\<lambda>c. notify_frame stk (ucast ty) (frame_bytes c)"
  obtain f0 fs p where f: "frames = f0 # fs" "frame_ok f0" "1 \<le> unat (cmd_len f0)"
    "frame_view f0 = First ty (length msg) p" "gopro_packet_get_len f0 = int (length msg)"
    "list_all good_cont fs" "p @ concat (map frame_payload fs) = msg" "\<forall>c \<in> set frames. cmd_type c = ucast ty"
    using f by (auto simp: frames_of_def)
  have t0: "gopro_packet_get_type f0 \<noteq> gopro_packet_cont"
    using f(4) by (auto simp: frame_view_def split: if_split_asm)
  have c0: "wf_cmd f0" "unat (cmd_len f0) \<le> 20" "header_size (gopro_packet_get_type f0) \<le> unat (cmd_len f0)"
    using f(2) by (simp_all add: frame_ok_def)
  note same0 = notify_frame_same [OF c0(1,2) f(3) c0(3) refl stk, of "ucast ty"]
  have p: "frame_payload f0 = p" using f(4) t0 by (simp add: frame_view_def)
  have view: "frame_view (?n f0) = First ty (length msg) p"
    using t0 f(5) p by (simp add: frame_view_def same0) (simp add: notify_frame_def Let_def ucast_down_ucast_id is_down)
  have len0: "1 \<le> unat (cmd_len (?n f0))"
    using notify_frame_wf [OF stk, of "ucast ty" "frame_bytes f0"] f(3) c0 by (simp add: frame_bytes_def wf_cmd_def)
  have gc: "good_cont (?n c) \<and> frame_payload (?n c) = frame_payload c" if "c \<in> set fs" for c
  proof -
    have g: "good_cont c" using f(6) that by (simp add: list_all_iff)
    then have c: "wf_cmd c" "unat (cmd_len c) \<le> 20" "header_size (gopro_packet_get_type c) \<le> unat (cmd_len c)"
      "frame_ok c" by (auto simp: good_cont_def frame_ok_def)
    note same = notify_frame_same [OF c(1,2) good_cont_len [OF g] c(3) refl stk, of "ucast ty"]
    show ?thesis using g notify_frame_ok [OF c(4) good_cont_len [OF g] stk] by (simp add: good_cont_def same)
  qed
  have fs': "list_all good_cont (map ?n fs)" "map frame_payload (map ?n fs) = map frame_payload fs"
    using gc by (auto simp: list_all_iff)
  have ty: "\<forall>c \<in> set (map ?n frames). cmd_type c = ucast ty"
    by (simp add: notify_frame_def Let_def)
  have len_msg: "gopro_packet_get_len (?n f0) = int (length msg)" unfolding same0(3) by (rule f(5))
  have msg: "p @ concat (map frame_payload (map ?n fs)) = msg" unfolding fs'(2) by (rule f(7))
  have fr: "map ?n frames = ?n f0 # map ?n fs" by (simp add: f(1))
  show ?thesis
    unfolding frames_of_def
    by (intro exI [of _ "?n f0"] exI [of _ "map ?n fs"] exI [of _ p] conjI fr view len_msg msg ty len0
        fs'(1) notify_frame_ok [OF f(2,3) stk])
qed

fun notify_all ::
    "gopro_env \<Rightarrow> bytes \<Rightarrow> bytes \<Rightarrow> nat \<Rightarrow> bytes list \<Rightarrow> gopro_sys \<Rightarrow> gopro_sys option" where
  "notify_all env stk stk' k [] sys = Some sys"
| "notify_all env stk stk' k (p # ps) sys = do {
     (r, sys) \<leftarrow> on_notify_received env stk stk' k (Some p) sys;
     notify_all env stk stk' k ps sys
   }"

lemma notify_all_build:
  assumes env: "alloc_ok env" "length stk' = 20" and k: "k < 4"
    and cl: "wf_client (sys_client sys)" "distinct_notif_handles (sys_client sys)"
    and w: "wf_sys sys" "wf_packet (sys_packet sys)"
    and ok: "list_all frame_ok (map (notify_frame stk (of_nat k)) ps)"
  shows "notify_all env stk stk' k ps sys = build_all env stk' (map (notify_frame stk (of_nat k)) ps) sys"
  using cl w ok
proof (induction ps arbitrary: sys)
  case Nil
  then show ?case by simp
next
  case (Cons p ps)
  note data = notify_data [OF Cons.prems(1,2) k, of env stk stk' p]
  show ?case
  proof (cases "gopro_packet_build env stk' (notify_frame stk (of_nat k) p) sys")
    case None
    then show ?thesis by (simp add: data)
  next
    case (Some s)
    have "frame_ok (notify_frame stk (of_nat k) p)" using Cons.prems(5) by simp
    from build_invariant [OF this env Cons.prems(3,4) Some] Cons.prems Some
    show ?thesis by (simp add: data Cons.IH)
  qed
qed

lemma frames_of_ok: "frames_of ty msg frames \<Longrightarrow> list_all frame_ok frames"
  by (auto simp: frames_of_def good_cont_def list_all_iff)

lemma notified_message_parsed:
  assumes env: "alloc_ok env" "env_alloc env Alloc_Packet (length msg) \<noteq> None"
    and stk: "length stk = 20" "length stk' = 20" and k: "k < 4"
    and cl: "wf_client (sys_client sys)" "distinct_notif_handles (sys_client sys)"
    and w: "wf_sys sys" "wf_packet (sys_packet sys)"
    and f: "frames_of (of_nat k) msg frames" "msg \<noteq> []"
  shows "\<exists>pk. holds_message pk \<lparr>msg_type = of_nat k, msg_bytes = msg\<rparr> \<and>
    notify_all env stk stk' k (map frame_bytes frames) sys =
      parse_and_free env stk' (sys\<lparr>sys_packet := pk\<rparr>)"
proof -
  have kk: "k \<in> {0, 1, 2, 3}" using k by auto
  then have ty: "ucast (of_nat k :: u8) = (of_nat k :: u32)" by auto
  let ?fs = "map (notify_frame stk (of_nat k)) (map frame_bytes frames)"
  have m: "?fs = map (\<lambda>c. notify_frame stk (ucast (of_nat k :: u8)) (frame_bytes c)) frames"
    by (simp add: ty)
  have fo: "frames_of (of_nat k) msg ?fs"
    unfolding m by (rule notify_frames_of [OF f(1) stk(1)])
  show ?thesis
    unfolding notify_all_build [OF env(1) stk(2) k cl w frames_of_ok [OF fo]]
    using frames_of_received [OF fo env w(2) f(2), of stk'] .
qed

end
