(* ===== verification/Canbus.thy ===== *)
theory Canbus
  imports Can_Bridge
begin

section \<open>The CAN interface (\<^verbatim>\<open>canbus.c\<close>)\<close>

text \<open>
  Frames, the channel \<open>can_tx_chan\<close> of frames to send with its validator, the receive
  callback, the reply and heartbeat senders, one round of the transmit thread, and the
  initialisation. The node pairs the application state with the channel's queue and the
  transmit semaphore.
\<close>

subsection \<open>Frames and identifiers\<close>

record can_frame =
  cf_id :: u32
  cf_dlc :: u8
  cf_flags :: u8
  cf_data :: bytes

abbreviation (input) GPCAN_HEART_BEAT_ID :: u32 where "GPCAN_HEART_BEAT_ID \<equiv> 0x734"
abbreviation (input) GPCAN_INPUT_CMD_ID :: u32 where "GPCAN_INPUT_CMD_ID \<equiv> 0x772"
abbreviation (input) GPCAN_REPLY_MSG_CMD_ID :: u32 where "GPCAN_REPLY_MSG_CMD_ID \<equiv> 0x773"
abbreviation (input) GPCAN_INPUT_SET_ID :: u32 where "GPCAN_INPUT_SET_ID \<equiv> 0x774"
abbreviation (input) GPCAN_REPLY_MSG_SETTINGS_ID :: u32 where "GPCAN_REPLY_MSG_SETTINGS_ID \<equiv> 0x775"
abbreviation (input) GPCAN_INPUT_QUERY_ID :: u32 where "GPCAN_INPUT_QUERY_ID \<equiv> 0x776"
abbreviation (input) GPCAN_REPLY_MSG_QUERY_ID :: u32 where "GPCAN_REPLY_MSG_QUERY_ID \<equiv> 0x777"
abbreviation (input) GPCAN_INPUT_NET_ID :: u32 where "GPCAN_INPUT_NET_ID \<equiv> 0x778"
abbreviation (input) GPCAN_REPLY_MSG_NET_ID :: u32 where "GPCAN_REPLY_MSG_NET_ID \<equiv> 0x779"
abbreviation (input) GPCAN_INPUT_CONTROL_ID :: u32 where "GPCAN_INPUT_CONTROL_ID \<equiv> 0x77A"
abbreviation (input) GPCAN_REPLY_MSG_ERR_ID :: u32 where "GPCAN_REPLY_MSG_ERR_ID \<equiv> 0x740"

abbreviation (input) CAN_MAX_DLEN :: nat where "CAN_MAX_DLEN \<equiv> 8"

definition err_state_frame :: can_frame where
  "err_state_frame =
     \<lparr>cf_id = GPCAN_REPLY_MSG_ERR_ID, cf_dlc = 1, cf_flags = 0, cf_data = [0xFF, 0, 0, 0, 0, 0, 0, 0]\<rparr>"

text \<open>The filter the node registers; the driver passes a frame on when it agrees with the
  identifier in every bit of the mask.\<close>

record can_filter =
  flt_id :: u32
  flt_mask :: u32
  flt_flags :: u8

definition goprocan_filter :: can_filter where
  "goprocan_filter = \<lparr>flt_id = GPCAN_INPUT_CMD_ID, flt_mask = 0x7F0, flt_flags = 0\<rparr>"

definition can_filter_match :: "can_filter \<Rightarrow> can_frame \<Rightarrow> bool" where
  "can_filter_match flt f \<longleftrightarrow> (cf_id f XOR flt_id flt) AND flt_mask flt = 0"

definition empty_frame :: can_frame where
  "empty_frame = \<lparr>cf_id = 0, cf_dlc = 0, cf_flags = 0, cf_data = replicate CAN_MAX_DLEN 0\<rparr>"

definition wf_frame :: "can_frame \<Rightarrow> bool" where
  "wf_frame f \<longleftrightarrow> length (cf_data f) = CAN_MAX_DLEN"

text \<open>The bytes a frame puts on the bus.\<close>

definition can_payload :: "can_frame \<Rightarrow> bytes" where
  "can_payload f = take (unat (cf_dlc f)) (cf_data f)"

subsection \<open>The transmit channel\<close>

definition can_msg_validator :: "can_frame \<Rightarrow> bool" where
  "can_msg_validator f =
     (if cf_dlc f = 0 \<or> 8 < cf_dlc f then False
      else if 0x7FF < cf_id f then False
      else if cf_flags f \<noteq> 0 then False
      else True)"

definition can_gopro_cmd_validator :: "gopro_cmd_t \<Rightarrow> bool" where
  "can_gopro_cmd_validator c =
     (if 20 < cmd_len c then False
      else if cmd_type c = GP_CNTRL_HANDLE_CMD \<or> cmd_type c = GP_CNTRL_HANDLE_SETTINGS \<or>
              cmd_type c = GP_CNTRL_HANDLE_QUERY \<or> cmd_type c = GP_CNTRL_HANDLE_NET
           then True
      else False)"

record can_node =
  cn_sys :: gopro_sys
  cn_tx_queue :: "can_frame list"
  cn_data_queue :: "gopro_cmd_t list"
  cn_tx_sem :: nat

text \<open>\<open>deliver\<close> is the channel's answer to a valid message.\<close>

definition can_tx_pub :: "(can_frame \<Rightarrow> cret) \<Rightarrow> can_frame \<Rightarrow> can_node \<Rightarrow> cret \<times> can_node" where
  "can_tx_pub deliver f n =
     (if \<not> can_msg_validator f then (Neg ENOMSG, n)
      else if deliver f = OK then (OK, n\<lparr>cn_tx_queue := cn_tx_queue n @ [f]\<rparr>)
      else (deliver f, n))"

definition can_txdata_pub :: "(gopro_cmd_t \<Rightarrow> cret) \<Rightarrow> gopro_cmd_t \<Rightarrow> can_node \<Rightarrow> cret \<times> can_node" where
  "can_txdata_pub deliver c n =
     (if \<not> can_gopro_cmd_validator c then (Neg ENOMSG, n)
      else if deliver c = OK then (OK, n\<lparr>cn_data_queue := cn_data_queue n @ [c]\<rparr>)
      else (deliver c, n))"

interpretation tx_chan:
  validated_channel "can_tx_pub deliver" "\<lambda>n. can_msg_validator" cn_tx_queue
  for deliver
proof
  fix n f n' k
  show "\<not> can_msg_validator f \<Longrightarrow> can_tx_pub deliver f n = (Neg ENOMSG, n)"
    by (simp add: can_tx_pub_def)
  show "can_tx_pub deliver f n = (OK, n') \<Longrightarrow>
      can_msg_validator f \<and> cn_tx_queue n' = cn_tx_queue n @ [f]"
    by (clarsimp simp: can_tx_pub_def split: if_split_asm)
  show "fst (can_tx_pub deliver f n) \<noteq> OK \<Longrightarrow> snd (can_tx_pub deliver f n) = n"
    by (simp add: can_tx_pub_def split: if_splits)
qed simp

interpretation txdata_chan:
  validated_channel "can_txdata_pub deliver" "\<lambda>n. can_gopro_cmd_validator" cn_data_queue
  for deliver
proof
  fix n f n' k
  show "\<not> can_gopro_cmd_validator f \<Longrightarrow> can_txdata_pub deliver f n = (Neg ENOMSG, n)"
    by (simp add: can_txdata_pub_def)
  show "can_txdata_pub deliver f n = (OK, n') \<Longrightarrow>
      can_gopro_cmd_validator f \<and> cn_data_queue n' = cn_data_queue n @ [f]"
    by (clarsimp simp: can_txdata_pub_def split: if_split_asm)
  show "fst (can_txdata_pub deliver f n) \<noteq> OK \<Longrightarrow> snd (can_txdata_pub deliver f n) = n"
    by (simp add: can_txdata_pub_def split: if_splits)
qed simp

lemma can_tx_pub_frame [gp_simps]:
  "cn_sys (snd (can_tx_pub d f n)) = cn_sys n"
  "cn_data_queue (snd (can_tx_pub d f n)) = cn_data_queue n"
  "cn_tx_sem (snd (can_tx_pub d f n)) = cn_tx_sem n"
  by (simp_all add: can_tx_pub_def)

lemma can_tx_pub_accepted:
  "can_msg_validator f \<Longrightarrow> d f = OK \<Longrightarrow> can_tx_pub d f n = (OK, n\<lparr>cn_tx_queue := cn_tx_queue n @ [f]\<rparr>)"
  by (simp add: can_tx_pub_def)

lemma can_msg_validator_iff:
  "can_msg_validator f \<longleftrightarrow> unat (cf_dlc f) \<in> {1..8} \<and> unat (cf_id f) \<le> 0x7FF \<and> cf_flags f = 0"
  by (auto simp: can_msg_validator_def word_less_nat_alt unat_eq_0 [symmetric] Suc_le_eq)

lemma err_frame_valid: "can_msg_validator err_state_frame"
  by (simp add: can_msg_validator_def err_state_frame_def)

subsection \<open>Receiving a frame\<close>

definition rx_cmd_type :: "u32 \<Rightarrow> u32 option" where
  "rx_cmd_type fid =
     (if fid = GPCAN_INPUT_CMD_ID then Some GP_CNTRL_HANDLE_CMD
      else if fid = GPCAN_INPUT_SET_ID then Some GP_CNTRL_HANDLE_SETTINGS
      else if fid = GPCAN_INPUT_QUERY_ID then Some GP_CNTRL_HANDLE_QUERY
      else if fid = GPCAN_INPUT_NET_ID then Some GP_CNTRL_HANDLE_NET
      else if fid = GPCAN_INPUT_CONTROL_ID then Some 0xFF
      else None)"

definition rx_callback_function ::
    "gopro_env \<Rightarrow> (can_frame \<Rightarrow> cret) \<Rightarrow> can_frame \<Rightarrow> can_node \<Rightarrow> can_node option" where
  "rx_callback_function env deliver frame n =
     (case rx_cmd_type (cf_id frame) of
        None \<Rightarrow> Some n
      | Some ty \<Rightarrow>
          if 0 < cf_dlc frame \<and> unat (cf_dlc frame) \<le> GOPRO_CMD_DATA_LEN then do {
            d \<leftarrow> rd_block (cf_data frame) 0 (unat (cf_dlc frame));
            data \<leftarrow> wr_block (replicate GOPRO_CMD_DATA_LEN 0) 0 d;
            let gopro_cmd = \<lparr>cmd_len = ucast (cf_dlc frame), cmd_type = ty, cmd_data = data\<rparr>;
            let (err, sys) = cmd_chan_pub env gopro_cmd (cn_sys n);
            let n = n\<lparr>cn_sys := sys\<rparr>;
            Some (if err = Neg ENOMSG then snd (can_tx_pub deliver err_state_frame n) else n)
          }
          else Some n)"

subsection \<open>Replies, the heartbeat\<close>

definition reply_id :: "u32 \<Rightarrow> u32 option" where
  "reply_id ty =
     (if ty = GP_CNTRL_HANDLE_CMD then Some GPCAN_REPLY_MSG_CMD_ID
      else if ty = GP_CNTRL_HANDLE_SETTINGS then Some GPCAN_REPLY_MSG_SETTINGS_ID
      else if ty = GP_CNTRL_HANDLE_QUERY then Some GPCAN_REPLY_MSG_QUERY_ID
      else if ty = GP_CNTRL_HANDLE_NET then Some GPCAN_REPLY_MSG_NET_ID
      else None)"

text \<open>One round of \<^verbatim>\<open>can_data_subscriber_task\<close>, for the message it takes from its queue.\<close>

definition can_data_round ::
    "(can_frame \<Rightarrow> cret) \<Rightarrow> gopro_cmd_t \<Rightarrow> can_node \<Rightarrow> can_node option" where
  "can_data_round deliver c n =
     (if 0 < cmd_len c then
        (case reply_id (cmd_type c) of
           None \<Rightarrow> Some n
         | Some rid \<Rightarrow> do {
             d0 \<leftarrow> rd (cmd_data c) 0;
             let data_len = (if ucast d0 = cmd_len c - 1 then uint d0 else sint (cmd_len c));
             tx_frame \<leftarrow>
               (if 8 < data_len then Some err_state_frame
                else do {
                  let dlc = (word_of_int data_len :: u8);
                  d \<leftarrow> rd_block (cmd_data c) 1 (unat dlc);
                  data \<leftarrow> wr_block (cf_data empty_frame) 0 d;
                  Some (empty_frame\<lparr>cf_id := rid, cf_dlc := dlc, cf_data := data\<rparr>)
                });
             Some (snd (can_tx_pub deliver tx_frame n))
           })
      else Some n)"

definition can_data_subscriber_step :: "(can_frame \<Rightarrow> cret) \<Rightarrow> can_node \<Rightarrow> can_node option" where
  "can_data_subscriber_step deliver n =
     (case cn_data_queue n of
        [] \<Rightarrow> None
      | c # q \<Rightarrow> can_data_round deliver c (n\<lparr>cn_data_queue := q\<rparr>))"

definition heart_beat :: "gopro_state_t \<Rightarrow> can_frame" where
  "heart_beat s =
     \<lparr>cf_id = GPCAN_HEART_BEAT_ID, cf_dlc = 4, cf_flags = 0,
      cf_data = [of_nat (state_code (gs_state s)), gs_record s, gs_battery s, ucast (gs_video_count s),
                 0, 0, 0, 0]\<rparr>"

definition can_tx_work_handler :: "(can_frame \<Rightarrow> cret) \<Rightarrow> can_node \<Rightarrow> can_node" where
  "can_tx_work_handler deliver n = snd (can_tx_pub deliver (heart_beat (sys_state (cn_sys n))) n)"

lemma heart_beat_valid: "can_msg_validator (heart_beat s)"
  by (simp add: can_msg_validator_def heart_beat_def)

lemma heart_beat_payload:
  "can_payload (heart_beat s) =
     [of_nat (state_code (gs_state s)), gs_record s, gs_battery s, ucast (gs_video_count s)]"
  by (simp add: can_payload_def heart_beat_def)

subsection \<open>The transmit thread\<close>

text \<open>
  One round of \<^verbatim>\<open>can_tx_subscriber_task\<close> on the head of its queue. \<open>can_send\<close> is the
  driver's answer; \<open>arrived\<close> says whether \<^verbatim>\<open>can_tx_callback\<close> runs during the 50 ms the
  thread waits. The two flags are the thread's local variables and keep it from repeating
  a message; the messages it logs are events.
\<close>

datatype can_log = Sending_failed cret | Send_timeout | Send_restore

record can_tx_thread =
  tx_error_flag :: u8
  tx_timeout_flag :: u8
  tx_log :: "can_log list"

definition can_tx_callback :: "can_node \<Rightarrow> can_node" where
  "can_tx_callback n = n\<lparr>cn_tx_sem := k_sem_give 1 (cn_tx_sem n)\<rparr>"

definition tx_error_round :: "cret \<Rightarrow> can_tx_thread \<Rightarrow> can_tx_thread" where
  "tx_error_round err th =
     (if err \<noteq> OK then
        if tx_error_flag th = 0
        then th\<lparr>tx_log := tx_log th @ [Sending_failed err], tx_error_flag := 1\<rparr>
        else th
      else th\<lparr>tx_error_flag := 0\<rparr>)"

definition tx_timeout_round :: "bool \<Rightarrow> can_tx_thread \<Rightarrow> can_tx_thread" where
  "tx_timeout_round taken th =
     (if \<not> taken then
        if tx_timeout_flag th = 0
        then th\<lparr>tx_timeout_flag := 1, tx_log := tx_log th @ [Send_timeout]\<rparr>
        else th
      else
        (if tx_timeout_flag th = 1 then th\<lparr>tx_log := tx_log th @ [Send_restore]\<rparr> else th)
          \<lparr>tx_timeout_flag := 0\<rparr>)"

definition can_tx_subscriber_step ::
    "(can_frame \<Rightarrow> cret) \<Rightarrow> bool \<Rightarrow> can_node \<times> can_tx_thread \<times> can_frame list \<Rightarrow>
     (can_node \<times> can_tx_thread \<times> can_frame list) option" where
  "can_tx_subscriber_step can_send arrived st = (case st of (n, th, bus) \<Rightarrow>
     (case cn_tx_queue n of
        [] \<Rightarrow> None
      | f # q \<Rightarrow>
          let n = n\<lparr>cn_tx_queue := q\<rparr>;
              err = can_send f;
              bus = (if err = OK then bus @ [f] else bus);
              th = tx_error_round err th;
              n = (if arrived then can_tx_callback n else n);
              taken = (0 < cn_tx_sem n);
              n = (if taken then n\<lparr>cn_tx_sem := cn_tx_sem n - 1\<rparr> else n) in
          Some (n, tx_timeout_round taken th, bus)))"

text \<open>
  The timeout flag tells which of the two messages was logged last, so timeouts and
  restores alternate: a fault is reported once and its end once.
\<close>

definition timeout_events :: "can_log list \<Rightarrow> can_log list" where
  "timeout_events l = filter (\<lambda>e. e = Send_timeout \<or> e = Send_restore) l"

fun alternates :: "can_log \<Rightarrow> can_log list \<Rightarrow> bool" where
  "alternates e [] = True"
| "alternates e (x # xs) = (x = e \<and> alternates (if e = Send_timeout then Send_restore else Send_timeout) xs)"

lemma alternates_snoc:
  "a \<in> {Send_timeout, Send_restore} \<Longrightarrow>
   alternates a (xs @ [e]) \<longleftrightarrow>
     alternates a xs \<and>
     e = (if even (length xs) then a else if a = Send_timeout then Send_restore else Send_timeout)"
  by (induction xs arbitrary: a) auto

definition tx_thread_ok :: "can_tx_thread \<Rightarrow> bool" where
  "tx_thread_ok th \<longleftrightarrow>
     tx_error_flag th \<in> {0, 1} \<and> tx_timeout_flag th \<in> {0, 1} \<and>
     alternates Send_timeout (timeout_events (tx_log th)) \<and>
     (tx_timeout_flag th = 1 \<longleftrightarrow> odd (length (timeout_events (tx_log th))))"

lemma timeout_events_snoc [simp]:
  "timeout_events (l @ [Send_timeout]) = timeout_events l @ [Send_timeout]"
  "timeout_events (l @ [Send_restore]) = timeout_events l @ [Send_restore]"
  "timeout_events (l @ [Sending_failed e]) = timeout_events l"
  by (simp_all add: timeout_events_def)

lemma tx_error_round_ok [wf_intros]: "tx_thread_ok th \<Longrightarrow> tx_thread_ok (tx_error_round err th)"
  by (auto simp: tx_thread_ok_def tx_error_round_def)

lemma tx_timeout_round_ok [wf_intros]: "tx_thread_ok th \<Longrightarrow> tx_thread_ok (tx_timeout_round taken th)"
  by (auto simp: tx_thread_ok_def tx_timeout_round_def alternates_snoc)

lemma tx_step_cons:
  assumes "cn_tx_queue n = f # q"
  shows "can_tx_subscriber_step send arrived (n, th, bus) =
    Some (n\<lparr>cn_tx_queue := q, cn_tx_sem := (if arrived then k_sem_give 1 (cn_tx_sem n) else cn_tx_sem n) - 1\<rparr>,
      tx_timeout_round (arrived \<or> 0 < cn_tx_sem n) (tx_error_round (send f) th),
      bus @ (if send f = OK then [f] else []))"
  using assms
  by (cases n)
     (simp add: can_tx_subscriber_step_def can_tx_callback_def Let_def k_sem_give_def split: if_split)

lemma tx_step_Some:
  assumes "can_tx_subscriber_step send arrived (n, th, bus) = Some (n', th', bus')"
  obtains f where "cn_tx_queue n = f # cn_tx_queue n'" "cn_sys n' = cn_sys n"
    "th' = tx_timeout_round (arrived \<or> 0 < cn_tx_sem n) (tx_error_round (send f) th)"
proof (cases "cn_tx_queue n")
  case Nil
  with assms show ?thesis by (simp add: can_tx_subscriber_step_def)
next
  case (Cons f q)
  have "n' = n\<lparr>cn_tx_queue := q,
        cn_tx_sem := (if arrived then k_sem_give 1 (cn_tx_sem n) else cn_tx_sem n) - 1\<rparr>"
    "th' = tx_timeout_round (arrived \<or> 0 < cn_tx_sem n) (tx_error_round (send f) th)"
    using assms unfolding tx_step_cons [OF Cons] option.inject prod.inject by blast+
  then show ?thesis by (intro that [of f]) (simp_all add: Cons)
qed

lemma tx_step_ok:
  assumes "can_tx_subscriber_step send arrived (n, th, bus) = Some (n', th', bus')" "tx_thread_ok th"
  shows "tx_thread_ok th'"
  by (rule tx_step_Some [OF assms(1)]) (simp add: assms(2) wf_intros)

fun can_tx_run ::
    "((can_frame \<Rightarrow> cret) \<times> bool) list \<Rightarrow> can_node \<times> can_tx_thread \<times> can_frame list \<Rightarrow>
     (can_node \<times> can_tx_thread \<times> can_frame list) option" where
  "can_tx_run [] st = Some st"
| "can_tx_run ((send, arrived) # rs) st = do {
     st \<leftarrow> can_tx_subscriber_step send arrived st;
     can_tx_run rs st
   }"

lemma can_tx_run_ok:
  "can_tx_run rs (n, th, bus) = Some (n', th', bus') \<Longrightarrow> tx_thread_ok th \<Longrightarrow> tx_thread_ok th'"
proof (induction rs arbitrary: n th bus)
  case Nil
  then show ?case by simp
next
  case (Cons r rs)
  obtain send arrived where r: "r = (send, arrived)" by force
  with Cons.prems obtain n1 th1 bus1 where
    s: "can_tx_subscriber_step send arrived (n, th, bus) = Some (n1, th1, bus1)"
    "can_tx_run rs (n1, th1, bus1) = Some (n', th', bus')"
    by (auto simp: bind_eq_Some_conv)
  from Cons.IH [OF s(2) tx_step_ok [OF s(1) Cons.prems(2)]] show ?case .
qed

text \<open>With a working driver the bus carries the queue in order.\<close>

lemma can_tx_run_sends:
  "\<forall>(send, arrived) \<in> set rs. \<forall>f. send f = OK \<Longrightarrow> length rs \<le> length (cn_tx_queue n) \<Longrightarrow>
   \<exists>n' th'. can_tx_run rs (n, th, bus) = Some (n', th', bus @ take (length rs) (cn_tx_queue n)) \<and>
     cn_tx_queue n' = drop (length rs) (cn_tx_queue n)"
proof (induction rs arbitrary: n th bus)
  case Nil
  then show ?case by simp
next
  case (Cons r rs)
  obtain send arrived where r: "r = (send, arrived)" by force
  obtain f q where q: "cn_tx_queue n = f # q" using Cons.prems(2) by (cases "cn_tx_queue n") auto
  have "\<exists>n1 th1. can_tx_subscriber_step send arrived (n, th, bus) = Some (n1, th1, bus @ [f]) \<and>
      cn_tx_queue n1 = q"
    using Cons.prems(1) r by (simp add: tx_step_cons [OF q])
  then obtain n1 th1 where s: "can_tx_subscriber_step send arrived (n, th, bus) = Some (n1, th1, bus @ [f])"
    "cn_tx_queue n1 = q" by blast
  have "\<exists>n' th'. can_tx_run rs (n1, th1, bus @ [f]) = Some (n', th', (bus @ [f]) @ take (length rs) (cn_tx_queue n1)) \<and>
     cn_tx_queue n' = drop (length rs) (cn_tx_queue n1)"
    by (rule Cons.IH) (use Cons.prems q s in auto)
  then show ?case using r q s by auto
qed

subsection \<open>Initialisation\<close>

record can_timing =
  ct_sjw :: nat
  ct_prop_seg :: nat
  ct_phase_seg1 :: nat
  ct_phase_seg2 :: nat
  ct_prescaler :: nat

definition mcp2515_get_timing :: "u8 \<Rightarrow> u8 \<Rightarrow> u8 \<Rightarrow> can_timing" where
  "mcp2515_get_timing cnf1 cnf2 cnf3 =
     \<lparr>ct_sjw = unat (drop_bit 6 cnf1) + 1,
      ct_prop_seg = unat (cnf2 AND 0x7) + 1,
      ct_phase_seg1 = unat (drop_bit 3 cnf2 AND 7) + 1,
      ct_phase_seg2 = unat (cnf3 AND 7) + 1,
      ct_prescaler = unat (cnf1 AND 0x3F) + 1\<rparr>"

text \<open>The driver's answers to the calls of \<^verbatim>\<open>canbus_init\<close>, and the actions it takes.\<close>

record can_driver =
  drv_rst :: "(bool \<times> cret \<times> cret) option"
  drv_ready :: bool
  drv_set_mode :: cret
  drv_calc_timing :: int
  drv_set_timing :: cret
  drv_add_filter :: int
  drv_start :: cret

datatype can_action =
  Rst_configure | Rst_set | Set_mode | Calc_timing | Set_timing | Add_rx_filter | Can_start
| Tx_timer_start | Isotp_init

definition canbus_init :: "can_driver \<Rightarrow> cret \<times> can_action list" where
  "canbus_init d =
     (let go = (\<lambda>acts.
        if \<not> drv_ready d then (Code (- 1), acts)
        else if drv_set_mode d \<noteq> OK then (Code (- 1), acts @ [Set_mode])
        else if drv_calc_timing d < 0 then (Code (- 1), acts @ [Set_mode, Calc_timing])
        else if drv_set_timing d \<noteq> OK then
          (drv_set_timing d, acts @ [Set_mode, Calc_timing, Set_timing])
        else if drv_add_filter d < 0 then
          (Code (- 1), acts @ [Set_mode, Calc_timing, Set_timing, Add_rx_filter])
        else if drv_start d \<noteq> OK then
          (drv_start d, acts @ [Set_mode, Calc_timing, Set_timing, Add_rx_filter, Can_start])
        else (OK, acts @ [Set_mode, Calc_timing, Set_timing, Add_rx_filter, Can_start,
                          Tx_timer_start, Isotp_init])) in
      case drv_rst d of
        None \<Rightarrow> go []
      | Some (ready, conf, lvl) \<Rightarrow>
          if \<not> ready then (Code (- 1), [])
          else if conf \<noteq> OK then (Code (- 1), [Rst_configure])
          else if lvl \<noteq> OK then (Code (- 1), [Rst_configure, Rst_set])
          else go [Rst_configure, Rst_set])"

lemma canbus_init_result:
  "canbus_init d = (r, acts) \<Longrightarrow>
   (r = OK \<longleftrightarrow> Isotp_init \<in> set acts) \<and> (r = OK \<longleftrightarrow> Tx_timer_start \<in> set acts) \<and>
   (Can_start \<in> set acts \<longrightarrow> Add_rx_filter \<in> set acts \<and> Set_timing \<in> set acts)"
  by (auto simp: canbus_init_def Let_def split: if_split_asm option.splits prod.splits)

lemma mcp2515_timing_bounds:
  "mcp2515_get_timing c1 c2 c3 = t \<Longrightarrow>
   ct_sjw t \<in> {1..4} \<and> ct_prescaler t \<in> {1..64} \<and> ct_prop_seg t \<in> {1..8} \<and>
   ct_phase_seg1 t \<in> {1..8} \<and> ct_phase_seg2 t \<in> {1..8}"
proof -
  have m: "unat (x AND 7) < 8" "unat (x AND 0x3F) < 64" for x :: u8
  proof -
    have "x AND 7 = take_bit 3 x" "x AND 0x3F = take_bit 6 x"
      by (simp_all only: take_bit_eq_mask) (simp_all add: mask_eq_exp_minus_1)
    then show "unat (x AND 7) < 8" "unat (x AND 0x3F) < 64"
      by (simp_all only: unsigned_take_bit_eq) (simp_all add: take_bit_eq_mod)
  qed
  have "unat c1 div 64 < 4" by (rule less_mult_imp_div_less) simp
  then have d: "unat (drop_bit 6 c1) < 4"
    by (simp add: unsigned_drop_bit_eq drop_bit_eq_div unat_div)
  show "mcp2515_get_timing c1 c2 c3 = t \<Longrightarrow> ?thesis"
    using m(1) [of c2] m(2) [of c1] m(1) [of "drop_bit 3 c2"] m(1) [of c3] d
    by (auto simp: mcp2515_get_timing_def)
qed

subsection \<open>Frames in, commands out\<close>

definition rx_command :: "can_frame \<Rightarrow> u32 \<Rightarrow> gopro_cmd_t" where
  "rx_command f ty =
     \<lparr>cmd_len = ucast (cf_dlc f), cmd_type = ty,
      cmd_data = can_payload f @ replicate (20 - unat (cf_dlc f)) 0\<rparr>"

lemma rx_callback_defined:
  assumes wf: "wf_frame f" and dlc: "unat (cf_dlc f) \<in> {1..8}" and ty: "rx_cmd_type (cf_id f) = Some ty"
  shows "rx_callback_function env deliver f n =
    Some (let (err, sys) = cmd_chan_pub env (rx_command f ty) (cn_sys n); n = n\<lparr>cn_sys := sys\<rparr> in
          if err = Neg ENOMSG then snd (can_tx_pub deliver err_state_frame n) else n)"
proof -
  have z: "0 < cf_dlc f" using dlc by (simp add: word_less_nat_alt)
  have rd: "rd_block (cf_data f) 0 (unat (cf_dlc f)) = Some (can_payload f)"
    using wf dlc by (simp add: can_payload_def wf_frame_def)
  have "length (can_payload f) = unat (cf_dlc f)" using wf dlc by (simp add: can_payload_def wf_frame_def)
  then have wr: "wr_block (replicate 20 0) 0 (can_payload f) =
      Some (can_payload f @ replicate (20 - unat (cf_dlc f)) 0)"
    using dlc by simp
  show ?thesis
    using z dlc ty by (simp add: rx_callback_function_def rd wr rx_command_def Let_def split: prod.split)
qed

text \<open>Accepted: the command is queued with the payload of the frame.\<close>

lemma rx_callback_queued:
  assumes wf: "wf_frame f" and dlc: "unat (cf_dlc f) \<in> {1..8}" and ty: "rx_cmd_type (cf_id f) = Some ty"
    and st: "ty = 0xFF \<or> gs_state (sys_state (cn_sys n)) = GP_STATE_CONNECTED"
    and ch: "env_cmd_chan env (rx_command f ty) = OK"
  shows "rx_callback_function env deliver f n =
    Some (n\<lparr>cn_sys := (cn_sys n)\<lparr>sys_cmd_queue := sys_cmd_queue (cn_sys n) @ [rx_command f ty]\<rparr>\<rparr>)"
proof -
  have t: "ty = 0xFF \<or> ty \<in> {0, 1, 2, 3}"
    using ty by (auto simp: rx_cmd_type_def split: if_split_asm)
  have l: "unat (cmd_len (rx_command f ty)) \<le> 20" using dlc by (simp add: rx_command_def)
  have "gopro_cmd_validator (sys_state (cn_sys n)) (rx_command f ty)"
  proof (cases "ty = 0xFF")
    case True
    then show ?thesis by (intro validator_control) (simp add: rx_command_def)
  next
    case False
    with st t l show ?thesis by (intro validator_accepts) (simp_all add: rx_command_def)
  qed
  then show ?thesis
    by (simp add: rx_callback_defined [OF wf dlc ty] cmd_chan_pub_def ch)
qed

text \<open>Refused: nothing is queued for the camera, and the bus gets the error frame.\<close>

lemma rx_callback_refused:
  assumes wf: "wf_frame f" and dlc: "unat (cf_dlc f) \<in> {1..8}" and ty: "rx_cmd_type (cf_id f) = Some ty"
    and st: "ty \<noteq> 0xFF" "gs_state (sys_state (cn_sys n)) \<noteq> GP_STATE_CONNECTED"
    and ch: "deliver err_state_frame = OK"
  shows "rx_callback_function env deliver f n = Some (n\<lparr>cn_tx_queue := cn_tx_queue n @ [err_state_frame]\<rparr>)"
proof -
  have "\<not> gopro_cmd_validator (sys_state (cn_sys n)) (rx_command f ty)"
    using st by (simp add: gopro_cmd_validator_def gopro_client_get_state_def rx_command_def)
  then show ?thesis
    by (simp add: rx_callback_defined [OF wf dlc ty] cmd_chan_pub_def can_tx_pub_accepted err_frame_valid ch)
qed

lemma rx_callback_ignored:
  "rx_cmd_type (cf_id f) = None \<or> cf_dlc f = 0 \<or> 20 < unat (cf_dlc f) \<Longrightarrow>
   rx_callback_function env deliver f n = Some n"
  by (auto simp: rx_callback_function_def word_neq_0_conv split: option.split)

text \<open>
  The guard admits the lengths 9 to 20, for which the frame has no data: the callback would
  read past it.
\<close>

lemma rx_callback_overread:
  assumes wf: "wf_frame f" and dlc: "unat (cf_dlc f) \<in> {9..20}" and ty: "rx_cmd_type (cf_id f) = Some ty"
  shows "rx_callback_function env deliver f n = None"
proof -
  have z: "0 < cf_dlc f" using dlc by (simp add: word_less_nat_alt)
  have rd: "rd_block (cf_data f) 0 (unat (cf_dlc f)) = None"
    using wf dlc by (simp add: wf_frame_def)
  show ?thesis using dlc z ty by (simp add: rx_callback_function_def rd)
qed

lemma reply_id_next:
  "rx_cmd_type fid = Some ty \<Longrightarrow> ty \<noteq> 0xFF \<Longrightarrow> reply_id ty = Some (fid + 1)"
  by (auto simp: rx_cmd_type_def reply_id_def split: if_split_asm)

lemma reply_id_types: "(\<exists>i. reply_id ty = Some i) \<longleftrightarrow> ty \<in> {0, 1, 2, 3}"
  by (auto simp: reply_id_def)

text \<open>
  The filter lets through the sixteen identifiers from \<open>0x770\<close>: every one a command may have,
  and the node's own replies, which the callback leaves alone; not its heartbeat and its error frame.
\<close>

lemma and_block:
  fixes n :: nat
  assumes "n < 2 ^ 11"
  shows "n AND 0x7F0 = 16 * (n div 16)"
proof -
  have m: "(0x7F0::nat) = push_bit 4 (mask 7)" by (simp add: mask_eq_exp_minus_1 push_bit_eq_mult)
  have b: "bit n k \<Longrightarrow> k < 11" for k
    using assms by (metis bit_take_bit_iff take_bit_nat_eq_self)
  have "n AND push_bit 4 (mask 7) = push_bit 4 (drop_bit 4 n)"
    by (rule bit_eqI) (auto simp: bit_and_iff bit_push_bit_iff bit_mask_iff bit_drop_bit_eq dest: b)
  then show ?thesis unfolding m by (simp add: push_bit_eq_mult drop_bit_eq_div)
qed

lemma filter_block:
  assumes "cf_id f \<le> 0x7FF"
  shows "can_filter_match goprocan_filter f \<longleftrightarrow> 0x770 \<le> cf_id f \<and> cf_id f \<le> 0x77F"
proof -
  have n: "unat (cf_id f) < 2 ^ 11" using assms by (simp add: word_le_nat_alt)
  have "(cf_id f XOR 0x772) AND 0x7F0 = (cf_id f AND 0x7F0) XOR 0x770" by (simp add: bit.conj_xor_distrib2)
  also have "\<dots> = 0 \<longleftrightarrow> cf_id f AND 0x7F0 = 0x770"
    by (metis bit.xor_left_self xor_self_eq xor.right_neutral)
  also have "\<dots> \<longleftrightarrow> unat (cf_id f) AND 0x7F0 = 0x770"
    by (simp add: word_unat_eq_iff unsigned_and_eq)
  also have "\<dots> \<longleftrightarrow> 16 * (unat (cf_id f) div 16) = 0x770" by (simp only: and_block [OF n])
  also have "\<dots> \<longleftrightarrow> 0x770 \<le> unat (cf_id f) \<and> unat (cf_id f) \<le> 0x77F" by presburger
  also have "\<dots> \<longleftrightarrow> 0x770 \<le> cf_id f \<and> cf_id f \<le> 0x77F" by (simp add: word_le_nat_alt)
  finally show ?thesis by (simp add: can_filter_match_def goprocan_filter_def)
qed

lemma commands_pass_filter:
  "rx_cmd_type (cf_id f) = Some ty \<Longrightarrow> can_filter_match goprocan_filter f"
  by (auto simp: rx_cmd_type_def can_filter_match_def goprocan_filter_def split: if_split_asm)

lemma replies_pass_and_are_ignored:
  "reply_id ty = Some i \<Longrightarrow> cf_id f = i \<Longrightarrow>
   can_filter_match goprocan_filter f \<and> rx_cmd_type (cf_id f) = None"
  by (auto simp: reply_id_def rx_cmd_type_def can_filter_match_def goprocan_filter_def split: if_split_asm)

lemma reports_filtered:
  "\<not> can_filter_match goprocan_filter err_state_frame" "\<not> can_filter_match goprocan_filter (heart_beat s)"
  by (simp_all add: can_filter_match_def goprocan_filter_def err_state_frame_def heart_beat_def)

lemma reply_id_range: "reply_id ty = Some i \<Longrightarrow> i \<in> {0x773, 0x775, 0x777, 0x779}"
  by (auto simp: reply_id_def split: if_split_asm)

subsection \<open>Replies on the bus\<close>

definition reply_frame :: "u32 \<Rightarrow> bytes \<Rightarrow> can_frame" where
  "reply_frame i p =
     \<lparr>cf_id = i, cf_dlc = of_nat (length p), cf_flags = 0, cf_data = p @ replicate (8 - length p) 0\<rparr>"

lemma reply_frame_payload: "length p \<le> 8 \<Longrightarrow> can_payload (reply_frame i p) = p"
  by (simp add: can_payload_def reply_frame_def unat_of_nat)

lemma reply_frame_valid:
  "reply_id ty = Some i \<Longrightarrow> 1 \<le> length p \<Longrightarrow> length p \<le> 8 \<Longrightarrow> can_msg_validator (reply_frame i p)"
  using reply_id_range [of ty i] by (auto simp: can_msg_validator_iff reply_frame_def unat_of_nat)

text \<open>A command whose first byte is the length of the rest becomes a frame with the rest.\<close>

lemma data_round_reply:
  assumes c: "cmd_data c = of_nat (length p) # p @ rest" "cmd_len c = of_nat (Suc (length p))"
    and l: "1 \<le> length p" "length p \<le> 8" and i: "reply_id (cmd_type c) = Some i"
    and ch: "deliver (reply_frame i p) = OK"
  shows "can_data_round deliver c n = Some (n\<lparr>cn_tx_queue := cn_tx_queue n @ [reply_frame i p]\<rparr>)"
proof -
  have len: "cmd_len c - 1 = of_nat (length p)" "0 < cmd_len c"
    using c(2) l by (simp_all add: word_less_nat_alt unat_of_nat del: of_nat_Suc) simp
  have d0: "rd (cmd_data c) 0 = Some (of_nat (length p))" by (simp add: c(1) rd_def)
  have u: "(ucast (of_nat (length p) :: u8) :: u32) = of_nat (length p)"
    using l by (simp add: word_unat_eq_iff unat_of_nat)
  have b: "rd_block (cmd_data c) 1 (length p) = Some p" by (simp add: rd_block_def c(1))
  have v: "uint (of_nat (length p) :: u8) = int (length p)" using l by (simp add: unsigned_of_nat take_bit_eq_mod)
  have w: "wr_block (cf_data empty_frame) 0 p = Some (p @ replicate (8 - length p) 0)"
    using l by (simp add: empty_frame_def)
  have un: "unat (of_nat (length p) :: u8) = length p" using l by (simp add: unat_of_nat)
  have fr: "empty_frame\<lparr>cf_id := i, cf_dlc := of_nat (length p), cf_data := p @ replicate (8 - length p) 0\<rparr> =
      reply_frame i p"
    by (simp add: empty_frame_def reply_frame_def)
  have dl: "\<not> 8 < int (length p)" "(word_of_int (int (length p)) :: u8) = of_nat (length p)" using l by simp_all
  show ?thesis
    unfolding can_data_round_def
    by (simp only: len(1,2) u d0 i v b w un dl fr if_True if_False bind.simps Let_def simp_thms option.simps
        can_tx_pub_accepted [where d = deliver, OF reply_frame_valid [OF i l] ch] snd_conv)
qed

text \<open>A longer payload is answered with the error frame.\<close>

lemma data_round_long:
  assumes c: "cmd_data c = of_nat (length p) # p @ rest" "cmd_len c = of_nat (Suc (length p))"
    and l: "8 < length p" "length p \<le> 19" and i: "reply_id (cmd_type c) = Some i"
    and ch: "deliver err_state_frame = OK"
  shows "can_data_round deliver c n = Some (n\<lparr>cn_tx_queue := cn_tx_queue n @ [err_state_frame]\<rparr>)"
proof -
  have len: "cmd_len c - 1 = of_nat (length p)" "0 < cmd_len c"
    using c(2) l by (simp_all add: word_less_nat_alt unat_of_nat del: of_nat_Suc) simp
  have d0: "rd (cmd_data c) 0 = Some (of_nat (length p))" by (simp add: c(1) rd_def)
  have u: "(ucast (of_nat (length p) :: u8) :: u32) = of_nat (length p)"
    using l by (simp add: word_unat_eq_iff unat_of_nat)
  have v: "uint (of_nat (length p) :: u8) = int (length p)" using l by (simp add: unsigned_of_nat take_bit_eq_mod)
  have dl: "8 < int (length p)" using l by simp
  show ?thesis
    unfolding can_data_round_def
    by (simp only: len(1,2) u d0 i v dl if_True bind.simps Let_def simp_thms option.simps
        can_tx_pub_accepted [where d = deliver, OF err_frame_valid ch] snd_conv)
qed

text \<open>
  A command whose first byte is anything else loses that byte and gains the one after its
  end: the frame carries the bytes 1 to \<open>len\<close> of the buffer.
\<close>

lemma sint_small:
  assumes "unat (w :: u32) < 1000"
  shows "sint w = int (unat w)"
proof -
  have u: "uint w = int (unat w)" by simp
  have p: "(2 :: int) ^ 31 = 2147483648" by simp
  have "sint w = signed_take_bit 31 (uint w)" by (simp add: sint_uint)
  also have "\<dots> = uint w"
    by (rule signed_take_bit_int_eq_self) (use assms u p in linarith)+
  finally show ?thesis by (simp only: u)
qed

lemma data_round_unframed:
  assumes wf: "wf_cmd c" and l: "1 \<le> unat (cmd_len c)" "unat (cmd_len c) \<le> 8"
    and d0: "unat (cmd_data c ! 0) \<noteq> unat (cmd_len c) - 1" and i: "reply_id (cmd_type c) = Some i"
    and ch: "\<And>f. deliver f = OK"
  shows "can_data_round deliver c n = Some (n\<lparr>cn_tx_queue := cn_tx_queue n @
    [reply_frame i (take (unat (cmd_len c)) (drop 1 (cmd_data c)))]\<rparr>)"
proof -
  define k p where "k = unat (cmd_len c)" and "p = take k (drop 1 (cmd_data c))"
  have lk: "1 \<le> k" "k \<le> 8" using l by (simp_all add: k_def)
  have c20: "length (cmd_data c) = 20" using wf by (simp add: wf_cmd_def)
  have lp: "length p = k" using c20 l by (simp add: p_def k_def)
  have z: "0 < cmd_len c" using l by (simp add: word_less_nat_alt)
  have r0: "rd (cmd_data c) 0 = Some (cmd_data c ! 0)" using c20 by simp
  have "cmd_len c \<noteq> 0" using l(1) by auto
  then have m1: "unat (cmd_len c - 1) = k - 1" 
    by (simp only: k_def) (rule unat_minus_one)
  have ne: "(ucast (cmd_data c ! 0) = cmd_len c - 1) = False"
    using d0 m1 by (auto simp: k_def dest!: arg_cong [where f = unat])
  have s: "sint (cmd_len c) = int k"
    using l sint_small [of "cmd_len c"] by (simp add: k_def)
  have b: "rd_block (cmd_data c) 1 k = Some p" using c20 l by (simp add: rd_block_def p_def k_def)
  have w: "wr_block (cf_data empty_frame) 0 p = Some (p @ replicate (8 - length p) 0)"
    using l lp by (simp add: empty_frame_def k_def)
  have dl: "(8 < int k) = False" "(word_of_int (int k) :: u8) = of_nat k" "unat (of_nat k :: u8) = k"
    using lk by (simp_all add: unat_of_nat)
  have fr: "empty_frame\<lparr>cf_id := i, cf_dlc := of_nat k, cf_data := p @ replicate (8 - length p) 0\<rparr> =
      reply_frame i p"
    by (simp add: empty_frame_def reply_frame_def lp)
  have lv: "1 \<le> length p" "length p \<le> 8" using l lp by (simp_all add: k_def)
  show ?thesis
    unfolding can_data_round_def k_def [symmetric] p_def [symmetric]
    by (simp only: z r0 ne i s b w dl fr if_True if_False bind.simps Let_def simp_thms option.simps
        can_tx_pub_accepted [where d = deliver, OF reply_frame_valid [OF i lv] ch] snd_conv)
qed

text \<open>No validated message makes a round read or write outside the buffers.\<close>

lemma data_round_total:
  assumes wf: "wf_cmd c" and v: "can_gopro_cmd_validator c"
  shows "\<exists>n'. can_data_round deliver c n = Some n'"
proof -
  have l: "unat (cmd_len c) \<le> 20"
    using v by (simp add: can_gopro_cmd_validator_def word_less_nat_alt split: if_split_asm)
  have c20: "length (cmd_data c) = 20" using wf by (simp add: wf_cmd_def)
  then have d0: "rd (cmd_data c) 0 = Some (cmd_data c ! 0)" by simp
  have s: "sint (cmd_len c) = int (unat (cmd_len c))"
    using l sint_small [of "cmd_len c"] by simp
  define k where "k = (if ucast (cmd_data c ! 0) = cmd_len c - 1 then unat (cmd_data c ! 0) else unat (cmd_len c))"
  have kk: "(if ucast (cmd_data c ! 0) = cmd_len c - 1 then uint (cmd_data c ! 0) else sint (cmd_len c)) = int k"
    by (simp add: k_def s)
  have k8: "unat (word_of_int (int k) :: u8) = k" if "k \<le> 8" using that by (simp add: unat_of_nat)
  show ?thesis
  proof (cases "k \<le> 8")
    case True
    have "rd_block (cmd_data c) 1 k = Some (take k (drop 1 (cmd_data c)))"
      "wr_block (cf_data empty_frame) 0 (take k (drop 1 (cmd_data c))) \<noteq> None"
      using True c20 by (simp_all add: rd_block_def empty_frame_def)
    with True k8 d0 kk show ?thesis
      by (auto simp: can_data_round_def Let_def split: option.split simp del: One_nat_def)
  next
    case False
    with d0 kk show ?thesis by (auto simp: can_data_round_def Let_def split: option.split)
  qed
qed

text \<open>Everything the three senders publish on the transmit channel passes its validator.\<close>

lemma tx_queue_valid:
  "list_all can_msg_validator (cn_tx_queue n) \<Longrightarrow>
   list_all can_msg_validator (cn_tx_queue (snd (can_tx_pub deliver f n)))"
  using tx_chan.pub_queue [of deliver f n] tx_chan.pub_accept [of deliver f n]
  by (cases "can_tx_pub deliver f n") (auto split: if_splits)

end
