(* ===== verification/Control.thy ===== *)
theory Control
  imports Client_Gatt Canbus
begin

section \<open>Commands of the user and the command thread\<close>

text \<open>
  The control messages (\<^verbatim>\<open>gopro_control.c\<close>), the thread that writes queued commands to the
  camera and the queries it gets after connecting (\<^verbatim>\<open>gopro_ble_discovery.c\<close>), and the
  record button (\<^verbatim>\<open>buttons.c\<close>).
\<close>

subsection \<open>Constant commands\<close>

definition pad20 :: "bytes \<Rightarrow> bytes" where
  "pad20 b = b @ replicate (20 - length b) 0"

definition gopro_start_rec_msg :: gopro_cmd_t where
  "gopro_start_rec_msg =
     \<lparr>cmd_len = 4, cmd_type = GP_CNTRL_HANDLE_CMD, cmd_data = pad20 [0x03, 0x01, 0x01, 0x01]\<rparr>"

definition gopro_stop_rec_msg :: gopro_cmd_t where
  "gopro_stop_rec_msg =
     \<lparr>cmd_len = 4, cmd_type = GP_CNTRL_HANDLE_CMD, cmd_data = pad20 [0x03, 0x01, 0x01, 0x00]\<rparr>"

definition gopro_query_encoding :: gopro_cmd_t where
  "gopro_query_encoding =
     \<lparr>cmd_len = 3, cmd_type = GP_CNTRL_HANDLE_QUERY,
      cmd_data = pad20 [2, GOPRO_QUERY_STATUS_GET_STATUS, GOPRO_STATUS_ID_ENCODING]\<rparr>"

definition gopro_query_battery :: gopro_cmd_t where
  "gopro_query_battery =
     \<lparr>cmd_len = 3, cmd_type = GP_CNTRL_HANDLE_QUERY,
      cmd_data = pad20 [2, GOPRO_QUERY_STATUS_GET_STATUS, GOPRO_STATUS_ID_BAT_PERCENT]\<rparr>"

definition gopro_query_video_num :: gopro_cmd_t where
  "gopro_query_video_num =
     \<lparr>cmd_len = 3, cmd_type = GP_CNTRL_HANDLE_QUERY,
      cmd_data = pad20 [2, GOPRO_QUERY_STATUS_GET_STATUS, GOPRO_STATUS_ID_VIDEO_NUM]\<rparr>"

definition gopro_query_register :: gopro_cmd_t where
  "gopro_query_register =
     \<lparr>cmd_len = 5, cmd_type = GP_CNTRL_HANDLE_QUERY,
      cmd_data = pad20 [4, GOPRO_QUERY_STATUS_REG_STATUS, GOPRO_STATUS_ID_ENCODING,
                        GOPRO_STATUS_ID_VIDEO_NUM, GOPRO_STATUS_ID_BAT_PERCENT]\<rparr>"

definition gopro_get_hw_info :: gopro_cmd_t where
  "gopro_get_hw_info =
     \<lparr>cmd_len = 2, cmd_type = GP_CNTRL_HANDLE_CMD, cmd_data = pad20 [1, 0x3C]\<rparr>"

definition startup_query_list :: "gopro_cmd_t list" where
  "startup_query_list =
     [gopro_query_register, gopro_query_video_num, gopro_query_battery, gopro_query_encoding]"

lemmas command_defs =
  gopro_start_rec_msg_def gopro_stop_rec_msg_def gopro_query_encoding_def gopro_query_battery_def
  gopro_query_video_num_def gopro_query_register_def gopro_get_hw_info_def pad20_def

text \<open>Each is one short packet: its header byte counts the bytes after it.\<close>

definition single_packet :: "gopro_cmd_t \<Rightarrow> bool" where
  "single_packet c \<longleftrightarrow>
     wf_cmd c \<and> gopro_packet_get_type c = gopro_packet_5bit \<and>
     gopro_packet_get_len c = int (unat (cmd_len c)) - 1 \<and> cmd_type c \<in> {0, 1, 2, 3} \<and>
     unat (cmd_len c) \<le> 20"

lemma commands_single:
  "list_all single_packet
     (gopro_start_rec_msg # gopro_stop_rec_msg # gopro_get_hw_info # startup_query_list)"
  by (simp add: startup_query_list_def single_packet_def command_defs wf_cmd_def
      gopro_packet_get_type_def gopro_packet_get_len_def)

subsection \<open>The record button\<close>

definition button_pressed :: "gopro_env \<Rightarrow> gopro_sys \<Rightarrow> gopro_sys" where
  "button_pressed env sys =
     snd (cmd_chan_pub env
       (if gs_record (sys_state sys) = 1 then gopro_stop_rec_msg else gopro_start_rec_msg) sys)"

lemma button_pressed_result:
  assumes "\<And>c. env_cmd_chan env c = OK"
  shows "button_pressed env sys =
    (if gs_state (sys_state sys) = GP_STATE_CONNECTED
     then sys\<lparr>sys_cmd_queue := sys_cmd_queue sys @
            [if gs_record (sys_state sys) = 1 then gopro_stop_rec_msg else gopro_start_rec_msg]\<rparr>
     else sys)"
  by (simp add: button_pressed_def cmd_chan_pub_def gopro_cmd_validator_def gopro_client_get_state_def
      assms gopro_stop_rec_msg_def gopro_start_rec_msg_def)

subsection \<open>Control messages\<close>

text \<open>The second component tells whether the bonds are removed (\<^verbatim>\<open>bt_unpair\<close>).\<close>

definition gopro_ctrl_parse ::
    "gopro_env \<Rightarrow> gopro_cmd_t \<Rightarrow> gopro_sys \<Rightarrow> (int \<times> bool \<times> gopro_sys) option" where
  "gopro_ctrl_parse env c sys =
     (if cmd_type c = 0xFF \<and> cmd_len c = 1 then do {
        d \<leftarrow> rd (cmd_data c) 0;
        if d = 0xDA then Some (1, True, sys)
        else if d = 0xAF then
          Some (1, False, upd_client (\<lambda>gc. gc\<lparr>gc_state := atomic_set_bit GP_FLAG_FORCE_CONNECT (gc_state gc)\<rparr>) sys)
        else if d = 0xBB then do {
          n \<leftarrow> c_strlen (gs_name (sys_state sys));
          Some (1, False, snd (can_reply env 0xFF (take n (gs_name (sys_state sys))) sys))
        }
        else Some (0, False, sys)
      }
      else Some (0, False, sys))"

lemma ctrl_parse_other:
  "cmd_type c \<noteq> 0xFF \<or> cmd_len c \<noteq> 1 \<Longrightarrow> gopro_ctrl_parse env c sys = Some (0, False, sys)"
  by (auto simp: gopro_ctrl_parse_def)

text \<open>A control message touches neither the queue nor the camera state.\<close>

lemma can_reply_frame:
  "sys_state (snd (can_reply env a d sys)) = sys_state sys \<and>
   sys_client (snd (can_reply env a d sys)) = sys_client sys \<and>
   sys_cmd_queue (snd (can_reply env a d sys)) = sys_cmd_queue sys \<and>
   sys_write_sem (snd (can_reply env a d sys)) = sys_write_sem sys"
proof -
  obtain r s where r: "can_reply env a d sys = (r, s)" by force
  then have "sys_state s = sys_state sys \<and> sys_client s = sys_client sys \<and>
      sys_cmd_queue s = sys_cmd_queue sys \<and> sys_write_sem s = sys_write_sem sys"
    by (cases rule: can_reply_cases) simp_all
  then show ?thesis by (simp add: r)
qed

lemma ctrl_parse_frame:
  assumes "gopro_ctrl_parse env c sys = Some (r, u, sys')"
  shows "sys_state sys' = sys_state sys \<and> sys_cmd_queue sys' = sys_cmd_queue sys \<and>
    sys_write_sem sys' = sys_write_sem sys \<and> (u \<longrightarrow> r = 1) \<and> (r = 0 \<or> r = 1) \<and>
    (r = 1 \<longrightarrow> cmd_type c = 0xFF \<and> cmd_len c = 1)"
  using assms can_reply_frame [of env "0xFF" _ sys]
  by (auto simp: gopro_ctrl_parse_def upd_client_def bind_eq_Some_conv split: if_split_asm)

subsection \<open>The command thread\<close>

text \<open>
  One round of \<^verbatim>\<open>gopro_cmd_subscriber_task\<close>. \<open>sent\<close> is the completion callback that runs
  while the thread waits on the write semaphore, if one does: its error and the index of the
  write parameters. The result tells what the round did.
\<close>

datatype cmd_round = Round_control bool | Round_write cret bool

definition gopro_cmd_subscriber_step ::
    "gopro_env \<Rightarrow> (bt_gatt_write_params \<Rightarrow> cret) \<Rightarrow> (u8 \<times> nat) option \<Rightarrow> gopro_sys \<Rightarrow>
     (cmd_round \<times> gopro_sys) option" where
  "gopro_cmd_subscriber_step env gatt_write sent sys =
     (case sys_cmd_queue sys of
        [] \<Rightarrow> None
      | c # q \<Rightarrow> do {
          (r, unpair, sys) \<leftarrow> gopro_ctrl_parse env c (sys\<lparr>sys_cmd_queue := q\<rparr>);
          if r = 1 then Some (Round_control unpair, sys)
          else
            let (err, gc) = bt_gopro_client_send gatt_write c (sys_client sys);
                sys = sys\<lparr>sys_client := gc\<rparr>;
                sys = (case sent of None \<Rightarrow> sys | Some (e, k) \<Rightarrow> on_sent_data e k sys) in
            if 0 < sys_write_sem sys
            then Some (Round_write err True, sys\<lparr>sys_write_sem := sys_write_sem sys - 1\<rparr>)
            else Some (Round_write err False, sys)
        })"

text \<open>
  The handles in the write parameters are zero until a command of their kind is sent, and
  the characteristic's handle afterwards.
\<close>

definition writes_ok :: "bt_gopro_client \<Rightarrow> bool" where
  "writes_ok gc \<longleftrightarrow>
     wf_client gc \<and> gc_conn gc \<noteq> None \<and> distinct (map h_write (gc_handles gc)) \<and>
     0 \<notin> h_write ` set (gc_handles gc) \<and>
     (\<forall>i < 4. write_handle gc i \<in> {0, h_write (gc_handles gc ! i)})"

definition writes_idle :: "bt_gopro_client \<Rightarrow> bool" where
  "writes_idle gc \<longleftrightarrow> (\<forall>i < 4. \<not> atomic_test_bit (gc_state gc) (write_pending_flag i))"

lemma send_idle:
  assumes ok: "writes_ok gc" and idle: "writes_idle gc" and ty: "unat (cmd_type c) < 4"
    and w: "\<And>p. w p = OK"
  shows "bt_gopro_client_send w c gc =
    (OK, gc\<lparr>gc_state := atomic_set_bit (write_pending_flag (unat (cmd_type c))) (gc_state gc),
       gc_write_params := (gc_write_params gc)[unat (cmd_type c) :=
         \<lparr>wp_handle = h_write (gc_handles gc ! unat (cmd_type c)), wp_offset = 0, wp_data = cmd_data c,
          wp_length = ucast (cmd_len c)\<rparr>]\<rparr>)"
proof -
  have "\<not> GP_CNTRL_HANDLE_END \<le> cmd_type c" using ty by (simp add: word_le_nat_alt)
  moreover have "\<not> atomic_test_bit (gc_state gc) (write_pending_flag (unat (cmd_type c)))"
    using idle ty by (simp add: writes_idle_def)
  moreover have "gc_conn gc \<noteq> None" using ok by (simp add: writes_ok_def)
  ultimately show ?thesis by (simp add: bt_gopro_client_send_def Let_def w)
qed

lemma send_writes_ok:
  assumes ok: "writes_ok gc" and s: "bt_gopro_client_send w c gc = (OK, gc')"
  shows "writes_ok gc' \<and> gc_handles gc' = gc_handles gc"
proof -
  have wf: "wf_client gc" using ok by (simp add: writes_ok_def)
  note acc = send_accepted [OF s wf]
  have l: "length (gc_write_params gc) = 4" using wf by (simp add: wf_client_def)
  have "gc_handles gc' = gc_handles gc \<and> gc_conn gc' = gc_conn gc \<and>
      (\<exists>p. gc_write_params gc' = (gc_write_params gc)[unat (cmd_type c) := p])"
    using s by (auto simp: bt_gopro_client_send_def Let_def split: if_split_asm)
  then obtain p where h: "gc_handles gc' = gc_handles gc" "gc_conn gc' = gc_conn gc"
    and p: "gc_write_params gc' = (gc_write_params gc)[unat (cmd_type c) := p]" by blast
  have "write_handle gc' i \<in> {0, h_write (gc_handles gc ! i)}" if "i < 4" for i
    using acc ok that l unfolding p by (cases "i = unat (cmd_type c)") (auto simp: writes_ok_def)
  then show ?thesis
    using ok h send_wf [OF wf, of w c] s by (simp add: writes_ok_def)
qed

lemma sent_flag_set:
  assumes ok: "writes_ok gc" and k: "k < 4" and h: "write_handle gc k = h_write (gc_handles gc ! k)"
  shows "sent_flag gc (write_handle gc k) = Some (write_pending_flag k)"
proof -
  have l: "length (gc_handles gc) = 4" and d: "distinct (map h_write (gc_handles gc))"
    and z: "0 \<notin> h_write ` set (gc_handles gc)"
    and w: "\<forall>i < 4. write_handle gc i \<in> {0, h_write (gc_handles gc ! i)}"
    using ok by (simp_all add: writes_ok_def wf_client_def)
  have nz: "h_write (gc_handles gc ! k) \<noteq> 0" using z k l nth_mem [of k "gc_handles gc"] by force
  have eq: "write_handle gc k = write_handle gc j \<longleftrightarrow> k = j" if "j < 4" for j
    using distinct_nth4 [OF l d k that] w that nz h by force
  have "k \<in> {0, 1, 2, 3}" using k by auto
  then show ?thesis unfolding sent_flag_def using eq by (auto simp: write_pending_flag_def)
qed

text \<open>A command that is written and completed leaves the client as idle as it was.\<close>

lemma cmd_step_write:
  assumes q: "sys_cmd_queue sys = c # q" and ty: "unat (cmd_type c) < 4"
    and ok: "writes_ok (sys_client sys)" and idle: "writes_idle (sys_client sys)"
    and sem: "sys_write_sem sys = 0" and w: "\<And>p. w p = OK"
  shows "\<exists>sys'. gopro_cmd_subscriber_step env w (Some (e, unat (cmd_type c))) sys =
      Some (Round_write OK True, sys') \<and>
    sys_cmd_queue sys' = q \<and> sys_write_sem sys' = 0 \<and> writes_ok (sys_client sys') \<and>
    gc_state (sys_client sys') = gc_state (sys_client sys) \<and> gc_handles (sys_client sys') = gc_handles (sys_client sys) \<and>
    gc_write_params (sys_client sys') = (gc_write_params (sys_client sys))[unat (cmd_type c) :=
      \<lparr>wp_handle = h_write (gc_handles (sys_client sys) ! unat (cmd_type c)), wp_offset = 0,
       wp_data = cmd_data c, wp_length = ucast (cmd_len c)\<rparr>]"
proof -
  let ?k = "unat (cmd_type c)"
  let ?p = "\<lparr>wp_handle = h_write (gc_handles (sys_client sys) ! ?k), wp_offset = 0,
       wp_data = cmd_data c, wp_length = ucast (cmd_len c)\<rparr>"
  obtain gc where s: "bt_gopro_client_send w c (sys_client sys) = (OK, gc)"
    and gc: "gc = (sys_client sys)\<lparr>gc_state := atomic_set_bit (write_pending_flag ?k) (gc_state (sys_client sys)),
       gc_write_params := (gc_write_params (sys_client sys))[?k := ?p]\<rparr>"
    using send_idle [OF ok idle ty, of w] w by blast
  note ok' = send_writes_ok [OF ok s]
  have l: "length (gc_write_params (sys_client sys)) = 4" using ok by (simp add: writes_ok_def wf_client_def)
  have "write_handle gc ?k = h_write (gc_handles gc ! ?k)" using l ty by (simp add: gc)
  from sent_flag_set [OF conjunct1 [OF ok'] ty this]
  have f: "sent_flag gc (write_handle gc ?k) = Some (write_pending_flag ?k)" .
  have n: "cmd_type c \<noteq> 0xFF" using ty by auto
  have cl: "\<not> atomic_test_bit (gc_state (sys_client sys)) (write_pending_flag ?k)"
    using idle ty by (simp add: writes_idle_def)
  let ?sys = "sys\<lparr>sys_cmd_queue := q, sys_client := gc\<rparr>"
  let ?done = "on_sent_data e ?k ?sys"
  have d: "?done = (upd_client (\<lambda>gc. gc\<lparr>gc_state := atomic_clear_bit (write_pending_flag ?k) (gc_state gc)\<rparr>) ?sys)
      \<lparr>sys_write_sem := k_sem_give 1 0\<rparr>"
    using f sem by (simp add: on_sent_data_def upd_client_def)
  have step: "gopro_cmd_subscriber_step env w (Some (e, ?k)) sys =
      Some (Round_write OK True, ?done\<lparr>sys_write_sem := sys_write_sem ?done - 1\<rparr>)"
    using n by (simp add: gopro_cmd_subscriber_step_def q ctrl_parse_other s d k_sem_give_def)
  have st: "gc_state (sys_client ?done) = gc_state (sys_client sys)"
    unfolding d using cl by (simp add: upd_client_def gc)
  have "writes_ok (sys_client ?done)"
    unfolding d using conjunct1 [OF ok'] by (simp add: upd_client_def writes_ok_def wf_client_def)
  moreover have "gc_handles (sys_client ?done) = gc_handles (sys_client sys)"
      "gc_write_params (sys_client ?done) = (gc_write_params (sys_client sys))[?k := ?p]"
      "sys_cmd_queue ?done = q" "sys_write_sem ?done = 1"
    unfolding d by (simp_all add: upd_client_def k_sem_give_def gc)
  ultimately show ?thesis
    using step st by (intro exI [of _ "?done\<lparr>sys_write_sem := sys_write_sem ?done - 1\<rparr>"]) simp
qed

fun gopro_cmd_run ::
    "gopro_env \<Rightarrow> (bt_gatt_write_params \<Rightarrow> cret) \<Rightarrow> (u8 \<times> nat) option list \<Rightarrow> gopro_sys \<Rightarrow>
     (cmd_round list \<times> gopro_sys) option" where
  "gopro_cmd_run env w [] sys = Some ([], sys)"
| "gopro_cmd_run env w (sent # ss) sys = do {
     (r, sys) \<leftarrow> gopro_cmd_subscriber_step env w sent sys;
     (rs, sys) \<leftarrow> gopro_cmd_run env w ss sys;
     Some (r # rs, sys)
   }"

lemma cmd_run_writes:
  assumes "sys_cmd_queue sys = cs @ q" and "\<forall>c \<in> set cs. unat (cmd_type c) < 4"
    and "writes_ok (sys_client sys)" and "writes_idle (sys_client sys)"
    and "sys_write_sem sys = 0" and w: "\<And>p. w p = OK"
  shows "\<exists>sys'. gopro_cmd_run env w (map (\<lambda>c. Some (0, unat (cmd_type c))) cs) sys =
      Some (replicate (length cs) (Round_write OK True), sys') \<and>
    sys_cmd_queue sys' = q \<and> writes_idle (sys_client sys')"
  using assms(1-5)
proof (induction cs arbitrary: sys)
  case Nil
  then show ?case by simp
next
  case (Cons c cs)
  have q: "sys_cmd_queue sys = c # cs @ q" and ty: "unat (cmd_type c) < 4"
    using Cons.prems by simp_all
  from cmd_step_write [where e = 0 and env = env and w = w, OF q ty Cons.prems(3-5) w]
  obtain s where s: "gopro_cmd_subscriber_step env w (Some (0, unat (cmd_type c))) sys = Some (Round_write OK True, s)"
    "sys_cmd_queue s = cs @ q" "sys_write_sem s = 0" "writes_ok (sys_client s)"
    "gc_state (sys_client s) = gc_state (sys_client sys)" by blast
  have i: "writes_idle (sys_client s)" using Cons.prems(4) s(5) by (simp add: writes_idle_def)
  from Cons.IH [OF s(2) _ s(4) i s(3)] Cons.prems(2)
  obtain s' where "gopro_cmd_run env w (map (\<lambda>c. Some (0, unat (cmd_type c))) cs) s =
      Some (replicate (length cs) (Round_write OK True), s') \<and>
    sys_cmd_queue s' = q \<and> writes_idle (sys_client s')" by auto
  then show ?case by (simp add: s(1))
qed

text \<open>
  Without a completion the round times out, and the next command of the same kind is taken
  from the queue and lost.
\<close>

lemma cmd_step_timeout:
  assumes q: "sys_cmd_queue sys = c # c' # q" and ty: "unat (cmd_type c) < 4" "cmd_type c' = cmd_type c"
    and ok: "writes_ok (sys_client sys)" and idle: "writes_idle (sys_client sys)"
    and sem: "sys_write_sem sys = 0" and w: "\<And>p. w p = OK"
  shows "\<exists>sys'. gopro_cmd_run env w [None, None] sys =
      Some ([Round_write OK False, Round_write (Neg EALREADY) False], sys') \<and> sys_cmd_queue sys' = q"
proof -
  obtain gc where s: "bt_gopro_client_send w c (sys_client sys) = (OK, gc)"
    using send_idle [OF ok idle ty(1), of w] w by blast
  have wf: "wf_client (sys_client sys)" using ok by (simp add: writes_ok_def)
  have n: "cmd_type c \<noteq> 0xFF" "cmd_type c' \<noteq> 0xFF" using ty by auto
  let ?s1 = "sys\<lparr>sys_cmd_queue := c' # q, sys_client := gc\<rparr>"
  have 1: "gopro_cmd_subscriber_step env w None sys = Some (Round_write OK False, ?s1)"
    using n by (simp add: gopro_cmd_subscriber_step_def q ctrl_parse_other s sem)
  have "bt_gopro_client_send w c' gc = (Neg EALREADY, gc)"
    by (rule send_twice [OF s wf ty(2)])
  then have 2: "gopro_cmd_subscriber_step env w None ?s1 = Some (Round_write (Neg EALREADY) False, ?s1\<lparr>sys_cmd_queue := q\<rparr>)"
    using n by (simp add: gopro_cmd_subscriber_step_def ctrl_parse_other sem)
  show ?thesis by (simp add: 1 2)
qed

end
