(* ===== verification/Gatt_Dm.thy ===== *)
theory Gatt_Dm
  imports Gopro_Types "HOL-Library.Sublist"
begin

section \<open>The discovery manager's attributes (\<^verbatim>\<open>nrf_hal/gatt_dm.c\<close>)\<close>

text \<open>
  The attributes found by a service discovery, in the order of their handles, and the
  functions that look them up. A pointer to an attribute is its index in the array; the
  null pointer is \<open>None\<close>. The value a declaration attribute carries in front of its UUID
  (\<^verbatim>\<open>bt_gatt_service_val\<close>, \<^verbatim>\<open>bt_gatt_chrc\<close>) is kept in fields of the attribute: its
  UUID, the end handle of a service, the properties of a characteristic. The value handle of a
  characteristic is left out, since no code reads it.

  \<^verbatim>\<open>bt_uuid_cmp\<close> of the Bluetooth stack is equality of UUIDs.
\<close>

datatype bt_uuid = UUID16 u16 | UUID32 u32 | UUID128 nat

abbreviation (input) BT_UUID_GATT_PRIMARY :: bt_uuid where "BT_UUID_GATT_PRIMARY \<equiv> UUID16 0x2800"
abbreviation (input) BT_UUID_GATT_SECONDARY :: bt_uuid where "BT_UUID_GATT_SECONDARY \<equiv> UUID16 0x2801"
abbreviation (input) BT_UUID_GATT_CHRC :: bt_uuid where "BT_UUID_GATT_CHRC \<equiv> UUID16 0x2803"
abbreviation (input) BT_UUID_GATT_CCC :: bt_uuid where "BT_UUID_GATT_CCC \<equiv> UUID16 0x2902"

record bt_gatt_dm_attr =
  at_uuid :: bt_uuid
  at_handle :: u16
  at_perm :: u8
  at_val_uuid :: "bt_uuid option"
  at_end_handle :: u16
  at_properties :: u8

text \<open>\<open>dm_attrs\<close> holds the \<^verbatim>\<open>cur_attr_id\<close> attributes stored so far.\<close>

record bt_gatt_dm =
  dm_conn :: "nat option"
  dm_attrs :: "bt_gatt_dm_attr list"

subsection \<open>Looking up\<close>

text \<open>The loop of the binary search, with the signed bounds of the code.\<close>

function find_loop :: "bt_gatt_dm_attr list \<Rightarrow> u16 \<Rightarrow> int \<Rightarrow> int \<Rightarrow> nat option" where
  "find_loop attrs handle lower upper =
     (if lower \<le> upper then
        let m = (lower + upper) div 2; cur = attrs ! nat m in
        if at_handle cur < handle then find_loop attrs handle (m + 1) upper
        else if handle < at_handle cur then find_loop attrs handle lower (m - 1)
        else Some (nat m)
      else None)"
  by pat_completeness auto
termination
  by (relation "measure (\<lambda>(attrs, handle, lower, upper). nat (upper - lower + 1))") auto

declare find_loop.simps [simp del]

definition attr_find_by_handle :: "bt_gatt_dm \<Rightarrow> u16 \<Rightarrow> nat option" where
  "attr_find_by_handle dm handle =
     (if length (dm_attrs dm) = 0 then None
      else find_loop (dm_attrs dm) handle 0 (int (length (dm_attrs dm)) - 1))"

definition bt_gatt_dm_attr_service_val :: "bt_gatt_dm_attr \<Rightarrow> bt_uuid option" where
  "bt_gatt_dm_attr_service_val attr =
     (if at_uuid attr = BT_UUID_GATT_PRIMARY \<or> at_uuid attr = BT_UUID_GATT_SECONDARY
      then at_val_uuid attr else None)"

definition bt_gatt_dm_attr_chrc_val :: "bt_gatt_dm_attr \<Rightarrow> bt_uuid option" where
  "bt_gatt_dm_attr_chrc_val attr =
     (if at_uuid attr = BT_UUID_GATT_CHRC then at_val_uuid attr else None)"

definition bt_gatt_dm_conn_get :: "bt_gatt_dm \<Rightarrow> nat option" where
  "bt_gatt_dm_conn_get dm = dm_conn dm"

definition bt_gatt_dm_attr_cnt :: "bt_gatt_dm \<Rightarrow> nat" where
  "bt_gatt_dm_attr_cnt dm = length (dm_attrs dm)"

definition bt_gatt_dm_service_get :: "bt_gatt_dm \<Rightarrow> nat" where
  [simp]: "bt_gatt_dm_service_get dm = 0"

definition bt_gatt_dm_attr_by_handle :: "bt_gatt_dm \<Rightarrow> u16 \<Rightarrow> nat option" where
  "bt_gatt_dm_attr_by_handle dm handle = attr_find_by_handle dm handle"

text \<open>\<open>n\<close> attributes are left to look at, starting after index \<open>i\<close>.\<close>

fun char_next_loop :: "bt_gatt_dm_attr list \<Rightarrow> nat \<Rightarrow> nat \<Rightarrow> nat option" where
  "char_next_loop attrs i 0 = None"
| "char_next_loop attrs i (Suc n) =
     (if at_uuid (attrs ! Suc i) = BT_UUID_GATT_CHRC then Some (Suc i)
      else char_next_loop attrs (Suc i) n)"

definition bt_gatt_dm_char_next :: "bt_gatt_dm \<Rightarrow> nat option \<Rightarrow> nat option" where
  "bt_gatt_dm_char_next dm prev =
     (let i = (case prev of None \<Rightarrow> 0 | Some i \<Rightarrow> i) in
      char_next_loop (dm_attrs dm) i (length (dm_attrs dm) - Suc i))"

lemma char_next_loop_bounds: "char_next_loop attrs i n = Some j \<Longrightarrow> i < j \<and> j \<le> i + n"
  by (induction attrs i n rule: char_next_loop.induct) (fastforce split: if_split_asm)+

function char_by_uuid_loop :: "bt_gatt_dm \<Rightarrow> bt_uuid \<Rightarrow> nat option \<Rightarrow> nat option" where
  "char_by_uuid_loop dm uuid from_attr =
     (case bt_gatt_dm_char_next dm from_attr of
        None \<Rightarrow> None
      | Some j \<Rightarrow>
          if bt_gatt_dm_attr_chrc_val (dm_attrs dm ! j) = Some uuid then Some j
          else char_by_uuid_loop dm uuid (Some j))"
  by pat_completeness auto
termination
proof (relation "measure (\<lambda>(dm, uuid, from_attr). case from_attr of None \<Rightarrow> Suc (length (dm_attrs dm))
    | Some i \<Rightarrow> length (dm_attrs dm) - i)", goal_cases)
  case 1
  show ?case by simp
next
  case (2 dm uuid from_attr j)
  then show ?case
    by (cases from_attr) (auto simp: bt_gatt_dm_char_next_def dest!: char_next_loop_bounds)
qed

declare char_by_uuid_loop.simps [simp del]

definition bt_gatt_dm_char_by_uuid :: "bt_gatt_dm \<Rightarrow> bt_uuid \<Rightarrow> nat option" where
  "bt_gatt_dm_char_by_uuid dm uuid = char_by_uuid_loop dm uuid None"

definition bt_gatt_dm_attr_next :: "bt_gatt_dm \<Rightarrow> nat option \<Rightarrow> nat option" where
  "bt_gatt_dm_attr_next dm prev =
     (let i = (case prev of None \<Rightarrow> 0 | Some i \<Rightarrow> i) in
      if Suc i < length (dm_attrs dm) then Some (Suc i) else None)"

definition bt_gatt_dm_desc_next :: "bt_gatt_dm \<Rightarrow> nat \<Rightarrow> nat option" where
  "bt_gatt_dm_desc_next dm prev =
     (case bt_gatt_dm_attr_next dm (Some prev) of
        None \<Rightarrow> None
      | Some j \<Rightarrow> if at_uuid (dm_attrs dm ! j) = BT_UUID_GATT_CHRC then None else Some j)"

function bt_gatt_dm_desc_by_uuid :: "bt_gatt_dm \<Rightarrow> nat \<Rightarrow> bt_uuid \<Rightarrow> nat option" where
  "bt_gatt_dm_desc_by_uuid dm attr_chrc uuid =
     (case bt_gatt_dm_desc_next dm attr_chrc of
        None \<Rightarrow> None
      | Some j \<Rightarrow> if at_uuid (dm_attrs dm ! j) = uuid then Some j
                  else bt_gatt_dm_desc_by_uuid dm j uuid)"
  by pat_completeness auto
termination
  by (relation "measure (\<lambda>(dm, i, uuid). length (dm_attrs dm) - i)")
     (auto simp: bt_gatt_dm_desc_next_def bt_gatt_dm_attr_next_def split: option.splits if_split_asm)

declare bt_gatt_dm_desc_by_uuid.simps [simp del]

subsection \<open>The search by handle\<close>

definition handles_sorted :: "bt_gatt_dm_attr list \<Rightarrow> bool" where
  "handles_sorted attrs \<longleftrightarrow> sorted_wrt (\<lambda>a b. at_handle a < at_handle b) attrs"

lemma handles_sortedD:
  "handles_sorted attrs \<Longrightarrow> i < j \<Longrightarrow> j < length attrs \<Longrightarrow> at_handle (attrs ! i) < at_handle (attrs ! j)"
  by (simp add: handles_sorted_def sorted_wrt_iff_nth_less)

lemma find_loop_sound:
  assumes "find_loop attrs h lower upper = Some i" and "0 \<le> lower" and "upper < int (length attrs)"
  shows "i < length attrs \<and> at_handle (attrs ! i) = h"
  using assms
proof (induction "nat (upper - lower + 1)" arbitrary: lower upper rule: less_induct)
  case less
  define m where "m = (lower + upper) div 2"
  have le: "lower \<le> upper" using less.prems(1) by (simp add: find_loop.simps split: if_split_asm)
  have m: "lower \<le> m" "m \<le> upper" using le by (simp_all add: m_def)
  note unf = find_loop.simps [of attrs h lower upper, folded m_def]
  consider "at_handle (attrs ! nat m) < h" | "h < at_handle (attrs ! nat m)" | "at_handle (attrs ! nat m) = h"
    using less_linear [of "at_handle (attrs ! nat m)" h] by blast
  then show ?case
  proof cases
    case 1
    then have "find_loop attrs h (m + 1) upper = Some i" using less.prems(1) le by (simp add: unf Let_def)
    then show ?thesis using m less.prems by (intro less.hyps [of upper "m + 1"]) auto
  next
    case 2
    then have "\<not> at_handle (attrs ! nat m) < h" by simp
    with 2 have "find_loop attrs h lower (m - 1) = Some i" using less.prems(1) le by (simp add: unf Let_def)
    then show ?thesis using m less.prems by (intro less.hyps [of "m - 1" lower]) auto
  next
    case 3
    then show ?thesis using less.prems le m by (auto simp: unf Let_def)
  qed
qed

lemma find_loop_complete:
  assumes s: "handles_sorted attrs" and j: "j < length attrs" and h: "at_handle (attrs ! j) = h"
    and "0 \<le> lower" "lower \<le> int j" "int j \<le> upper" "upper < int (length attrs)"
  shows "find_loop attrs h lower upper = Some j"
  using assms(4-7)
proof (induction "nat (upper - lower + 1)" arbitrary: lower upper rule: less_induct)
  case less
  define m where "m = (lower + upper) div 2"
  have le: "lower \<le> upper" using less.prems by simp
  have m: "lower \<le> m" "m \<le> upper" using le by (simp_all add: m_def)
  have mn: "nat m < length attrs" using m less.prems by simp
  note unf = find_loop.simps [of attrs h lower upper, folded m_def] 
  consider "nat m < j" | "j < nat m" | "nat m = j" by linarith
  then show ?case
  proof cases
    case 1
    then have "at_handle (attrs ! nat m) < h" using handles_sortedD [OF s 1 j] h by simp
    moreover have "find_loop attrs h (m + 1) upper = Some j"
      using less.prems m 1 by (intro less.hyps) auto
    ultimately show ?thesis using le by (simp add: unf Let_def)
  next
    case 2
    then have "h < at_handle (attrs ! nat m)" using handles_sortedD [OF s 2 mn] h by simp
    moreover have "find_loop attrs h lower (m - 1) = Some j"
      using less.prems m 2 by (intro less.hyps) auto
    moreover have "\<not> at_handle (attrs ! nat m) < h" using calculation(1) by simp
    ultimately show ?thesis using le by (simp add: unf Let_def)
  next
    case 3
    then show ?thesis using le h by (simp add: unf Let_def)
  qed
qed

text \<open>On attributes in handle order the search finds the attribute that has the handle.\<close>

lemma find_by_handle_iff:
  assumes "handles_sorted (dm_attrs dm)"
  shows "attr_find_by_handle dm h = Some i \<longleftrightarrow> i < length (dm_attrs dm) \<and> at_handle (dm_attrs dm ! i) = h"
proof
  assume "attr_find_by_handle dm h = Some i"
  then show "i < length (dm_attrs dm) \<and> at_handle (dm_attrs dm ! i) = h"
    using find_loop_sound [of "dm_attrs dm" h 0 "int (length (dm_attrs dm)) - 1" i]
    by (simp add: attr_find_by_handle_def split: if_split_asm)
next
  assume i: "i < length (dm_attrs dm) \<and> at_handle (dm_attrs dm ! i) = h"
  then have "find_loop (dm_attrs dm) h 0 (int (length (dm_attrs dm)) - 1) = Some i"
    by (intro find_loop_complete [OF assms]) auto
  then show "attr_find_by_handle dm h = Some i" using i by (auto simp: attr_find_by_handle_def)
qed

text \<open>The binary search agrees with the linear search it stands for.\<close>

lemma find_by_handle_linear:
  assumes "handles_sorted (dm_attrs dm)"
  shows "attr_find_by_handle dm h = find (\<lambda>i. at_handle (dm_attrs dm ! i) = h) [0 ..< length (dm_attrs dm)]"
proof (cases "find (\<lambda>i. at_handle (dm_attrs dm ! i) = h) [0 ..< length (dm_attrs dm)]")
  case None
  then have "\<forall>i < length (dm_attrs dm). at_handle (dm_attrs dm ! i) \<noteq> h" by (auto simp: find_None_iff)
  then have "attr_find_by_handle dm h = None"
    using find_by_handle_iff [OF assms, of h] by (cases "attr_find_by_handle dm h") auto
  then show ?thesis using None by simp
next
  case (Some i)
  then have "attr_find_by_handle dm h = Some i"
    using find_by_handle_iff [OF assms, of h i] by (auto simp: find_Some_iff)
  then show ?thesis using Some by simp
qed

subsection \<open>Characteristics and descriptors\<close>

definition is_chrc :: "bt_gatt_dm_attr \<Rightarrow> bool" where
  "is_chrc a \<longleftrightarrow> at_uuid a = BT_UUID_GATT_CHRC"

lemma char_next_loop_find:
  "i + n < length attrs \<Longrightarrow>
   char_next_loop attrs i n = find (\<lambda>j. is_chrc (attrs ! j)) [Suc i ..< Suc (i + n)]"
  by (induction attrs i n rule: char_next_loop.induct) (simp_all add: is_chrc_def upt_rec)

lemma char_next_find:
  assumes "i < length (dm_attrs dm)"
  shows "bt_gatt_dm_char_next dm (Some i) =
    find (\<lambda>j. is_chrc (dm_attrs dm ! j)) [Suc i ..< length (dm_attrs dm)]"
proof -
  have e: "Suc (i + (length (dm_attrs dm) - Suc i)) = length (dm_attrs dm)" using assms by simp
  have "i + (length (dm_attrs dm) - Suc i) < length (dm_attrs dm)" using assms by simp
  from char_next_loop_find [OF this, unfolded e] show ?thesis
    by (simp add: bt_gatt_dm_char_next_def)
qed

lemma find_upt_Some:
  "find P [i ..< n] = Some j \<longleftrightarrow> i \<le> j \<and> j < n \<and> P j \<and> (\<forall>k. i \<le> k \<longrightarrow> k < j \<longrightarrow> \<not> P k)"
proof (induction "n - i" arbitrary: i)
  case 0
  then show ?case by simp
next
  case (Suc d)
  then have u: "[i ..< n] = i # [Suc i ..< n]" by (simp add: upt_rec)
  show ?case
  proof (cases "P i")
    case True
    then show ?thesis using Suc.hyps(2) by (auto simp: u)
  next
    case False
    then show ?thesis using Suc.hyps(1) [of "Suc i"] Suc.hyps(2)
      by (auto simp: u Suc_le_eq) (metis le_eq_less_or_eq)+
  qed
qed

lemma find_upt_None: "find P [i ..< n] = None \<longleftrightarrow> (\<forall>k. i \<le> k \<longrightarrow> k < n \<longrightarrow> \<not> P k)"
  by (auto simp: find_None_iff)

text \<open>The characteristic with a given value UUID: the first such declaration.\<close>

definition chrc_with :: "bt_uuid \<Rightarrow> bt_gatt_dm_attr \<Rightarrow> bool" where
  "chrc_with uuid a \<longleftrightarrow> is_chrc a \<and> at_val_uuid a = Some uuid"

lemma char_by_uuid_loop_find:
  "i < length (dm_attrs dm) \<Longrightarrow>
   char_by_uuid_loop dm uuid (Some i) =
     find (\<lambda>j. chrc_with uuid (dm_attrs dm ! j)) [Suc i ..< length (dm_attrs dm)]"
proof (induction "length (dm_attrs dm) - i" arbitrary: i rule: less_induct)
  case less
  let ?at = "dm_attrs dm"
  show ?case
  proof (cases "bt_gatt_dm_char_next dm (Some i)")
    case None
    then have "\<forall>k. Suc i \<le> k \<longrightarrow> k < length ?at \<longrightarrow> \<not> is_chrc (?at ! k)"
      using less.prems by (simp only: char_next_find find_upt_None)
    then have "find (\<lambda>j. chrc_with uuid (?at ! j)) [Suc i ..< length ?at] = None"
      by (simp only: find_upt_None chrc_with_def) blast
    with None show ?thesis by (subst char_by_uuid_loop.simps) simp
  next
    case (Some j)
    then have j: "Suc i \<le> j" "j < length ?at" "is_chrc (?at ! j)"
      "\<forall>k. Suc i \<le> k \<longrightarrow> k < j \<longrightarrow> \<not> is_chrc (?at ! k)"
      using less.prems by (auto simp only: char_next_find find_upt_Some)
    have val: "bt_gatt_dm_attr_chrc_val (?at ! j) = Some uuid \<longleftrightarrow> chrc_with uuid (?at ! j)"
      using j(3) by (simp add: bt_gatt_dm_attr_chrc_val_def chrc_with_def is_chrc_def)
    show ?thesis
    proof (cases "chrc_with uuid (?at ! j)")
      case True
      then have "find (\<lambda>j. chrc_with uuid (?at ! j)) [Suc i ..< length ?at] = Some j"
        using j by (simp only: find_upt_Some) (simp add: chrc_with_def)
      with True Some show ?thesis by (subst char_by_uuid_loop.simps) (simp add: val)
    next
      case False
      have "char_by_uuid_loop dm uuid (Some i) = char_by_uuid_loop dm uuid (Some j)"
        using False Some by (subst char_by_uuid_loop.simps) (simp add: val)
      also have "\<dots> = find (\<lambda>j. chrc_with uuid (?at ! j)) [Suc j ..< length ?at]"
        using j less.prems by (intro less.hyps) auto
      also have "\<dots> = find (\<lambda>j. chrc_with uuid (?at ! j)) [Suc i ..< length ?at]"
      proof -
        have "[Suc i ..< length ?at] = [Suc i ..< Suc j] @ [Suc j ..< length ?at]"
          using j by (metis Suc_leI le_Suc_eq upt_add_eq_append le_add_diff_inverse)
        moreover have "find (\<lambda>j. chrc_with uuid (?at ! j)) [Suc i ..< Suc j] = None"
          unfolding find_upt_None using j(4) False by (auto simp: chrc_with_def less_Suc_eq)
        moreover have "find P (xs @ ys) = find P ys" if "find P xs = None" for P :: "nat \<Rightarrow> bool" and xs ys
          using that by (induction xs) (auto split: if_split_asm)
        ultimately show ?thesis by simp
      qed
      finally show ?thesis .
    qed
  qed
qed

lemma char_by_uuid_Some:
  assumes "dm_attrs dm \<noteq> []"
  shows "bt_gatt_dm_char_by_uuid dm uuid = Some j \<longleftrightarrow>
    0 < j \<and> j < length (dm_attrs dm) \<and> chrc_with uuid (dm_attrs dm ! j) \<and>
    (\<forall>k. 0 < k \<longrightarrow> k < j \<longrightarrow> \<not> chrc_with uuid (dm_attrs dm ! k))"
proof -
  have "char_by_uuid_loop dm uuid None = char_by_uuid_loop dm uuid (Some 0)"
    by (subst (1 2) char_by_uuid_loop.simps) (simp add: bt_gatt_dm_char_next_def)
  then show ?thesis
    using assms char_by_uuid_loop_find [of 0 dm uuid]
    by (simp add: bt_gatt_dm_char_by_uuid_def find_upt_Some Suc_le_eq)
qed

text \<open>A descriptor is searched up to the next characteristic declaration.\<close>

lemma desc_next_Some:
  "bt_gatt_dm_desc_next dm i = Some j \<longleftrightarrow> j = Suc i \<and> j < length (dm_attrs dm) \<and> \<not> is_chrc (dm_attrs dm ! j)"
  by (auto simp: bt_gatt_dm_desc_next_def bt_gatt_dm_attr_next_def is_chrc_def Let_def
      split: option.splits if_split_asm)

lemma desc_by_uuid_Some:
  "bt_gatt_dm_desc_by_uuid dm i uuid = Some j \<longleftrightarrow>
     i < j \<and> j < length (dm_attrs dm) \<and> at_uuid (dm_attrs dm ! j) = uuid \<and>
     (\<forall>k. i < k \<longrightarrow> k \<le> j \<longrightarrow> \<not> is_chrc (dm_attrs dm ! k)) \<and>
     (\<forall>k. i < k \<longrightarrow> k < j \<longrightarrow> at_uuid (dm_attrs dm ! k) \<noteq> uuid)"
proof (induction dm i uuid rule: bt_gatt_dm_desc_by_uuid.induct)
  case (1 dm i uuid)
  let ?at = "dm_attrs dm"
  show ?case
  proof (cases "bt_gatt_dm_desc_next dm i")
    case None
    then have "\<not> (Suc i < length ?at \<and> \<not> is_chrc (?at ! Suc i))"
      using desc_next_Some [of dm i "Suc i"] by auto
    with None show ?thesis
      by (subst bt_gatt_dm_desc_by_uuid.simps) (auto intro: Suc_leI dest: Suc_leI order_le_less_trans)
  next
    case (Some m)
    then have m: "m = Suc i" "m < length ?at" "\<not> is_chrc (?at ! m)" by (auto simp: desc_next_Some)
    show ?thesis
    proof (cases "at_uuid (?at ! m) = uuid")
      case True
      then show ?thesis
        using m Some by (subst bt_gatt_dm_desc_by_uuid.simps) (auto simp: less_Suc_eq_le le_Suc_eq not_less_eq)
    next
      case False
      have eq: "bt_gatt_dm_desc_by_uuid dm i uuid = bt_gatt_dm_desc_by_uuid dm m uuid"
        using False Some by (subst bt_gatt_dm_desc_by_uuid.simps) simp
      have k: "i < k \<longleftrightarrow> k = m \<or> m < k" for k using m(1) by auto
      show ?thesis
        unfolding eq "1.IH" [OF Some False] k using m False by auto
    qed
  qed
qed

end
