(* ===== verification/Handles.thy ===== *)
theory Handles
  imports Gatt_Dm Gopro_Types
begin

section \<open>Assigning the handles (\<^verbatim>\<open>gopro_client.c\<close>, third part)\<close>

text \<open>
  After a service discovery the client looks up the characteristics it uses and keeps their
  value handles. Each function checks the service, fills the handle array with \<^verbatim>\<open>0xFF\<close> bytes
  and looks the characteristics up one after the other; the first that is missing ends it
  with \<^verbatim>\<open>-EINVAL\<close> and the handles found so far in place.
\<close>

subsection \<open>UUIDs\<close>

definition gopro_uuid :: "nat \<Rightarrow> bt_uuid" where
  "gopro_uuid n = UUID128 (0xb5f90000aa8d11e390460002a5d5c51b + n * 2 ^ 96)"

abbreviation (input) BT_UUID_GOPRO_SERVICE :: bt_uuid where "BT_UUID_GOPRO_SERVICE \<equiv> UUID16 0xFEA6"
abbreviation (input) BT_UUID_GOPRO_WIFI_SERVICE :: bt_uuid where "BT_UUID_GOPRO_WIFI_SERVICE \<equiv> gopro_uuid 0x01"
abbreviation (input) BT_UUID_GOPRO_NET_SERVICE :: bt_uuid where "BT_UUID_GOPRO_NET_SERVICE \<equiv> gopro_uuid 0x90"

definition notify_uuid :: "nat \<Rightarrow> bt_uuid" where
  "notify_uuid k = gopro_uuid (if k = 0 then 0x73 else if k = 1 then 0x75 else if k = 2 then 0x77 else 0x92)"

definition write_uuid :: "nat \<Rightarrow> bt_uuid" where
  "write_uuid k = gopro_uuid (if k = 0 then 0x72 else if k = 1 then 0x74 else if k = 2 then 0x76 else 0x91)"

definition wifi_uuid :: "nat \<Rightarrow> bt_uuid" where
  "wifi_uuid k = gopro_uuid (if k = 0 then 0x02 else if k = 1 then 0x03 else if k = 2 then 0x04 else 0x05)"

subsection \<open>The functions\<close>

text \<open>One of the three or four equal stretches of code, for characteristic \<open>k\<close>.\<close>

definition set_handles ::
    "nat \<Rightarrow> (bt_gopro_client_handles \<Rightarrow> bt_gopro_client_handles) \<Rightarrow> bt_gopro_client \<Rightarrow> bt_gopro_client" where
  "set_handles k f gc = gc\<lparr>gc_handles := (gc_handles gc)[k := f (gc_handles gc ! k)]\<rparr>"

definition assign_control :: "bt_gatt_dm \<Rightarrow> nat \<Rightarrow> bt_gopro_client \<Rightarrow> cret \<times> bt_gopro_client" where
  "assign_control dm k gc =
     (case bt_gatt_dm_char_by_uuid dm (notify_uuid k) of
        None \<Rightarrow> (Neg EINVAL, gc)
      | Some c \<Rightarrow>
     (case bt_gatt_dm_desc_by_uuid dm c (notify_uuid k) of
        None \<Rightarrow> (Neg EINVAL, gc)
      | Some d \<Rightarrow>
     let gc = set_handles k (h_notify_update (\<lambda>_. at_handle (dm_attrs dm ! d))) gc in
     (case bt_gatt_dm_desc_by_uuid dm c BT_UUID_GATT_CCC of
        None \<Rightarrow> (Neg EINVAL, gc)
      | Some d \<Rightarrow>
     let gc = set_handles k (h_notify_ccc_update (\<lambda>_. at_handle (dm_attrs dm ! d))) gc in
     (case bt_gatt_dm_char_by_uuid dm (write_uuid k) of
        None \<Rightarrow> (Neg EINVAL, gc)
      | Some c \<Rightarrow>
     (case bt_gatt_dm_desc_by_uuid dm c (write_uuid k) of
        None \<Rightarrow> (Neg EINVAL, gc)
      | Some d \<Rightarrow>
     (OK, set_handles k (h_write_update (\<lambda>_. at_handle (dm_attrs dm ! d))) gc))))))"

definition assign_wifi :: "bt_gatt_dm \<Rightarrow> nat \<Rightarrow> bt_gopro_client \<Rightarrow> cret \<times> bt_gopro_client" where
  "assign_wifi dm k gc =
     (case bt_gatt_dm_char_by_uuid dm (wifi_uuid k) of
        None \<Rightarrow> (Neg EINVAL, gc)
      | Some c \<Rightarrow>
     (case bt_gatt_dm_desc_by_uuid dm c (wifi_uuid k) of
        None \<Rightarrow> (Neg EINVAL, gc)
      | Some d \<Rightarrow>
     (OK, gc\<lparr>gc_wifihandles := (gc_wifihandles gc)[k := at_handle (dm_attrs dm ! d)]\<rparr>)))"

fun assign_each ::
    "(nat \<Rightarrow> bt_gopro_client \<Rightarrow> cret \<times> bt_gopro_client) \<Rightarrow> nat list \<Rightarrow> bt_gopro_client \<Rightarrow> cret \<times> bt_gopro_client" where
  "assign_each f [] gc = (OK, gc)"
| "assign_each f (k # ks) gc =
     (case f k gc of (err, gc) \<Rightarrow> if err \<noteq> OK then (err, gc) else assign_each f ks gc)"

definition no_handles :: bt_gopro_client_handles where
  "no_handles = \<lparr>h_write = 0xFFFF, h_notify = 0xFFFF, h_notify_ccc = 0xFFFF\<rparr>"

text \<open>The service's value is read without a check that there is one: \<open>None\<close> otherwise.\<close>

definition service_uuid :: "bt_gatt_dm \<Rightarrow> bt_uuid option" where
  "service_uuid dm = (if dm_attrs dm = [] then None else bt_gatt_dm_attr_service_val (dm_attrs dm ! bt_gatt_dm_service_get dm))"

definition with_service ::
    "bt_gatt_dm \<Rightarrow> bt_uuid \<Rightarrow> (bt_gopro_client \<Rightarrow> cret \<times> bt_gopro_client) \<Rightarrow> bt_gopro_client \<Rightarrow>
     (cret \<times> bt_gopro_client) option" where
  "with_service dm uuid assign gc = do {
     s \<leftarrow> service_uuid dm;
     if s \<noteq> uuid then Some (Neg ENOTSUP, gc)
     else Some (case assign gc of (err, gc) \<Rightarrow>
       if err \<noteq> OK then (err, gc) else (OK, gc\<lparr>gc_conn := bt_gatt_dm_conn_get dm\<rparr>))
   }"

definition bt_gopro_wifi_handles_assign ::
    "bt_gatt_dm \<Rightarrow> bt_gopro_client \<Rightarrow> (cret \<times> bt_gopro_client) option" where
  "bt_gopro_wifi_handles_assign dm =
     with_service dm BT_UUID_GOPRO_WIFI_SERVICE (\<lambda>gc.
       assign_each (assign_wifi dm)
         [GP_WIFI_HANDLE_SSID, GP_WIFI_HANDLE_PASS, GP_WIFI_HANDLE_POWER, GP_WIFI_HANDLE_STATE]
         (gc\<lparr>gc_wifihandles := replicate 4 0xFFFF\<rparr>))"

definition bt_gopro_handles_assign ::
    "bt_gatt_dm \<Rightarrow> bt_gopro_client \<Rightarrow> (cret \<times> bt_gopro_client) option" where
  "bt_gopro_handles_assign dm =
     with_service dm BT_UUID_GOPRO_SERVICE (\<lambda>gc.
       assign_each (assign_control dm)
         [unat GP_CNTRL_HANDLE_CMD, unat GP_CNTRL_HANDLE_SETTINGS, unat GP_CNTRL_HANDLE_QUERY]
         (gc\<lparr>gc_handles := replicate 4 no_handles\<rparr>))"

definition bt_gopro_net_handle_assign ::
    "bt_gatt_dm \<Rightarrow> bt_gopro_client \<Rightarrow> (cret \<times> bt_gopro_client) option" where
  "bt_gopro_net_handle_assign dm =
     with_service dm BT_UUID_GOPRO_NET_SERVICE (\<lambda>gc.
       assign_each (assign_control dm) [unat GP_CNTRL_HANDLE_NET]
         (set_handles (unat GP_CNTRL_HANDLE_NET) (\<lambda>_. no_handles) gc))"

subsection \<open>What the client relies on\<close>

text \<open>
  The client's side of the discovery manager: a characteristic found by UUID carries that
  UUID, a descriptor found in it comes after it and before the next declaration, and
  attributes are in handle order. Then a value handle determines its characteristic.
\<close>

locale attribute_lookup =
  fixes attrs :: "'dm \<Rightarrow> bt_gatt_dm_attr list"
    and char_of :: "'dm \<Rightarrow> bt_uuid \<Rightarrow> nat option"
    and desc_of :: "'dm \<Rightarrow> nat \<Rightarrow> bt_uuid \<Rightarrow> nat option"
  assumes char_sound: "attrs dm \<noteq> [] \<Longrightarrow> char_of dm u = Some c \<Longrightarrow> c < length (attrs dm) \<and> chrc_with u (attrs dm ! c)"
    and desc_sound: "desc_of dm c u = Some d \<Longrightarrow>
      c < d \<and> d < length (attrs dm) \<and> at_uuid (attrs dm ! d) = u \<and>
      (\<forall>k. c < k \<longrightarrow> k \<le> d \<longrightarrow> \<not> is_chrc (attrs dm ! k))"
begin

definition value_at :: "'dm \<Rightarrow> bt_uuid \<Rightarrow> nat \<Rightarrow> bool" where
  "value_at dm u d \<longleftrightarrow> (\<exists>c. char_of dm u = Some c \<and> desc_of dm c u = Some d)"

lemma value_at_attr: "value_at dm u d \<Longrightarrow> d < length (attrs dm) \<and> at_uuid (attrs dm ! d) = u"
  by (auto simp: value_at_def dest!: desc_sound)

lemma value_at_inj:
  assumes "value_at dm u d" and "value_at dm u' d"
  shows "u = u'"
  using value_at_attr [OF assms(1)] value_at_attr [OF assms(2)] by simp

lemma handle_determines:
  assumes "handles_sorted (attrs dm)" and "value_at dm u d" and "value_at dm u' d'"
    and "at_handle (attrs dm ! d) = at_handle (attrs dm ! d')"
  shows "u = u'"
proof -
  have "d < length (attrs dm)" "d' < length (attrs dm)" using assms(2,3) by (simp_all add: value_at_attr)
  then have "d = d'"
    using handles_sortedD [OF assms(1), of d d'] handles_sortedD [OF assms(1), of d' d] assms(4)
    by (cases d d' rule: linorder_cases) auto
  then show ?thesis using value_at_inj assms(2,3) by blast
qed

lemma value_owner:
  assumes "value_at dm u d"
  shows "\<exists>c < d. chrc_with u (attrs dm ! c) \<and> (\<forall>k. c < k \<longrightarrow> k \<le> d \<longrightarrow> \<not> is_chrc (attrs dm ! k))"
proof -
  obtain c where c: "char_of dm u = Some c" "desc_of dm c u = Some d"
    using assms by (auto simp: value_at_def)
  have "attrs dm \<noteq> []" using desc_sound [OF c(2)] by auto
  with char_sound [OF this c(1)] desc_sound [OF c(2)] show ?thesis by blast
qed

end

interpretation dm_lookup: attribute_lookup dm_attrs bt_gatt_dm_char_by_uuid bt_gatt_dm_desc_by_uuid
  by unfold_locales (simp_all add: char_by_uuid_Some desc_by_uuid_Some)

subsection \<open>What the assignments promise\<close>

definition value_handle :: "bt_gatt_dm \<Rightarrow> bt_uuid \<Rightarrow> u16 \<Rightarrow> bool" where
  "value_handle dm u h \<longleftrightarrow> (\<exists>c d. bt_gatt_dm_char_by_uuid dm u = Some c \<and>
     bt_gatt_dm_desc_by_uuid dm c u = Some d \<and> at_handle (dm_attrs dm ! d) = h)"

lemma value_handle_inj:
  assumes "handles_sorted (dm_attrs dm)" and "value_handle dm u h" and "value_handle dm u' h"
  shows "u = u'"
proof -
  obtain d d' where "dm_lookup.value_at dm u d" "dm_lookup.value_at dm u' d'"
    "at_handle (dm_attrs dm ! d) = at_handle (dm_attrs dm ! d')"
    using assms(2,3) by (auto simp: value_handle_def dm_lookup.value_at_def)
  then show ?thesis by (rule dm_lookup.handle_determines [OF assms(1)])
qed

text \<open>What is left alone by the assignment of one characteristic.\<close>

definition same_but :: "nat \<Rightarrow> bt_gopro_client \<Rightarrow> bt_gopro_client \<Rightarrow> bool" where
  "same_but k gc gc' \<longleftrightarrow>
     length (gc_handles gc') = length (gc_handles gc) \<and>
     (\<forall>j. j \<noteq> k \<longrightarrow> gc_handles gc' ! j = gc_handles gc ! j) \<and>
     gc_conn gc' = gc_conn gc \<and> gc_state gc' = gc_state gc \<and>
     gc_wifihandles gc' = gc_wifihandles gc \<and> gc_notif_params gc' = gc_notif_params gc \<and>
     gc_write_params gc' = gc_write_params gc \<and> gc_read_params gc' = gc_read_params gc"

lemma same_but_refl [simp]: "same_but k gc gc"
  by (simp add: same_but_def)

lemma same_but_set [simp]: "same_but k gc (set_handles k f gc')  = same_but k gc gc'"
  by (auto simp: same_but_def set_handles_def)

definition control_assigned :: "bt_gatt_dm \<Rightarrow> nat \<Rightarrow> bt_gopro_client_handles \<Rightarrow> bool" where
  "control_assigned dm k hs \<longleftrightarrow>
     value_handle dm (notify_uuid k) (h_notify hs) \<and> value_handle dm (write_uuid k) (h_write hs) \<and>
     (\<exists>c d. bt_gatt_dm_char_by_uuid dm (notify_uuid k) = Some c \<and>
        bt_gatt_dm_desc_by_uuid dm c BT_UUID_GATT_CCC = Some d \<and> h_notify_ccc hs = at_handle (dm_attrs dm ! d))"

lemma assign_control_frame: "same_but k gc (snd (assign_control dm k gc))"
  by (auto simp: assign_control_def Let_def split: option.split)

lemma assign_control_ok:
  assumes "assign_control dm k gc = (OK, gc')" and "k < length (gc_handles gc)"
  shows "control_assigned dm k (gc_handles gc' ! k)"
  using assms
  by (auto simp: assign_control_def control_assigned_def value_handle_def Let_def set_handles_def
      split: option.splits)

lemma assign_control_result: "fst (assign_control dm k gc) \<in> {OK, Neg EINVAL}"
  by (auto simp: assign_control_def Let_def split: option.split)

lemma assign_control_missing:
  assumes "bt_gatt_dm_char_by_uuid dm (notify_uuid k) = None \<or> bt_gatt_dm_char_by_uuid dm (write_uuid k) = None"
  shows "fst (assign_control dm k gc) = Neg EINVAL"
  using assms by (auto simp: assign_control_def Let_def split: option.split)

lemma assign_each_control:
  assumes "assign_each (assign_control dm) ks gc = (OK, gc')" and "distinct ks"
    and "\<forall>k \<in> set ks. k < length (gc_handles gc)"
  shows "(\<forall>k \<in> set ks. control_assigned dm k (gc_handles gc' ! k)) \<and>
    (\<forall>j. j \<notin> set ks \<longrightarrow> gc_handles gc' ! j = gc_handles gc ! j) \<and> length (gc_handles gc') = length (gc_handles gc)"
  using assms
proof (induction ks arbitrary: gc)
  case Nil
  then show ?case by simp
next
  case (Cons k ks)
  obtain gc1 where a: "assign_control dm k gc = (OK, gc1)" "assign_each (assign_control dm) ks gc1 = (OK, gc')"
    using Cons.prems(1) by (auto split: prod.splits if_split_asm)
  have f: "same_but k gc gc1" using assign_control_frame [of k gc dm] a(1) by simp
  have ih: "(\<forall>k \<in> set ks. control_assigned dm k (gc_handles gc' ! k)) \<and>
    (\<forall>j. j \<notin> set ks \<longrightarrow> gc_handles gc' ! j = gc_handles gc1 ! j) \<and> length (gc_handles gc') = length (gc_handles gc1)"
    using Cons.prems(2,3) f a(2) by (intro Cons.IH) (simp_all add: same_but_def)
  have "control_assigned dm k (gc_handles gc1 ! k)"
    using assign_control_ok [OF a(1)] Cons.prems(3) by simp
  then show ?case using ih f Cons.prems(2) by (auto simp: same_but_def)
qed

lemma handles_assigned:
  assumes "bt_gopro_handles_assign dm gc = Some (OK, gc')"
  shows "(\<forall>k < 3. control_assigned dm k (gc_handles gc' ! k)) \<and> gc_handles gc' ! 3 = no_handles \<and>
    length (gc_handles gc') = 4 \<and> gc_conn gc' = dm_conn dm"
proof -
  let ?gc = "gc\<lparr>gc_handles := replicate 4 no_handles\<rparr>"
  obtain gc1 where a: "assign_each (assign_control dm) [0, 1, 2] ?gc = (OK, gc1)"
    and g: "gc' = gc1\<lparr>gc_conn := dm_conn dm\<rparr>"
    using assms
    by (auto simp: bt_gopro_handles_assign_def with_service_def bind_eq_Some_conv bt_gatt_dm_conn_get_def
        simp del: assign_each.simps split: if_split_asm prod.splits)
  have k: "k < 3 \<longleftrightarrow> k \<in> set [0, 1, 2]" for k :: nat by auto
  have lt: "\<forall>k \<in> set [0, 1, 2]. k < length (gc_handles ?gc)" by auto
  have d: "distinct [0, 1, 2 :: nat]" by simp
  have e: "gc_handles gc1 ! 3 = gc_handles ?gc ! 3"
    using assign_each_control [OF a d lt] by simp
  show ?thesis using assign_each_control [OF a d lt] e by (simp add: g k)
qed

lemma net_handle_assigned:
  assumes "bt_gopro_net_handle_assign dm gc = Some (OK, gc')" and "length (gc_handles gc) = 4"
  shows "control_assigned dm 3 (gc_handles gc' ! 3) \<and>
    (\<forall>k < 3. gc_handles gc' ! k = gc_handles gc ! k) \<and> gc_conn gc' = dm_conn dm"
proof -
  let ?gc = "set_handles 3 (\<lambda>_. no_handles) gc"
  obtain gc1 where a: "assign_each (assign_control dm) [3] ?gc = (OK, gc1)"
    and g: "gc' = gc1\<lparr>gc_conn := dm_conn dm\<rparr>"
    using assms(1)
    by (auto simp: bt_gopro_net_handle_assign_def with_service_def bind_eq_Some_conv bt_gatt_dm_conn_get_def
        simp del: assign_each.simps split: if_split_asm prod.splits)
  have lt: "\<forall>k \<in> set [3]. k < length (gc_handles ?gc)" using assms(2) by (simp add: set_handles_def)
  have d: "distinct [3 :: nat]" by simp
  show ?thesis using assign_each_control [OF a d lt] by (simp add: g) (simp add: set_handles_def)
qed

text \<open>The six control UUIDs of the first service differ, so their value handles do.\<close>

lemma uuid_distinct:
  "i < 3 \<Longrightarrow> j < 3 \<Longrightarrow> notify_uuid i \<noteq> write_uuid j \<and>
   (notify_uuid i = notify_uuid j \<longleftrightarrow> i = j) \<and> (write_uuid i = write_uuid j \<longleftrightarrow> i = j)"
  by (auto simp: notify_uuid_def write_uuid_def gopro_uuid_def)

lemma handles_distinct:
  assumes "bt_gopro_handles_assign dm gc = Some (OK, gc')" and "handles_sorted (dm_attrs dm)"
    and "i < 3" and "j < 3"
  shows "h_notify (gc_handles gc' ! i) \<noteq> h_write (gc_handles gc' ! j) \<and>
    (h_notify (gc_handles gc' ! i) = h_notify (gc_handles gc' ! j) \<longleftrightarrow> i = j) \<and>
    (h_write (gc_handles gc' ! i) = h_write (gc_handles gc' ! j) \<longleftrightarrow> i = j)"
proof -
  have c: "control_assigned dm i (gc_handles gc' ! i)" "control_assigned dm j (gc_handles gc' ! j)"
    using handles_assigned [OF assms(1)] assms(3,4) by simp_all
  then have v: "value_handle dm (notify_uuid i) (h_notify (gc_handles gc' ! i))"
    "value_handle dm (notify_uuid j) (h_notify (gc_handles gc' ! j))"
    "value_handle dm (write_uuid i) (h_write (gc_handles gc' ! i))"
    "value_handle dm (write_uuid j) (h_write (gc_handles gc' ! j))"
    by (simp_all add: control_assigned_def)
  note inj = value_handle_inj [OF assms(2)]
  have "h_notify (gc_handles gc' ! i) \<noteq> h_write (gc_handles gc' ! j)"
    using inj [OF v(1)] v(4) uuid_distinct [OF assms(3,4)] by metis
  moreover have "h_notify (gc_handles gc' ! i) = h_notify (gc_handles gc' ! j) \<longleftrightarrow> i = j"
    using inj [OF v(1)] v(2) uuid_distinct [OF assms(3,4)] by metis
  moreover have "h_write (gc_handles gc' ! i) = h_write (gc_handles gc' ! j) \<longleftrightarrow> i = j"
    using inj [OF v(3)] v(4) uuid_distinct [OF assms(3,4)] by metis
  ultimately show ?thesis by blast
qed

subsection \<open>The Wi-Fi characteristics\<close>

lemma assign_wifi_ok:
  assumes "assign_wifi dm k gc = (OK, gc')" and "k < length (gc_wifihandles gc)"
  shows "value_handle dm (wifi_uuid k) (gc_wifihandles gc' ! k) \<and>
    (\<forall>j. j \<noteq> k \<longrightarrow> gc_wifihandles gc' ! j = gc_wifihandles gc ! j) \<and>
    length (gc_wifihandles gc') = length (gc_wifihandles gc)"
  using assms by (auto simp: assign_wifi_def value_handle_def split: option.splits)

lemma assign_each_wifi:
  assumes "assign_each (assign_wifi dm) ks gc = (OK, gc')" and "distinct ks"
    and "\<forall>k \<in> set ks. k < length (gc_wifihandles gc)"
  shows "(\<forall>k \<in> set ks. value_handle dm (wifi_uuid k) (gc_wifihandles gc' ! k)) \<and>
    (\<forall>j. j \<notin> set ks \<longrightarrow> gc_wifihandles gc' ! j = gc_wifihandles gc ! j) \<and>
    length (gc_wifihandles gc') = length (gc_wifihandles gc)"
  using assms
proof (induction ks arbitrary: gc)
  case Nil
  then show ?case by simp
next
  case (Cons k ks)
  obtain gc1 where a: "assign_wifi dm k gc = (OK, gc1)" "assign_each (assign_wifi dm) ks gc1 = (OK, gc')"
    using Cons.prems(1) by (auto split: prod.splits if_split_asm)
  have k: "k < length (gc_wifihandles gc)" using Cons.prems(3) by simp
  note w = assign_wifi_ok [OF a(1) k]
  have "(\<forall>k \<in> set ks. value_handle dm (wifi_uuid k) (gc_wifihandles gc' ! k)) \<and>
    (\<forall>j. j \<notin> set ks \<longrightarrow> gc_wifihandles gc' ! j = gc_wifihandles gc1 ! j) \<and>
    length (gc_wifihandles gc') = length (gc_wifihandles gc1)"
    using Cons.prems(2,3) w a(2) by (intro Cons.IH) simp_all
  then show ?case using w Cons.prems(2) by auto
qed

lemma wifi_handles_assigned:
  assumes "bt_gopro_wifi_handles_assign dm gc = Some (OK, gc')"
  shows "(\<forall>k < 4. value_handle dm (wifi_uuid k) (gc_wifihandles gc' ! k)) \<and> gc_conn gc' = dm_conn dm"
proof -
  let ?gc = "gc\<lparr>gc_wifihandles := replicate 4 0xFFFF\<rparr>"
  obtain gc1 where a: "assign_each (assign_wifi dm) [0, 1, 2, 3] ?gc = (OK, gc1)"
    and g: "gc' = gc1\<lparr>gc_conn := dm_conn dm\<rparr>"
    using assms
    by (auto simp: bt_gopro_wifi_handles_assign_def with_service_def bind_eq_Some_conv bt_gatt_dm_conn_get_def
        simp del: assign_each.simps split: if_split_asm prod.splits)
  have k: "k < 4 \<longleftrightarrow> k \<in> set [0, 1, 2, 3]" for k :: nat by auto
  have lt: "\<forall>k \<in> set [0, 1, 2, 3]. k < length (gc_wifihandles ?gc)" by auto
  have d: "distinct [0, 1, 2, 3 :: nat]" by simp
  show ?thesis using assign_each_wifi [OF a d lt] by (simp add: g k)
qed

end
