(* ===== verification/Demo.thy ===== *)
theory Demo
  imports Control Handles
begin

section \<open>Concrete values\<close>

text \<open>
  An environment, a camera state and a client on which the theorems are evaluated: every
  allocation succeeds, every channel accepts, and a decoder finds an empty message.
\<close>

definition demo_pb :: "'m \<Rightarrow> 'm pb_result" where
  "demo_pb m = \<lparr>pb_fields = m, pb_subs = [], pb_ok = True\<rparr>"

definition demo_env :: gopro_env where
  "demo_env =
     \<lparr>env_alloc = (\<lambda>site n. Some (replicate n 0)), env_cmd_chan = (\<lambda>c. OK), env_can_ble_chan = OK,
      dec_generic = (\<lambda>b. (True, 1)),
      dec_start_scanning = (\<lambda>b. (True, \<lparr>ss_state = 0, ss_scan_id = 1, ss_total = 1\<rparr>)),
      dec_connect_new = (\<lambda>b. (True, 0, 0)), dec_connect = (\<lambda>b. (True, 0, 0)),
      dec_prov_state = (\<lambda>b. (True, 0)), dec_scan_req = (\<lambda>b. (True, 0, 0)),
      dec_cohn_status = (\<lambda>b. demo_pb \<lparr>cs_has_state = False, cs_state = 0, cs_has_status = False,
        cs_status = 0, cs_has_enabled = False, cs_enabled = False\<rparr>),
      dec_cohn_cert = (\<lambda>b. demo_pb \<lparr>cc_has_result = False, cc_result = 0\<rparr>),
      dec_ap_entries = (\<lambda>b. demo_pb ()), dec_scan_entry = (\<lambda>b. demo_pb \<lparr>se_frequency = 0, se_bars = 0, se_flags = 0\<rparr>),
      dec_wifi_cred = (\<lambda>b. demo_pb ()), dec_bledata = (\<lambda>b. demo_pb 0),
      enc_pairing_finish = (\<lambda>b n. (True, take n b)), enc_connect = (\<lambda>b n. (True, take n b)),
      enc_connect_new = (\<lambda>a b n. (True, take n (a @ b))), enc_get_ap = (\<lambda>a b c n. (True, [])),
      enc_bledata = (\<lambda>a b n. (True, take n b))\<rparr>"

definition demo_state :: "gopro_state_list_t \<Rightarrow> gopro_state_t" where
  "demo_state st =
     \<lparr>gs_addr = \<lparr>addr_type = 0, addr_val = replicate 6 0\<rparr>, gs_state = st, gs_video_count = 0,
      gs_record = 0, gs_battery = 0, gs_name = replicate 20 0, gs_wifi_ssid = replicate 20 0,
      gs_wifi_pass = replicate 20 0, gs_model_name = replicate 20 0, gs_firmware_version = replicate 20 0,
      gs_serial_number = replicate 20 0, gs_ap_mac = replicate 20 0, gs_cohn_ssid = replicate 20 0,
      gs_cohn_pass = replicate 20 0\<rparr>"

definition demo_client :: bt_gopro_client where
  "demo_client =
     \<lparr>gc_conn = Some 0, gc_state = 0,
      gc_handles = map (\<lambda>i. \<lparr>h_write = 10 + i, h_notify = 20 + i, h_notify_ccc = 30 + i\<rparr>) [0, 1, 2, 3],
      gc_wifihandles = [40, 41, 42, 43],
      gc_notif_params = map (\<lambda>i. \<lparr>sp_value_handle = 20 + i, sp_ccc_handle = 30 + i, sp_value = 1,
                                   sp_notify_set = True, sp_volatile = True\<rparr>) [0, 1, 2, 3],
      gc_write_params = replicate 4 \<lparr>wp_handle = 0, wp_offset = 0, wp_data = [], wp_length = 0\<rparr>,
      gc_read_params = replicate 4 \<lparr>rp_func = None, rp_handle = 0, rp_offset = 0, rp_count = 0\<rparr>\<rparr>"

definition demo_sys :: "gopro_state_list_t \<Rightarrow> gopro_sys" where
  "demo_sys st =
     \<lparr>sys_state = demo_state st, sys_client = demo_client, sys_packet = zero_packet,
      sys_leds = replicate 3 LED_MODE_OFF, sys_idle_timer = False, sys_hw_sem = 0, sys_write_sem = 0,
      sys_read_sem = 0, sys_cert = None, sys_ap_list = replicate 30 zero_ap, sys_ap_index = 0,
      sys_can_reply_sem = 1, sys_can_tx = [], sys_cmd_queue = [], sys_log = []\<rparr>"

lemma demo_alloc [simp]: "alloc_ok demo_env" "env_alloc demo_env s n = Some (replicate n 0)"
  "env_cmd_chan demo_env c = OK" "env_can_ble_chan demo_env = OK"
  by (simp_all add: alloc_ok_def demo_env_def)

lemma demo_sel [simp]:
  "sys_state (demo_sys st) = demo_state st" "sys_client (demo_sys st) = demo_client"
  "sys_packet (demo_sys st) = zero_packet" "gs_state (demo_state st) = st"
  "sys_write_sem (demo_sys st) = 0" "sys_can_reply_sem (demo_sys st) = 1" "sys_can_tx (demo_sys st) = []"
  "sys_cmd_queue (demo_sys st) = []"
  by (simp_all add: demo_sys_def demo_state_def)

lemma demo_wf_state [simp]: "wf_state (demo_state st)"
  by (simp add: wf_state_def demo_state_def)

lemma demo_wf_client [simp]: "wf_client demo_client"
  by (simp add: wf_client_def demo_client_def)

lemma demo_wf [simp]: "wf_sys (demo_sys st)"
  by (simp add: wf_sys_def demo_sys_def wf_leds_def wf_ap_list_def zero_ap_def cert_ok_def)

lemma demo_packet [simp]: "wf_packet zero_packet"
  by (simp add: wf_packet_def zero_packet_def)

lemma demo_writes [simp]: "writes_ok demo_client" "writes_idle demo_client"
proof -
  have four: "(\<forall>i < 4. P i) \<longleftrightarrow> P 0 \<and> P 1 \<and> P 2 \<and> P (3 :: nat)" for P
    by (auto simp: less_Suc_eq numeral_eq_Suc)
  show "writes_ok demo_client"
    by (simp add: writes_ok_def demo_client_def wf_client_def four)
  show "writes_idle demo_client"
    by (simp add: writes_idle_def demo_client_def atomic_test_bit_def)
qed

lemma demo_notif [simp]: "distinct_notif_handles demo_client"
  by (simp add: distinct_notif_handles_def demo_client_def)

end
