(* ===== verification/Scan.thy ===== *)
theory Scan
  imports Gatt_Dm
begin

section \<open>The scanning module: filters (\<^verbatim>\<open>nrf_hal/scan.c\<close>)\<close>

text \<open>
  The filter tables, the functions that add, remove, enable and disable filters, the
  blocklist, the connection attempts filter, the list of callbacks, the parameters, and
  starting and stopping. The numbers of
  \<^verbatim>\<open>CONFIG_BT_SCAN_*\<close> are the record \<open>scan_cfg\<close>. A table whose entries behind the counter
  are never read is the list of its entries; the two name tables keep their whole arrays,
  because a name is written over what its slot held before. The mutex is left out: every
  function below runs under it from its first read to its last write.
\<close>

subsection \<open>State\<close>

text \<open>
  The parameters of a scan and of a connection are structures of the Bluetooth stack. The
  module sets the type of the scan and copies everything else.
\<close>

type_synonym bt_le_conn_param = bytes

record bt_le_scan_param =
  sp_type :: u8
  sp_settings :: bytes

abbreviation (input) BT_LE_SCAN_TYPE_PASSIVE :: u8 where "BT_LE_SCAN_TYPE_PASSIVE \<equiv> 0"
abbreviation (input) BT_LE_SCAN_TYPE_ACTIVE :: u8 where "BT_LE_SCAN_TYPE_ACTIVE \<equiv> 1"

text \<open>The two defaults are \<^verbatim>\<open>BT_LE_SCAN_PASSIVE\<close> and \<^verbatim>\<open>BT_LE_CONN_PARAM_DEFAULT\<close> of the stack.\<close>

record scan_cfg =
  sc_name_cnt :: nat
  sc_name_max_len :: nat
  sc_short_name_cnt :: nat
  sc_short_name_max_len :: nat
  sc_addr_cnt :: nat
  sc_uuid_cnt :: nat
  sc_appearance_cnt :: nat
  sc_md_cnt :: nat
  sc_md_max_len :: nat
  sc_blocklist_len :: nat
  sc_attempts_len :: nat
  sc_attempts_count :: nat
  sc_blocklist :: bool
  sc_attempts :: bool
  sc_scan_passive :: bt_le_scan_param
  sc_conn_default :: bt_le_conn_param

record bt_scan_filters =
  sf_name_arr :: "bytes list"
  sf_name_cnt :: nat
  sf_name_enabled :: bool
  sf_short_arr :: "(bytes \<times> u8) list"
  sf_short_cnt :: nat
  sf_short_enabled :: bool
  sf_addr :: "bt_addr_le_t list"
  sf_addr_enabled :: bool
  sf_uuid :: "bt_uuid list"
  sf_uuid_enabled :: bool
  sf_appearance :: "u16 list"
  sf_appearance_enabled :: bool
  sf_md :: "bytes list"
  sf_md_enabled :: bool
  sf_all_mode :: bool

record conn_attempts_device =
  ca_addr :: bt_addr_le_t
  ca_attempts :: nat

record conn_attempts_filter =
  caf_device :: "conn_attempts_device list"
  caf_oldest_idx :: nat
  caf_count :: nat

record conn_blocklist =
  bl_addr :: "bt_addr_le_t list"
  bl_count :: nat

text \<open>Which of the four functions a registered structure has; a null pointer is \<open>False\<close>.\<close>

record cb_data =
  cb_filter_match :: bool
  cb_filter_no_match :: bool
  cb_connecting_error :: bool
  cb_connecting :: bool

text \<open>\<open>bs_callbacks\<close> is the list \<^verbatim>\<open>callback_list\<close>, a variable of its own in the code.\<close>

record bt_scan =
  bs_filters :: bt_scan_filters
  bs_connect_if_match :: bool
  bs_scan_param :: bt_le_scan_param
  bs_conn_param :: bt_le_conn_param
  bs_attempts :: conn_attempts_filter
  bs_blocklist :: conn_blocklist
  bs_callbacks :: "cb_data list"

text \<open>\<^verbatim>\<open>bt_uuid_create\<close> and \<^verbatim>\<open>bt_uuid_cmp\<close> of the Bluetooth stack; \<open>ue_same\<close> is the answer 0.\<close>

record uuid_env =
  ue_create :: "bytes \<Rightarrow> bt_uuid option"
  ue_same :: "bt_uuid \<Rightarrow> bt_uuid \<Rightarrow> bool"

definition upd_filters :: "(bt_scan_filters \<Rightarrow> bt_scan_filters) \<Rightarrow> bt_scan \<Rightarrow> bt_scan" where
  "upd_filters f bs = bs\<lparr>bs_filters := f (bs_filters bs)\<rparr>"

lemma upd_filters_sel [simp]:
  "bs_filters (upd_filters f bs) = f (bs_filters bs)"
  "bs_connect_if_match (upd_filters f bs) = bs_connect_if_match bs"
  "bs_scan_param (upd_filters f bs) = bs_scan_param bs" "bs_conn_param (upd_filters f bs) = bs_conn_param bs"
  "bs_attempts (upd_filters f bs) = bs_attempts bs" "bs_blocklist (upd_filters f bs) = bs_blocklist bs"
  "bs_callbacks (upd_filters f bs) = bs_callbacks bs"
  by (simp_all add: upd_filters_def)

abbreviation (input) BT_SCAN_NAME_FILTER :: u8 where "BT_SCAN_NAME_FILTER \<equiv> 0x01"
abbreviation (input) BT_SCAN_ADDR_FILTER :: u8 where "BT_SCAN_ADDR_FILTER \<equiv> 0x02"
abbreviation (input) BT_SCAN_UUID_FILTER :: u8 where "BT_SCAN_UUID_FILTER \<equiv> 0x04"
abbreviation (input) BT_SCAN_APPEARANCE_FILTER :: u8 where "BT_SCAN_APPEARANCE_FILTER \<equiv> 0x08"
abbreviation (input) BT_SCAN_SHORT_NAME_FILTER :: u8 where "BT_SCAN_SHORT_NAME_FILTER \<equiv> 0x10"
abbreviation (input) BT_SCAN_MANUFACTURER_DATA_FILTER :: u8 where "BT_SCAN_MANUFACTURER_DATA_FILTER \<equiv> 0x20"

subsection \<open>Adding a filter\<close>

definition scan_addr_filter_add :: "scan_cfg \<Rightarrow> bt_addr_le_t \<Rightarrow> bt_scan \<Rightarrow> cret \<times> bt_scan" where
  "scan_addr_filter_add cfg a bs =
     (let l = sf_addr (bs_filters bs) in
      if sc_addr_cnt cfg \<le> length l then (Neg ENOMEM, bs)
      else if list_ex (\<lambda>e. a = e) l then (OK, bs)
      else (OK, upd_filters (sf_addr_update (\<lambda>l. l @ [a])) bs))"

definition scan_uuid_filter_add ::
    "uuid_env \<Rightarrow> scan_cfg \<Rightarrow> bt_uuid \<Rightarrow> bt_scan \<Rightarrow> cret \<times> bt_scan" where
  "scan_uuid_filter_add ue cfg u bs =
     (let l = sf_uuid (bs_filters bs) in
      if sc_uuid_cnt cfg \<le> length l then (Neg ENOMEM, bs)
      else if list_ex (\<lambda>e. ue_same ue e u) l then (OK, bs)
      else (OK, upd_filters (sf_uuid_update (\<lambda>l. l @ [u])) bs))"

definition scan_appearance_filter_add :: "scan_cfg \<Rightarrow> u16 \<Rightarrow> bt_scan \<Rightarrow> cret \<times> bt_scan" where
  "scan_appearance_filter_add cfg a bs =
     (let l = sf_appearance (bs_filters bs) in
      if sc_appearance_cnt cfg \<le> length l then (Neg ENOMEM, bs)
      else if list_ex (\<lambda>e. e = a) l then (OK, bs)
      else (OK, upd_filters (sf_appearance_update (\<lambda>l. l @ [a])) bs))"

text \<open>\<^verbatim>\<open>memcmp\<close> on the length of the target, which is at most that of the data.\<close>

definition adv_manufacturer_data_cmp :: "bytes \<Rightarrow> bytes \<Rightarrow> bool" where
  "adv_manufacturer_data_cmp data target =
     (if length data < length target then False else take (length target) data = target)"

definition scan_manufacturer_data_filter_add :: "scan_cfg \<Rightarrow> bytes \<Rightarrow> bt_scan \<Rightarrow> cret \<times> bt_scan" where
  "scan_manufacturer_data_filter_add cfg d bs =
     (let l = sf_md (bs_filters bs) in
      if sc_md_cnt cfg \<le> length l then (Neg ENOMEM, bs)
      else if length d = 0 \<or> sc_md_max_len cfg < length d then (Neg EINVAL, bs)
      else if list_ex (\<lambda>e. adv_manufacturer_data_cmp d e) l then (OK, bs)
      else (OK, upd_filters (sf_md_update (\<lambda>l. l @ [d])) bs))"

text \<open>\<^verbatim>\<open>strcmp\<close>; \<open>None\<close> when it runs over the end of an array.\<close>

fun c_strcmp_eq :: "bytes \<Rightarrow> bytes \<Rightarrow> bool option" where
  "c_strcmp_eq (x # xs) (y # ys) =
     (if x \<noteq> y then Some False else if x = 0 then Some True else c_strcmp_eq xs ys)"
| "c_strcmp_eq xs ys = None"

fun name_known :: "bytes list \<Rightarrow> bytes \<Rightarrow> bool option" where
  "name_known [] nm = Some False"
| "name_known (e # es) nm = do {
     same \<leftarrow> c_strcmp_eq e nm;
     if same then Some True else name_known es nm
   }"

definition scan_name_filter_add :: "scan_cfg \<Rightarrow> bytes \<Rightarrow> bt_scan \<Rightarrow> (cret \<times> bt_scan) option" where
  "scan_name_filter_add cfg nm bs =
     (let f = bs_filters bs; counter = sf_name_cnt f in
      if sc_name_cnt cfg \<le> counter then Some (Neg ENOMEM, bs)
      else do {
        name_len \<leftarrow> c_strlen nm;
        if name_len = 0 \<or> sc_name_max_len cfg < name_len then Some (Neg EINVAL, bs)
        else do {
          known \<leftarrow> name_known (take counter (sf_name_arr f)) nm;
          if known then Some (OK, bs)
          else do {
            slot \<leftarrow> memcpy (sf_name_arr f ! counter) 0 nm 0 name_len;
            Some (OK, upd_filters (\<lambda>f. f\<lparr>sf_name_arr := (sf_name_arr f)[counter := slot],
                                           sf_name_cnt := counter + 1\<rparr>) bs)
          }
        }
      })"

definition scan_short_name_filter_add ::
    "scan_cfg \<Rightarrow> bytes \<times> u8 \<Rightarrow> bt_scan \<Rightarrow> (cret \<times> bt_scan) option" where
  "scan_short_name_filter_add cfg sn bs = (case sn of (nm, min_len) \<Rightarrow>
     (let f = bs_filters bs; counter = sf_short_cnt f in
      if sc_short_name_cnt cfg \<le> counter then Some (Neg ENOMEM, bs)
      else do {
        n \<leftarrow> c_strlen nm;
        let name_len = n mod 256;
        if name_len = 0 \<or> sc_short_name_max_len cfg < name_len then Some (Neg EINVAL, bs)
        else do {
          known \<leftarrow> name_known (map fst (take counter (sf_short_arr f))) nm;
          if known then Some (OK, bs)
          else do {
            slot \<leftarrow> memcpy (fst (sf_short_arr f ! counter)) 0 nm 0 name_len;
            Some (OK, upd_filters (\<lambda>f. f\<lparr>sf_short_arr := (sf_short_arr f)[counter := (slot, min_len)],
                                           sf_short_cnt := counter + 1\<rparr>) bs)
          }
        }
      }))"

datatype scan_filter =
    FILTER_NAME bytes | FILTER_SHORT_NAME "bytes \<times> u8" | FILTER_ADDR bt_addr_le_t | FILTER_UUID bt_uuid
  | FILTER_APPEARANCE u16 | FILTER_MANUFACTURER_DATA bytes

text \<open>A null pointer is \<open>None\<close>; the type of the filter is the constructor of its data.\<close>

definition bt_scan_filter_add ::
    "uuid_env \<Rightarrow> scan_cfg \<Rightarrow> scan_filter option \<Rightarrow> bt_scan \<Rightarrow> (cret \<times> bt_scan) option" where
  "bt_scan_filter_add ue cfg data bs =
     (case data of
        None \<Rightarrow> Some (Neg EINVAL, bs)
      | Some (FILTER_NAME nm) \<Rightarrow> scan_name_filter_add cfg nm bs
      | Some (FILTER_SHORT_NAME sn) \<Rightarrow> scan_short_name_filter_add cfg sn bs
      | Some (FILTER_ADDR a) \<Rightarrow> Some (scan_addr_filter_add cfg a bs)
      | Some (FILTER_UUID u) \<Rightarrow> Some (scan_uuid_filter_add ue cfg u bs)
      | Some (FILTER_APPEARANCE a) \<Rightarrow> Some (scan_appearance_filter_add cfg a bs)
      | Some (FILTER_MANUFACTURER_DATA d) \<Rightarrow> Some (scan_manufacturer_data_filter_add cfg d bs))"

subsection \<open>Removing, enabling, starting\<close>

definition bt_scan_filter_remove_all :: "bt_scan \<Rightarrow> bt_scan" where
  "bt_scan_filter_remove_all =
     upd_filters (\<lambda>f. f\<lparr>sf_name_cnt := 0, sf_short_cnt := 0, sf_addr := [], sf_uuid := [],
                        sf_appearance := [], sf_md := []\<rparr>)"

definition bt_scan_filter_disable :: "bt_scan \<Rightarrow> bt_scan" where
  "bt_scan_filter_disable =
     upd_filters (\<lambda>f. f\<lparr>sf_name_enabled := False, sf_short_enabled := False, sf_addr_enabled := False,
                        sf_uuid_enabled := False, sf_appearance_enabled := False, sf_md_enabled := False\<rparr>)"

definition check_filter_mode :: "u8 \<Rightarrow> bool" where
  "check_filter_mode mode \<longleftrightarrow> mode AND 0x3F \<noteq> 0"

definition bt_scan_filter_enable :: "u8 \<Rightarrow> bool \<Rightarrow> bt_scan \<Rightarrow> cret \<times> bt_scan" where
  "bt_scan_filter_enable mode match_all bs =
     (if \<not> check_filter_mode mode then (Neg EINVAL, bs)
      else
        let bs = bt_scan_filter_disable bs;
            on = (\<lambda>flag f g. if mode AND flag \<noteq> 0 then f g else g) in
        (OK, upd_filters (\<lambda>f.
           (on BT_SCAN_MANUFACTURER_DATA_FILTER (sf_md_enabled_update (\<lambda>_. True))
             (on BT_SCAN_APPEARANCE_FILTER (sf_appearance_enabled_update (\<lambda>_. True))
               (on BT_SCAN_UUID_FILTER (sf_uuid_enabled_update (\<lambda>_. True))
                 (on BT_SCAN_SHORT_NAME_FILTER (sf_short_enabled_update (\<lambda>_. True))
                   (on BT_SCAN_NAME_FILTER (sf_name_enabled_update (\<lambda>_. True))
                     (on BT_SCAN_ADDR_FILTER (sf_addr_enabled_update (\<lambda>_. True)) f))))))
             \<lparr>sf_all_mode := match_all\<rparr>) bs))"

record bt_scan_filter_info =
  fi_enabled :: bool
  fi_cnt :: nat

record bt_filter_status =
  fs_addr :: bt_scan_filter_info
  fs_name :: bt_scan_filter_info
  fs_short_name :: bt_scan_filter_info
  fs_uuid :: bt_scan_filter_info
  fs_appearance :: bt_scan_filter_info
  fs_manufacturer_data :: bt_scan_filter_info

definition bt_scan_filter_status_get :: "bt_scan \<Rightarrow> bt_filter_status" where
  "bt_scan_filter_status_get bs =
     (let f = bs_filters bs in
      \<lparr>fs_addr = \<lparr>fi_enabled = sf_addr_enabled f, fi_cnt = length (sf_addr f)\<rparr>,
       fs_name = \<lparr>fi_enabled = sf_name_enabled f, fi_cnt = sf_name_cnt f\<rparr>,
       fs_short_name = \<lparr>fi_enabled = sf_short_enabled f, fi_cnt = sf_short_cnt f\<rparr>,
       fs_uuid = \<lparr>fi_enabled = sf_uuid_enabled f, fi_cnt = length (sf_uuid f)\<rparr>,
       fs_appearance = \<lparr>fi_enabled = sf_appearance_enabled f, fi_cnt = length (sf_appearance f)\<rparr>,
       fs_manufacturer_data = \<lparr>fi_enabled = sf_md_enabled f, fi_cnt = length (sf_md f)\<rparr>\<rparr>)"

text \<open>\<open>start\<close> and \<open>stop\<close> are the answers of \<^verbatim>\<open>bt_le_scan_start\<close> and \<^verbatim>\<open>bt_le_scan_stop\<close>.\<close>

datatype bt_scan_type = BT_SCAN_TYPE_SCAN_PASSIVE | BT_SCAN_TYPE_SCAN_ACTIVE

definition bt_scan_start :: "cret \<Rightarrow> bt_scan_type \<Rightarrow> bt_scan \<Rightarrow> cret \<times> bt_scan" where
  "bt_scan_start start ty bs =
     (start, bs\<lparr>bs_scan_param := (bs_scan_param bs)
        \<lparr>sp_type := (case ty of BT_SCAN_TYPE_SCAN_ACTIVE \<Rightarrow> BT_LE_SCAN_TYPE_ACTIVE
                            | BT_SCAN_TYPE_SCAN_PASSIVE \<Rightarrow> BT_LE_SCAN_TYPE_PASSIVE)\<rparr>\<rparr>)"

definition bt_scan_stop :: "cret \<Rightarrow> cret" where
  "bt_scan_stop stop = stop"

definition bt_scan_update_connect_if_match :: "bool \<Rightarrow> bt_scan \<Rightarrow> bt_scan" where
  "bt_scan_update_connect_if_match c bs = bs\<lparr>bs_connect_if_match := c\<rparr>"

text \<open>The parameters; a null pointer is \<open>None\<close>. \<^verbatim>\<open>bt_scan_params_set\<close> drops the answer to its stop.\<close>

definition scan_default_param_set :: "scan_cfg \<Rightarrow> bt_scan \<Rightarrow> bt_scan" where
  "scan_default_param_set cfg bs = bs\<lparr>bs_scan_param := sc_scan_passive cfg\<rparr>"

definition scan_default_conn_param_set :: "scan_cfg \<Rightarrow> bt_scan \<Rightarrow> bt_scan" where
  "scan_default_conn_param_set cfg bs = bs\<lparr>bs_conn_param := sc_conn_default cfg\<rparr>"

definition bt_scan_params_set :: "scan_cfg \<Rightarrow> bt_le_scan_param option \<Rightarrow> bt_scan \<Rightarrow> cret \<times> bt_scan" where
  "bt_scan_params_set cfg scan_param bs =
     (OK, case scan_param of
            Some p \<Rightarrow> bs\<lparr>bs_scan_param := p\<rparr>
          | None \<Rightarrow> scan_default_param_set cfg bs)"

definition bt_scan_update_init_conn_params :: "bt_le_conn_param \<Rightarrow> bt_scan \<Rightarrow> bt_scan" where
  "bt_scan_update_init_conn_params p bs = bs\<lparr>bs_conn_param := p\<rparr>"

definition bt_scan_cb_register :: "cb_data option \<Rightarrow> bt_scan \<Rightarrow> bt_scan" where
  "bt_scan_cb_register cb bs =
     (case cb of None \<Rightarrow> bs | Some c \<Rightarrow> bs\<lparr>bs_callbacks := bs_callbacks bs @ [c]\<rparr>)"

definition zero_filters :: "scan_cfg \<Rightarrow> bt_scan_filters" where
  "zero_filters cfg =
     \<lparr>sf_name_arr = replicate (sc_name_cnt cfg) (replicate (sc_name_max_len cfg) 0), sf_name_cnt = 0,
      sf_name_enabled = False,
      sf_short_arr = replicate (sc_short_name_cnt cfg) (replicate (sc_short_name_max_len cfg) 0, 0),
      sf_short_cnt = 0, sf_short_enabled = False, sf_addr = [], sf_addr_enabled = False, sf_uuid = [],
      sf_uuid_enabled = False, sf_appearance = [], sf_appearance_enabled = False, sf_md = [],
      sf_md_enabled = False, sf_all_mode = False\<rparr>"

record bt_scan_init_param =
  ip_scan_param :: "bt_le_scan_param option"
  ip_connect_if_match :: bool
  ip_conn_param :: "bt_le_conn_param option"

definition bt_scan_init :: "scan_cfg \<Rightarrow> bt_scan_init_param option \<Rightarrow> bt_scan \<Rightarrow> bt_scan" where
  "bt_scan_init cfg init bs =
     (let bs = bs\<lparr>bs_filters := zero_filters cfg\<rparr> in
      case init of
        Some i \<Rightarrow>
          (let bs = bs\<lparr>bs_connect_if_match := ip_connect_if_match i\<rparr>;
               bs = (case ip_scan_param i of
                       Some p \<Rightarrow> bs\<lparr>bs_scan_param := p\<rparr> | None \<Rightarrow> scan_default_param_set cfg bs) in
           case ip_conn_param i of
             Some p \<Rightarrow> bs\<lparr>bs_conn_param := p\<rparr> | None \<Rightarrow> scan_default_conn_param_set cfg bs)
      | None \<Rightarrow>
          (scan_default_conn_param_set cfg (scan_default_param_set cfg bs))\<lparr>bs_connect_if_match := False\<rparr>)"

lemma scan_init_sel [simp]:
  "bs_filters (bt_scan_init cfg init bs) = zero_filters cfg"
  "bs_scan_param (bt_scan_init cfg init bs) =
     (case init of None \<Rightarrow> sc_scan_passive cfg | Some i \<Rightarrow> (case ip_scan_param i of None \<Rightarrow> sc_scan_passive cfg | Some p \<Rightarrow> p))"
  "bs_conn_param (bt_scan_init cfg init bs) =
     (case init of None \<Rightarrow> sc_conn_default cfg | Some i \<Rightarrow> (case ip_conn_param i of None \<Rightarrow> sc_conn_default cfg | Some p \<Rightarrow> p))"
  "bs_connect_if_match (bt_scan_init cfg init bs) = (case init of None \<Rightarrow> False | Some i \<Rightarrow> ip_connect_if_match i)"
  "bs_callbacks (bt_scan_init cfg init bs) = bs_callbacks bs" "bs_attempts (bt_scan_init cfg init bs) = bs_attempts bs"
  "bs_blocklist (bt_scan_init cfg init bs) = bs_blocklist bs"
  by (simp_all add: bt_scan_init_def scan_default_param_set_def scan_default_conn_param_set_def Let_def split: option.split)

subsection \<open>The blocklist and the connection attempts\<close>

text \<open>An address the search misses is compared with every slot of the array, used or not.\<close>

definition bt_scan_blocklist_device_add ::
    "scan_cfg \<Rightarrow> bt_addr_le_t option \<Rightarrow> bt_scan \<Rightarrow> cret \<times> bt_scan" where
  "bt_scan_blocklist_device_add cfg addr bs =
     (case addr of
        None \<Rightarrow> (Neg EINVAL, bs)
      | Some a \<Rightarrow>
          let b = bs_blocklist bs in
          if list_ex (\<lambda>e. e = a) (bl_addr b) then (OK, bs)
          else if sc_blocklist_len cfg \<le> bl_count b then (Neg ENOMEM, bs)
          else (OK, bs\<lparr>bs_blocklist := \<lparr>bl_addr = (bl_addr b)[bl_count b := a], bl_count = bl_count b + 1\<rparr>\<rparr>))"

definition zero_addr :: bt_addr_le_t where
  "zero_addr = \<lparr>addr_type = 0, addr_val = replicate 6 0\<rparr>"

definition bt_scan_blocklist_clear :: "scan_cfg \<Rightarrow> bt_scan \<Rightarrow> bt_scan" where
  "bt_scan_blocklist_clear cfg bs =
     bs\<lparr>bs_blocklist := \<lparr>bl_addr = replicate (sc_blocklist_len cfg) zero_addr, bl_count = 0\<rparr>\<rparr>"

definition blocklist_device_check :: "bt_scan \<Rightarrow> bt_addr_le_t \<Rightarrow> bool" where
  "blocklist_device_check bs a = list_ex (\<lambda>e. e = a) (take (bl_count (bs_blocklist bs)) (bl_addr (bs_blocklist bs)))"

definition attempts_filter_force_add :: "bt_addr_le_t \<Rightarrow> conn_attempts_filter \<Rightarrow> conn_attempts_filter" where
  "attempts_filter_force_add a f =
     f\<lparr>caf_device := (caf_device f)[caf_oldest_idx f := \<lparr>ca_addr = a, ca_attempts = 0\<rparr>],
       caf_oldest_idx := (if caf_oldest_idx f = length (caf_device f) - 1 then 0 else caf_oldest_idx f + 1)\<rparr>"

definition scan_attempts_filter_device_add :: "bt_addr_le_t \<Rightarrow> conn_attempts_filter \<Rightarrow> conn_attempts_filter" where
  "scan_attempts_filter_device_add a f =
     (if list_ex (\<lambda>d. a = ca_addr d) (take (caf_count f) (caf_device f)) then f
      else if length (caf_device f) \<le> caf_count f then attempts_filter_force_add a f
      else f\<lparr>caf_device := (caf_device f)[caf_count f := (caf_device f ! caf_count f)\<lparr>ca_addr := a\<rparr>],
             caf_count := caf_count f + 1\<rparr>)"

text \<open>The two loops stop at the first entry with the address.\<close>

fun count_attempt :: "nat \<Rightarrow> bt_addr_le_t \<Rightarrow> conn_attempts_device list \<Rightarrow> conn_attempts_device list" where
  "count_attempt limit a [] = []"
| "count_attempt limit a (d # ds) =
     (if a = ca_addr d
      then (if ca_attempts d < limit then d\<lparr>ca_attempts := ca_attempts d + 1\<rparr> else d) # ds
      else d # count_attempt limit a ds)"

definition device_conn_attempts_count :: "scan_cfg \<Rightarrow> bt_addr_le_t \<Rightarrow> conn_attempts_filter \<Rightarrow> conn_attempts_filter" where
  "device_conn_attempts_count cfg a f =
     f\<lparr>caf_device := count_attempt (sc_attempts_count cfg) a (take (caf_count f) (caf_device f)) @
                     drop (caf_count f) (caf_device f)\<rparr>"

definition conn_attempts_exceeded :: "scan_cfg \<Rightarrow> bt_addr_le_t \<Rightarrow> conn_attempts_filter \<Rightarrow> bool" where
  "conn_attempts_exceeded cfg a f =
     (case find (\<lambda>d. a = ca_addr d) (take (caf_count f) (caf_device f)) of
        None \<Rightarrow> False
      | Some d \<Rightarrow> sc_attempts_count cfg \<le> ca_attempts d)"

definition bt_scan_conn_attempts_filter_clear :: "scan_cfg \<Rightarrow> bt_scan \<Rightarrow> bt_scan" where
  "bt_scan_conn_attempts_filter_clear cfg bs =
     bs\<lparr>bs_attempts := \<lparr>caf_device = replicate (sc_attempts_len cfg) \<lparr>ca_addr = zero_addr, ca_attempts = 0\<rparr>,
                         caf_oldest_idx = 0, caf_count = 0\<rparr>\<rparr>"

definition attempts_connected :: "scan_cfg \<Rightarrow> bt_addr_le_t \<Rightarrow> u8 \<Rightarrow> bt_scan \<Rightarrow> bt_scan" where
  "attempts_connected cfg a err bs =
     (let f = scan_attempts_filter_device_add a (bs_attempts bs) in
      bs\<lparr>bs_attempts := (if err \<noteq> 0 then device_conn_attempts_count cfg a f else f)\<rparr>)"

definition attempts_disconnected :: "scan_cfg \<Rightarrow> bt_addr_le_t \<Rightarrow> bt_scan \<Rightarrow> bt_scan" where
  "attempts_disconnected cfg a bs = bs\<lparr>bs_attempts := device_conn_attempts_count cfg a (bs_attempts bs)\<rparr>"

definition scan_device_filter_check :: "scan_cfg \<Rightarrow> bt_scan \<Rightarrow> bt_addr_le_t \<Rightarrow> bool" where
  "scan_device_filter_check cfg bs a =
     (if sc_blocklist cfg \<and> blocklist_device_check bs a then False
      else if sc_attempts cfg \<and> conn_attempts_exceeded cfg a (bs_attempts bs) then False
      else True)"

subsection \<open>What a filter table promises\<close>

text \<open>
  Four tables follow one scheme: a bounded list, in which an entry may already cover the new
  one. What holds for every such table is proved once.
\<close>

locale filter_table =
  fixes add :: "'a \<Rightarrow> 's \<Rightarrow> cret \<times> 's"
    and items :: "'s \<Rightarrow> 'a list"
    and covers :: "'a \<Rightarrow> 'a \<Rightarrow> bool"
    and valid :: "'a \<Rightarrow> bool"
    and cap :: nat
  assumes add_full: "cap \<le> length (items s) \<Longrightarrow> add x s = (Neg ENOMEM, s)"
    and add_invalid: "length (items s) < cap \<Longrightarrow> \<not> valid x \<Longrightarrow> add x s = (Neg EINVAL, s)"
    and add_known: "length (items s) < cap \<Longrightarrow> valid x \<Longrightarrow> \<exists>e \<in> set (items s). covers e x \<Longrightarrow> add x s = (OK, s)"
    and add_new: "length (items s) < cap \<Longrightarrow> valid x \<Longrightarrow> \<forall>e \<in> set (items s). \<not> covers e x \<Longrightarrow>
      fst (add x s) = OK \<and> items (snd (add x s)) = items s @ [x]"
    and covers_self: "valid x \<Longrightarrow> covers x x"
begin

lemma add_cases:
  obtains (same) "snd (add x s) = s"
  | (new) "fst (add x s) = OK" "items (snd (add x s)) = items s @ [x]" "length (items s) < cap" "valid x"
      "\<forall>e \<in> set (items s). \<not> covers e x"
proof (cases "length (items s) < cap \<and> valid x \<and> (\<forall>e \<in> set (items s). \<not> covers e x)")
  case True
  then show ?thesis using add_new [of s x] by (intro new) auto
next
  case False
  then have "snd (add x s) = s"
    using add_full [of s x] add_invalid [of s x] add_known [of s x]
    by (cases "length (items s) < cap"; cases "valid x") (auto simp: not_less)
  then show ?thesis by (rule same)
qed

lemma add_bounded: "length (items s) \<le> cap \<Longrightarrow> length (items (snd (add x s))) \<le> cap"
  by (cases rule: add_cases [of x s]) auto

lemma add_keeps: "e \<in> set (items s) \<Longrightarrow> e \<in> set (items (snd (add x s)))"
  by (cases rule: add_cases [of x s]) auto

lemma add_ok_covered: "fst (add x s) = OK \<Longrightarrow> \<exists>e \<in> set (items (snd (add x s))). covers e x"
  using add_full [of s x] add_invalid [of s x] add_known [of s x] add_new [of s x] covers_self [of x]
  by (cases "length (items s) < cap"; cases "valid x"; cases "\<exists>e \<in> set (items s). covers e x")
     (auto simp: not_less)

lemma add_sound: "e \<in> set (items (snd (add x s))) \<Longrightarrow> e \<in> set (items s) \<or> e = x \<and> valid x"
  by (cases rule: add_cases [of x s]) auto

lemma add_room:
  "length (items s) < cap \<Longrightarrow> valid x \<Longrightarrow> fst (add x s) = OK"
  using add_known [of s x] add_new [of s x] by (cases "\<exists>e \<in> set (items s). covers e x") auto

lemma add_uncovered:
  "sorted_wrt (\<lambda>a b. \<not> covers a b) (items s) \<Longrightarrow> sorted_wrt (\<lambda>a b. \<not> covers a b) (items (snd (add x s)))"
  by (cases rule: add_cases [of x s]) (auto simp: sorted_wrt_append)

end

interpretation addr_table:
  filter_table "scan_addr_filter_add cfg" "\<lambda>bs. sf_addr (bs_filters bs)" "(=)" "\<lambda>_. True" "sc_addr_cnt cfg"
  for cfg
  by unfold_locales (auto simp: scan_addr_filter_add_def Let_def list_ex_iff)

interpretation appearance_table:
  filter_table "scan_appearance_filter_add cfg" "\<lambda>bs. sf_appearance (bs_filters bs)" "(=)" "\<lambda>_. True"
    "sc_appearance_cnt cfg" for cfg
  by unfold_locales (auto simp: scan_appearance_filter_add_def Let_def list_ex_iff)

interpretation md_table:
  filter_table "scan_manufacturer_data_filter_add cfg" "\<lambda>bs. sf_md (bs_filters bs)"
    "\<lambda>e x. adv_manufacturer_data_cmp x e" "\<lambda>d. length d \<noteq> 0 \<and> length d \<le> sc_md_max_len cfg" "sc_md_cnt cfg"
  for cfg
  by unfold_locales
     (auto simp: scan_manufacturer_data_filter_add_def Let_def list_ex_iff adv_manufacturer_data_cmp_def)

text \<open>UUIDs: the stack's comparison is reflexive.\<close>

lemma uuid_table:
  assumes "\<And>u. ue_same ue u u"
  shows "filter_table (scan_uuid_filter_add ue cfg) (\<lambda>bs. sf_uuid (bs_filters bs)) (ue_same ue) (\<lambda>_. True)
    (sc_uuid_cnt cfg)"
  by unfold_locales (auto simp: scan_uuid_filter_add_def Let_def list_ex_iff assms)

subsection \<open>Lemmas about enabling, names, the blocklist and the attempts\<close>

lemma mode_bits:
  "mode AND 0x01 \<noteq> (0 :: u8) \<longleftrightarrow> bit mode 0" "mode AND 0x02 \<noteq> (0 :: u8) \<longleftrightarrow> bit mode 1"
  "mode AND 0x04 \<noteq> (0 :: u8) \<longleftrightarrow> bit mode 2" "mode AND 0x08 \<noteq> (0 :: u8) \<longleftrightarrow> bit mode 3"
  "mode AND 0x10 \<noteq> (0 :: u8) \<longleftrightarrow> bit mode 4" "mode AND 0x20 \<noteq> (0 :: u8) \<longleftrightarrow> bit mode 5"
proof -
  have one: "mode AND push_bit n 1 \<noteq> 0 \<longleftrightarrow> bit mode n" if "n < 8" for n
    using that by (simp add: and_exp_eq_0_iff_not_bit push_bit_of_1)
  show "mode AND 0x01 \<noteq> (0 :: u8) \<longleftrightarrow> bit mode 0" "mode AND 0x02 \<noteq> (0 :: u8) \<longleftrightarrow> bit mode 1"
    "mode AND 0x04 \<noteq> (0 :: u8) \<longleftrightarrow> bit mode 2" "mode AND 0x08 \<noteq> (0 :: u8) \<longleftrightarrow> bit mode 3"
    "mode AND 0x10 \<noteq> (0 :: u8) \<longleftrightarrow> bit mode 4" "mode AND 0x20 \<noteq> (0 :: u8) \<longleftrightarrow> bit mode 5"
    using one [of 0] one [of 1] one [of 2] one [of 3] one [of 4] one [of 5] by simp_all
qed

lemma enable_if:
  "(if b then sf_addr_enabled_update (\<lambda>_. True) f else f) = f\<lparr>sf_addr_enabled := b \<or> sf_addr_enabled f\<rparr>"
  "(if b then sf_name_enabled_update (\<lambda>_. True) f else f) = f\<lparr>sf_name_enabled := b \<or> sf_name_enabled f\<rparr>"
  "(if b then sf_short_enabled_update (\<lambda>_. True) f else f) = f\<lparr>sf_short_enabled := b \<or> sf_short_enabled f\<rparr>"
  "(if b then sf_uuid_enabled_update (\<lambda>_. True) f else f) = f\<lparr>sf_uuid_enabled := b \<or> sf_uuid_enabled f\<rparr>"
  "(if b then sf_appearance_enabled_update (\<lambda>_. True) f else f) =
     f\<lparr>sf_appearance_enabled := b \<or> sf_appearance_enabled f\<rparr>"
  "(if b then sf_md_enabled_update (\<lambda>_. True) f else f) = f\<lparr>sf_md_enabled := b \<or> sf_md_enabled f\<rparr>"
  by simp_all

lemma filter_enable_flags:
  assumes "check_filter_mode mode" and "bt_scan_filter_enable mode match_all bs = (r, bs')"
  shows "r = OK \<and> sf_addr_enabled (bs_filters bs') = bit mode 1 \<and> sf_name_enabled (bs_filters bs') = bit mode 0 \<and>
    sf_short_enabled (bs_filters bs') = bit mode 4 \<and> sf_uuid_enabled (bs_filters bs') = bit mode 2 \<and>
    sf_appearance_enabled (bs_filters bs') = bit mode 3 \<and> sf_md_enabled (bs_filters bs') = bit mode 5 \<and>
    sf_all_mode (bs_filters bs') = match_all \<and> sf_addr (bs_filters bs') = sf_addr (bs_filters bs) \<and>
    sf_uuid (bs_filters bs') = sf_uuid (bs_filters bs)"
proof -
  have "r = OK" and e: "bs' = upd_filters (\<lambda>f. f\<lparr>sf_addr_enabled := bit mode 1, sf_name_enabled := bit mode 0,
      sf_short_enabled := bit mode 4, sf_uuid_enabled := bit mode 2, sf_appearance_enabled := bit mode 3,
      sf_md_enabled := bit mode 5, sf_all_mode := match_all\<rparr>) bs"
    using assms
    by (simp_all add: bt_scan_filter_enable_def Let_def bt_scan_filter_disable_def mode_bits enable_if upd_filters_def)
  then show ?thesis unfolding e by simp
qed

text \<open>A name is written over the old contents of its slot, which keep their tail.\<close>

lemma name_slot_tail:
  assumes "sf_name_cnt (bs_filters bs) = 0" "0 < sc_name_cnt cfg" "sf_name_arr (bs_filters bs) \<noteq> []"
    and "c_strlen nm = Some k" "0 < k" "k \<le> sc_name_max_len cfg" "length (sf_name_arr (bs_filters bs) ! 0) = sc_name_max_len cfg"
  shows "\<exists>bs'. scan_name_filter_add cfg nm bs = Some (OK, bs') \<and> sf_name_cnt (bs_filters bs') = 1 \<and>
    sf_name_arr (bs_filters bs') ! 0 = take k nm @ drop k (sf_name_arr (bs_filters bs) ! 0)"
proof -
  have "k \<le> length nm" using assms(4) by (auto simp: c_strlen_Some_iff dest: c_string_length)
  then have m: "memcpy (sf_name_arr (bs_filters bs) ! 0) 0 nm 0 k =
      Some (take k nm @ drop k (sf_name_arr (bs_filters bs) ! 0))"
    using assms(6,7) by (simp add: memcpy_Some)
  show ?thesis using assms m by (simp add: scan_name_filter_add_def Let_def)
qed

text \<open>The all-zero address cannot be blocked: an unused slot already holds it.\<close>

lemma zero_addr_unblocked:
  assumes "0 < sc_blocklist_len cfg"
  shows "bt_scan_blocklist_device_add cfg (Some zero_addr) (bt_scan_blocklist_clear cfg bs) =
      (OK, bt_scan_blocklist_clear cfg bs) \<and>
    \<not> blocklist_device_check (bt_scan_blocklist_clear cfg bs) zero_addr"
  using assms
  by (simp add: bt_scan_blocklist_device_add_def bt_scan_blocklist_clear_def blocklist_device_check_def
      Let_def list_ex_iff)

definition wf_blocklist :: "scan_cfg \<Rightarrow> conn_blocklist \<Rightarrow> bool" where
  "wf_blocklist cfg b \<longleftrightarrow> length (bl_addr b) = sc_blocklist_len cfg \<and> bl_count b \<le> sc_blocklist_len cfg \<and>
     (\<forall>i. bl_count b \<le> i \<longrightarrow> i < sc_blocklist_len cfg \<longrightarrow> bl_addr b ! i = zero_addr)"

lemma blocklist_add_wf:
  "wf_blocklist cfg (bs_blocklist bs) \<Longrightarrow> wf_blocklist cfg (bs_blocklist (snd (bt_scan_blocklist_device_add cfg a bs)))"
  by (auto simp: wf_blocklist_def bt_scan_blocklist_device_add_def Let_def split: option.split)

lemma blocklist_add_blocks:
  assumes "wf_blocklist cfg (bs_blocklist bs)" and "a \<noteq> zero_addr"
    and "bt_scan_blocklist_device_add cfg (Some a) bs = (OK, bs')"
  shows "blocklist_device_check bs' a"
proof -
  let ?b = "bs_blocklist bs"
  show ?thesis
  proof (cases "a \<in> set (bl_addr ?b)")
    case True
    then obtain i where i: "i < length (bl_addr ?b)" "bl_addr ?b ! i = a" by (auto simp: in_set_conv_nth)
    then have "i < bl_count ?b" using assms(1,2) by (auto simp: wf_blocklist_def not_le [symmetric])
    then have "a \<in> set (take (bl_count ?b) (bl_addr ?b))" using i by (auto simp: in_set_conv_nth)
    moreover have "bs' = bs"
      using True assms(3) by (simp add: bt_scan_blocklist_device_add_def Let_def list_ex_iff)
    ultimately show ?thesis by (simp add: blocklist_device_check_def list_ex_iff)
  next
    case False
    then have c: "bl_count ?b < sc_blocklist_len cfg"
      "bs' = bs\<lparr>bs_blocklist := \<lparr>bl_addr = (bl_addr ?b)[bl_count ?b := a], bl_count = bl_count ?b + 1\<rparr>\<rparr>"
      using assms(3) by (auto simp: bt_scan_blocklist_device_add_def Let_def list_ex_iff split: if_split_asm)
    then show ?thesis
      using assms(1) by (simp add: blocklist_device_check_def list_ex_iff wf_blocklist_def take_Suc_conv_app_nth)
  qed
qed

text \<open>A device that fails to connect often enough is not reported any more.\<close>

fun failed_connects :: "scan_cfg \<Rightarrow> bt_addr_le_t \<Rightarrow> nat \<Rightarrow> bt_scan \<Rightarrow> bt_scan" where
  "failed_connects cfg a 0 bs = bs"
| "failed_connects cfg a (Suc n) bs = attempts_connected cfg a 1 (failed_connects cfg a n bs)"

lemma failed_connects_device:
  assumes "0 < sc_attempts_len cfg"
  shows "0 < n \<Longrightarrow> bs_attempts (failed_connects cfg a n (bt_scan_conn_attempts_filter_clear cfg bs)) =
    \<lparr>caf_device = \<lparr>ca_addr = a, ca_attempts = min n (sc_attempts_count cfg)\<rparr> #
        replicate (sc_attempts_len cfg - 1) \<lparr>ca_addr = zero_addr, ca_attempts = 0\<rparr>,
     caf_oldest_idx = 0, caf_count = 1\<rparr>"
proof (induction n)
  case 0
  then show ?case by simp
next
  case (Suc n)
  obtain k where k: "sc_attempts_len cfg = Suc k" using assms by (cases "sc_attempts_len cfg") auto
  show ?case
  proof (cases n)
    case 0
    then show ?thesis
      by (simp add: attempts_connected_def bt_scan_conn_attempts_filter_clear_def k Let_def
          scan_attempts_filter_device_add_def device_conn_attempts_count_def)
  next
    case (Suc m)
    with Suc.IH show ?thesis
      by (simp add: attempts_connected_def Let_def scan_attempts_filter_device_add_def
          device_conn_attempts_count_def k)
  qed
qed

lemma failed_connects_exceed:
  assumes "0 < sc_attempts_len cfg" and "0 < n"
  shows "conn_attempts_exceeded cfg a
      (bs_attempts (failed_connects cfg a n (bt_scan_conn_attempts_filter_clear cfg bs))) \<longleftrightarrow>
    sc_attempts_count cfg \<le> n"
  by (simp add: failed_connects_device [OF assms] conn_attempts_exceeded_def)

end
