(* ===== verification/Scan_Match.thy ===== *)
theory Scan_Match
  imports Scan
begin

section \<open>The scanning module: advertisements (\<^verbatim>\<open>nrf_hal/scan.c\<close>)\<close>

text \<open>
  Matching a received advertisement with the filters. \<^verbatim>\<open>bt_data_parse\<close> of the Bluetooth
  stack calls \<^verbatim>\<open>adv_data_found\<close> for each structure of the advertisement; the list of
  structures is its argument here. A structure has its length and the bytes from its data
  pointer to the end of the received buffer.
\<close>

subsection \<open>Control data\<close>

record bt_data =
  bd_type :: u8
  bd_len :: u8
  bd_data :: bytes

text \<open>A field that the code sets together with its \<^verbatim>\<open>match\<close> flag is an option.\<close>

record bt_scan_filter_match =
  fm_addr :: "bt_addr_le_t option"
  fm_name :: "(bytes \<times> u8) option"
  fm_short_name :: "(bytes \<times> u8) option"
  fm_uuid_match :: bool
  fm_uuids :: "bt_uuid list"
  fm_appearance :: "u16 option"
  fm_md :: "bytes option"

record bt_scan_control =
  ctl_filter_cnt :: u8
  ctl_match_cnt :: u8
  ctl_match :: bool
  ctl_all_mode :: bool
  ctl_connectable :: bool
  ctl_status :: bt_scan_filter_match

definition no_match :: bt_scan_filter_match where
  "no_match = \<lparr>fm_addr = None, fm_name = None, fm_short_name = None, fm_uuid_match = False,
     fm_uuids = [], fm_appearance = None, fm_md = None\<rparr>"

definition count_match :: "(bt_scan_filter_match \<Rightarrow> bt_scan_filter_match) \<Rightarrow> bt_scan_control \<Rightarrow> bt_scan_control" where
  "count_match f c = c\<lparr>ctl_match_cnt := ctl_match_cnt c + 1, ctl_status := f (ctl_status c), ctl_match := True\<rparr>"

lemma count_match_sel [simp]:
  "ctl_match_cnt (count_match f c) = ctl_match_cnt c + 1" "ctl_match (count_match f c) = True"
  "ctl_filter_cnt (count_match f c) = ctl_filter_cnt c" "ctl_all_mode (count_match f c) = ctl_all_mode c"
  "ctl_connectable (count_match f c) = ctl_connectable c" "ctl_status (count_match f c) = f (ctl_status c)"
  by (simp_all add: count_match_def)

subsection \<open>One filter type at a time\<close>

definition is_addr_filter_enabled :: "scan_cfg \<Rightarrow> bt_scan_filters \<Rightarrow> bool" where
  "is_addr_filter_enabled cfg f \<longleftrightarrow> sc_addr_cnt cfg \<noteq> 0 \<and> sf_addr_enabled f"

definition is_name_filter_enabled :: "scan_cfg \<Rightarrow> bt_scan_filters \<Rightarrow> bool" where
  "is_name_filter_enabled cfg f \<longleftrightarrow> sc_name_cnt cfg \<noteq> 0 \<and> sf_name_enabled f"

definition is_short_name_filter_enabled :: "scan_cfg \<Rightarrow> bt_scan_filters \<Rightarrow> bool" where
  "is_short_name_filter_enabled cfg f \<longleftrightarrow> sc_short_name_cnt cfg \<noteq> 0 \<and> sf_short_enabled f"

definition is_uuid_filter_enabled :: "scan_cfg \<Rightarrow> bt_scan_filters \<Rightarrow> bool" where
  "is_uuid_filter_enabled cfg f \<longleftrightarrow> sc_uuid_cnt cfg \<noteq> 0 \<and> sf_uuid_enabled f"

definition is_appearance_filter_enabled :: "scan_cfg \<Rightarrow> bt_scan_filters \<Rightarrow> bool" where
  "is_appearance_filter_enabled cfg f \<longleftrightarrow> sc_appearance_cnt cfg \<noteq> 0 \<and> sf_appearance_enabled f"

definition is_manufacturer_data_filter_enabled :: "scan_cfg \<Rightarrow> bt_scan_filters \<Rightarrow> bool" where
  "is_manufacturer_data_filter_enabled cfg f \<longleftrightarrow> sc_md_cnt cfg \<noteq> 0 \<and> sf_md_enabled f"

definition check_addr ::
    "scan_cfg \<Rightarrow> bt_scan_filters \<Rightarrow> bt_addr_le_t \<Rightarrow> bt_scan_control \<Rightarrow> bt_scan_control" where
  "check_addr cfg f a c =
     (if is_addr_filter_enabled cfg f \<and> list_ex (\<lambda>e. a = e) (sf_addr f)
      then count_match (fm_addr_update (\<lambda>_. Some a)) c else c)"

fun adv_name_compare :: "bytes \<Rightarrow> nat \<Rightarrow> bytes list \<Rightarrow> bytes option option" where
  "adv_name_compare data len [] = Some None"
| "adv_name_compare data len (e # es) = do {
     same \<leftarrow> c_strncmp_eq len e data;
     if same then Some (Some e) else adv_name_compare data len es
   }"

definition name_check ::
    "scan_cfg \<Rightarrow> bt_scan_filters \<Rightarrow> bt_data \<Rightarrow> bt_scan_control \<Rightarrow> bt_scan_control option" where
  "name_check cfg f d c =
     (if is_name_filter_enabled cfg f then do {
        r \<leftarrow> adv_name_compare (bd_data d) (unat (bd_len d)) (take (sf_name_cnt f) (sf_name_arr f));
        Some (case r of None \<Rightarrow> c
              | Some e \<Rightarrow> count_match (fm_name_update (\<lambda>_. Some (e, bd_len d))) c)
      }
      else Some c)"

fun adv_short_name_compare :: "bytes \<Rightarrow> u8 \<Rightarrow> (bytes \<times> u8) list \<Rightarrow> bytes option option" where
  "adv_short_name_compare data len [] = Some None"
| "adv_short_name_compare data len ((e, min_len) # es) =
     (if min_len \<le> len then do {
        same \<leftarrow> c_strncmp_eq (unat len) e data;
        if same then Some (Some e) else adv_short_name_compare data len es
      }
      else adv_short_name_compare data len es)"

definition short_name_check ::
    "scan_cfg \<Rightarrow> bt_scan_filters \<Rightarrow> bt_data \<Rightarrow> bt_scan_control \<Rightarrow> bt_scan_control option" where
  "short_name_check cfg f d c =
     (if is_short_name_filter_enabled cfg f then do {
        r \<leftarrow> adv_short_name_compare (bd_data d) (bd_len d) (take (sf_short_cnt f) (sf_short_arr f));
        Some (case r of None \<Rightarrow> c
              | Some e \<Rightarrow> count_match (fm_short_name_update (\<lambda>_. Some (e, bd_len d))) c)
      }
      else Some c)"

datatype uuid_type = BT_UUID_TYPE_16 | BT_UUID_TYPE_32 | BT_UUID_TYPE_128

primrec uuid_len :: "uuid_type \<Rightarrow> nat" where
  "uuid_len BT_UUID_TYPE_16 = 2"
| "uuid_len BT_UUID_TYPE_32 = 4"
| "uuid_len BT_UUID_TYPE_128 = 16"

lemma uuid_len_pos [simp]: "0 < uuid_len ty"
  by (cases ty) simp_all

function find_uuid_loop :: "uuid_env \<Rightarrow> bytes \<Rightarrow> nat \<Rightarrow> uuid_type \<Rightarrow> bt_uuid \<Rightarrow> nat \<Rightarrow> bool option" where
  "find_uuid_loop ue data len ty target i =
     (if i < len then do {
        b \<leftarrow> rd_block data i (uuid_len ty);
        case ue_create ue b of
          None \<Rightarrow> Some False
        | Some u \<Rightarrow> if ue_same ue u target then Some True
                    else find_uuid_loop ue data len ty target (i + uuid_len ty)
      }
      else Some False)"
  by pat_completeness auto
termination
  by (relation "measure (\<lambda>(ue, data, len, ty, target, i). len - i)") (auto intro!: diff_less_mono2)

declare find_uuid_loop.simps [simp del]

definition find_uuid :: "uuid_env \<Rightarrow> bytes \<Rightarrow> u8 \<Rightarrow> uuid_type \<Rightarrow> bt_uuid \<Rightarrow> bool option" where
  "find_uuid ue data len ty target = find_uuid_loop ue data (unat len) ty target 0"

text \<open>The UUIDs put into the status; in the normal mode the first, in the other one all up to a miss.\<close>

fun uuids_found :: "uuid_env \<Rightarrow> bool \<Rightarrow> bt_data \<Rightarrow> uuid_type \<Rightarrow> bt_uuid list \<Rightarrow> bt_uuid list option" where
  "uuids_found ue all_mode d ty [] = Some []"
| "uuids_found ue all_mode d ty (u # us) = do {
     hit \<leftarrow> find_uuid ue (bd_data d) (bd_len d) ty u;
     if hit then
       if \<not> all_mode then Some [u]
       else do { rest \<leftarrow> uuids_found ue all_mode d ty us; Some (u # rest) }
     else if all_mode then Some []
     else uuids_found ue all_mode d ty us
   }"

definition uuid_check ::
    "uuid_env \<Rightarrow> scan_cfg \<Rightarrow> bt_scan_filters \<Rightarrow> bt_data \<Rightarrow> uuid_type \<Rightarrow> bt_scan_control \<Rightarrow> bt_scan_control option" where
  "uuid_check ue cfg f d ty c =
     (if is_uuid_filter_enabled cfg f then do {
        found \<leftarrow> uuids_found ue (sf_all_mode f) d ty (sf_uuid f);
        let c = c\<lparr>ctl_status := (ctl_status c)\<lparr>fm_uuids := found\<rparr>\<rparr>;
        if sf_all_mode f \<and> length found = length (sf_uuid f) \<or> \<not> sf_all_mode f \<and> 0 < length found
        then Some (count_match (fm_uuid_match_update (\<lambda>_. True)) c)
        else Some c
      }
      else Some c)"

definition find_appearance :: "bytes \<Rightarrow> u8 \<Rightarrow> u16 \<Rightarrow> bool option" where
  "find_appearance data len a =
     (if len \<noteq> 2 then Some False
      else do {
        lo \<leftarrow> rd data 0;
        hi \<leftarrow> rd data 1;
        Some (ucast lo OR push_bit 8 (ucast hi) = a)
      })"

fun adv_appearance_compare :: "bytes \<Rightarrow> u8 \<Rightarrow> u16 list \<Rightarrow> u16 option option" where
  "adv_appearance_compare data len [] = Some None"
| "adv_appearance_compare data len (a # es) = do {
     same \<leftarrow> find_appearance data len a;
     if same then Some (Some a) else adv_appearance_compare data len es
   }"

definition appearance_check ::
    "scan_cfg \<Rightarrow> bt_scan_filters \<Rightarrow> bt_data \<Rightarrow> bt_scan_control \<Rightarrow> bt_scan_control option" where
  "appearance_check cfg f d c =
     (if is_appearance_filter_enabled cfg f then do {
        r \<leftarrow> adv_appearance_compare (bd_data d) (bd_len d) (sf_appearance f);
        Some (case r of None \<Rightarrow> c | Some a \<Rightarrow> count_match (fm_appearance_update (\<lambda>_. Some a)) c)
      }
      else Some c)"

definition adv_manufacturer_data_compare :: "bt_scan_filters \<Rightarrow> bytes \<Rightarrow> bytes option" where
  "adv_manufacturer_data_compare f data = find (\<lambda>e. adv_manufacturer_data_cmp data e) (sf_md f)"

definition manufacturer_data_check ::
    "scan_cfg \<Rightarrow> bt_scan_filters \<Rightarrow> bt_data \<Rightarrow> bt_scan_control \<Rightarrow> bt_scan_control option" where
  "manufacturer_data_check cfg f d c =
     (if is_manufacturer_data_filter_enabled cfg f then do {
        data \<leftarrow> rd_block (bd_data d) 0 (unat (bd_len d));
        Some (case adv_manufacturer_data_compare f data of
                None \<Rightarrow> c | Some e \<Rightarrow> count_match (fm_md_update (\<lambda>_. Some e)) c)
      }
      else Some c)"

subsection \<open>An advertisement\<close>

definition check_enabled_filters :: "scan_cfg \<Rightarrow> bt_scan_filters \<Rightarrow> u8" where
  "check_enabled_filters cfg f =
     (if is_addr_filter_enabled cfg f then 1 else 0) + (if is_name_filter_enabled cfg f then 1 else 0) +
     (if is_short_name_filter_enabled cfg f then 1 else 0) + (if is_uuid_filter_enabled cfg f then 1 else 0) +
     (if is_appearance_filter_enabled cfg f then 1 else 0) +
     (if is_manufacturer_data_filter_enabled cfg f then 1 else 0)"

definition adv_data_found ::
    "uuid_env \<Rightarrow> scan_cfg \<Rightarrow> bt_scan_filters \<Rightarrow> bt_data \<Rightarrow> bt_scan_control \<Rightarrow> bt_scan_control option" where
  "adv_data_found ue cfg f d c =
     (if bd_type d = 0x09 then name_check cfg f d c
      else if bd_type d = 0x08 then short_name_check cfg f d c
      else if bd_type d = 0x19 then appearance_check cfg f d c
      else if bd_type d = 0x02 \<or> bd_type d = 0x03 then uuid_check ue cfg f d BT_UUID_TYPE_16 c
      else if bd_type d = 0x04 \<or> bd_type d = 0x05 then uuid_check ue cfg f d BT_UUID_TYPE_32 c
      else if bd_type d = 0x06 \<or> bd_type d = 0x07 then uuid_check ue cfg f d BT_UUID_TYPE_128 c
      else if bd_type d = 0xFF then manufacturer_data_check cfg f d c
      else Some c)"

fun adv_data_parse ::
    "uuid_env \<Rightarrow> scan_cfg \<Rightarrow> bt_scan_filters \<Rightarrow> bt_data list \<Rightarrow> bt_scan_control \<Rightarrow> bt_scan_control option" where
  "adv_data_parse ue cfg f [] c = Some c"
| "adv_data_parse ue cfg f (d # ds) c = do {
     c \<leftarrow> adv_data_found ue cfg f d c;
     adv_data_parse ue cfg f ds c
   }"

text \<open>
  What the module does: a call of the registered structure with that number, or a request to
  the stack. Each list is walked from the first structure registered to the last, and those
  without the function are passed over.
\<close>

datatype scan_event =
    Ev_filter_match nat bt_scan_filter_match bool | Ev_filter_no_match nat bool
  | Ev_connecting nat | Ev_connecting_error nat | Ev_scan_stop | Ev_conn_create bt_le_conn_param

definition callers :: "(cb_data \<Rightarrow> bool) \<Rightarrow> cb_data list \<Rightarrow> nat list" where
  "callers has cbs = filter (\<lambda>i. has (cbs ! i)) [0 ..< length cbs]"

definition notify_filter_matched :: "bt_scan_filter_match \<Rightarrow> bool \<Rightarrow> bt_scan \<Rightarrow> scan_event list" where
  "notify_filter_matched m c bs = map (\<lambda>i. Ev_filter_match i m c) (callers cb_filter_match (bs_callbacks bs))"

definition notify_filter_no_match :: "bool \<Rightarrow> bt_scan \<Rightarrow> scan_event list" where
  "notify_filter_no_match c bs = map (\<lambda>i. Ev_filter_no_match i c) (callers cb_filter_no_match (bs_callbacks bs))"

definition notify_connecting :: "bt_scan \<Rightarrow> scan_event list" where
  "notify_connecting bs = map Ev_connecting (callers cb_connecting (bs_callbacks bs))"

definition notify_connecting_error :: "bt_scan \<Rightarrow> scan_event list" where
  "notify_connecting_error bs = map Ev_connecting_error (callers cb_connecting_error (bs_callbacks bs))"

text \<open>\<open>create\<close> is the answer of \<^verbatim>\<open>bt_conn_le_create\<close>, asked with the stored parameters.\<close>

definition scan_connect_with_target :: "cret \<Rightarrow> bt_scan \<Rightarrow> scan_event list" where
  "scan_connect_with_target create bs =
     (if \<not> bs_connect_if_match bs then []
      else [Ev_scan_stop, Ev_conn_create (bs_conn_param bs)] @
           (if create \<noteq> OK then notify_connecting_error bs else notify_connecting bs))"

definition filter_state_check ::
    "scan_cfg \<Rightarrow> cret \<Rightarrow> bt_scan \<Rightarrow> bt_addr_le_t \<Rightarrow> bt_scan_control \<Rightarrow> scan_event list" where
  "filter_state_check cfg create bs a c =
     (if \<not> scan_device_filter_check cfg bs a then []
      else if ctl_all_mode c \<and> ctl_match_cnt c = ctl_filter_cnt c
      then notify_filter_matched (ctl_status c) (ctl_connectable c) bs @ scan_connect_with_target create bs
      else if \<not> ctl_all_mode c \<and> ctl_match c
      then notify_filter_matched (ctl_status c) (ctl_connectable c) bs @ scan_connect_with_target create bs
      else notify_filter_no_match (ctl_connectable c) bs)"

definition scan_recv ::
    "uuid_env \<Rightarrow> scan_cfg \<Rightarrow> cret \<Rightarrow> bt_addr_le_t \<Rightarrow> bool \<Rightarrow> bt_data list \<Rightarrow> bt_scan \<Rightarrow> scan_event list option" where
  "scan_recv ue cfg create a connectable ads bs =
     (let f = bs_filters bs;
          c = \<lparr>ctl_filter_cnt = check_enabled_filters cfg f, ctl_match_cnt = 0, ctl_match = False,
               ctl_all_mode = sf_all_mode f, ctl_connectable = connectable, ctl_status = no_match\<rparr> in do {
        c \<leftarrow> adv_data_parse ue cfg f ads (check_addr cfg f a c);
        Some (filter_state_check cfg create bs a c)
      })"

subsection \<open>Which structures match\<close>

text \<open>
  The reference: a structure matches when its kind of filter is enabled and has a matching
  entry. \<open>None\<close> when comparing it reads outside the received bytes.
\<close>

definition adv_hit :: "uuid_env \<Rightarrow> scan_cfg \<Rightarrow> bt_scan_filters \<Rightarrow> bt_data \<Rightarrow> bool option" where
  "adv_hit ue cfg f d =
     (let uuid = (\<lambda>ty. if is_uuid_filter_enabled cfg f
                   then map_option (\<lambda>l. if sf_all_mode f then length l = length (sf_uuid f) else l \<noteq> [])
                          (uuids_found ue (sf_all_mode f) d ty (sf_uuid f))
                   else Some False) in
      if bd_type d = 0x09 then
        if is_name_filter_enabled cfg f
        then map_option (\<lambda>r. r \<noteq> None)
               (adv_name_compare (bd_data d) (unat (bd_len d)) (take (sf_name_cnt f) (sf_name_arr f)))
        else Some False
      else if bd_type d = 0x08 then
        if is_short_name_filter_enabled cfg f
        then map_option (\<lambda>r. r \<noteq> None)
               (adv_short_name_compare (bd_data d) (bd_len d) (take (sf_short_cnt f) (sf_short_arr f)))
        else Some False
      else if bd_type d = 0x19 then
        if is_appearance_filter_enabled cfg f
        then map_option (\<lambda>r. r \<noteq> None) (adv_appearance_compare (bd_data d) (bd_len d) (sf_appearance f))
        else Some False
      else if bd_type d = 0x02 \<or> bd_type d = 0x03 then uuid BT_UUID_TYPE_16
      else if bd_type d = 0x04 \<or> bd_type d = 0x05 then uuid BT_UUID_TYPE_32
      else if bd_type d = 0x06 \<or> bd_type d = 0x07 then uuid BT_UUID_TYPE_128
      else if bd_type d = 0xFF then
        if is_manufacturer_data_filter_enabled cfg f
        then map_option (\<lambda>data. adv_manufacturer_data_compare f data \<noteq> None)
               (rd_block (bd_data d) 0 (unat (bd_len d)))
        else Some False
      else Some False)"

definition counted :: "bool \<Rightarrow> bt_scan_control \<Rightarrow> bt_scan_control \<Rightarrow> bool" where
  "counted h c c' \<longleftrightarrow>
     ctl_match c' = (ctl_match c \<or> h) \<and> ctl_match_cnt c' = ctl_match_cnt c + (if h then 1 else 0) \<and>
     ctl_filter_cnt c' = ctl_filter_cnt c \<and> ctl_all_mode c' = ctl_all_mode c \<and>
     ctl_connectable c' = ctl_connectable c"

lemma counted_same [simp]: "counted False c c"
  by (simp add: counted_def)

lemma counted_count [simp]: "counted True c (count_match g c)"
  by (simp add: counted_def)

lemma counted_option [simp]:
  "counted (r \<noteq> None) c (case r of None \<Rightarrow> c | Some e \<Rightarrow> count_match (g e) c)"
  by (cases r) simp_all

definition tracks :: "bt_scan_control \<Rightarrow> bt_scan_control option \<Rightarrow> bool option \<Rightarrow> bool" where
  "tracks c r h \<longleftrightarrow> (case h of None \<Rightarrow> r = None | Some b \<Rightarrow> \<exists>c'. r = Some c' \<and> counted b c c')"

lemma tracks_option:
  "tracks c (m \<bind> (\<lambda>r. Some (case r of None \<Rightarrow> c | Some e \<Rightarrow> count_match (g e) c)))
     (map_option (\<lambda>r. r \<noteq> None) m)"
proof (cases m)
  case (Some r)
  then show ?thesis by (cases r) (simp_all add: tracks_def)
qed (simp add: tracks_def)

lemma tracks_idle: "tracks c (Some c) (Some False)"
  by (simp add: tracks_def)

lemma tracks_name: "bd_type d = 0x09 \<Longrightarrow> tracks c (adv_data_found ue cfg f d c) (adv_hit ue cfg f d)"
  by (simp add: adv_data_found_def adv_hit_def Let_def name_check_def tracks_option tracks_idle del: not_None_eq)

lemma tracks_short_name: "bd_type d = 0x08 \<Longrightarrow> tracks c (adv_data_found ue cfg f d c) (adv_hit ue cfg f d)"
  by (simp add: adv_data_found_def adv_hit_def Let_def short_name_check_def tracks_option tracks_idle del: not_None_eq)

lemma tracks_appearance: "bd_type d = 0x19 \<Longrightarrow> tracks c (adv_data_found ue cfg f d c) (adv_hit ue cfg f d)"
  by (simp add: adv_data_found_def adv_hit_def Let_def appearance_check_def tracks_option tracks_idle del: not_None_eq)

lemma tracks_md: "bd_type d = 0xFF \<Longrightarrow> tracks c (adv_data_found ue cfg f d c) (adv_hit ue cfg f d)"
proof (cases "rd_block (bd_data d) 0 (unat (bd_len d))")
  case (Some b)
  assume "bd_type d = 0xFF"
  then show ?thesis
    using Some by (cases "adv_manufacturer_data_compare f b")
      (simp_all add: adv_data_found_def adv_hit_def Let_def manufacturer_data_check_def tracks_def)
qed (simp add: adv_data_found_def adv_hit_def Let_def manufacturer_data_check_def tracks_def)

lemma tracks_uuid:
  "tracks c (uuid_check ue cfg f d ty c)
     (if is_uuid_filter_enabled cfg f
      then map_option (\<lambda>l. if sf_all_mode f then length l = length (sf_uuid f) else l \<noteq> [])
             (uuids_found ue (sf_all_mode f) d ty (sf_uuid f))
      else Some False)"
  by (cases "uuids_found ue (sf_all_mode f) d ty (sf_uuid f)")
     (auto simp: uuid_check_def tracks_def counted_def Let_def)

lemma adv_data_found_tracks: "tracks c (adv_data_found ue cfg f d c) (adv_hit ue cfg f d)"
proof -
  consider "bd_type d = 0x09" | "bd_type d = 0x08" | "bd_type d = 0x19" | "bd_type d = 0xFF"
    | "bd_type d \<in> {2, 3, 4, 5, 6, 7}" | "bd_type d \<notin> {0x09, 0x08, 0x19, 0xFF, 2, 3, 4, 5, 6, 7}"
    by blast
  then show ?thesis
  proof cases
    case 5
    then show ?thesis using tracks_uuid [of c ue cfg f d] by (auto simp: adv_data_found_def adv_hit_def Let_def)
  next
    case 6
    then show ?thesis by (simp add: adv_data_found_def adv_hit_def Let_def tracks_def)
  qed (simp_all add: tracks_name tracks_short_name tracks_appearance tracks_md)
qed

text \<open>A whole advertisement: the hits are counted, one for each matching structure.\<close>

lemma adv_data_parse_hits:
  assumes "list_all2 (\<lambda>d h. adv_hit ue cfg f d = Some h) ds hs"
  shows "\<exists>c'. adv_data_parse ue cfg f ds c = Some c' \<and> ctl_match c' = (ctl_match c \<or> True \<in> set hs) \<and>
    ctl_match_cnt c' = ctl_match_cnt c + of_nat (count_list hs True) \<and>
    ctl_filter_cnt c' = ctl_filter_cnt c \<and> ctl_all_mode c' = ctl_all_mode c \<and>
    ctl_connectable c' = ctl_connectable c"
  using assms
proof (induction ds hs arbitrary: c rule: list_all2_induct)
  case Nil
  then show ?case by simp
next
  case (Cons d ds h hs)
  obtain c1 where c1: "adv_data_found ue cfg f d c = Some c1" "counted h c c1"
    using adv_data_found_tracks [of c ue cfg f d] Cons.hyps(1) by (auto simp: tracks_def)
  obtain c' where c': "adv_data_parse ue cfg f ds c1 = Some c'" "ctl_match c' = (ctl_match c1 \<or> True \<in> set hs)"
    "ctl_match_cnt c' = ctl_match_cnt c1 + of_nat (count_list hs True)" "ctl_filter_cnt c' = ctl_filter_cnt c1"
    "ctl_all_mode c' = ctl_all_mode c1" "ctl_connectable c' = ctl_connectable c1"
    using Cons.IH [of c1] by blast
  show ?case
    using c1 c' by (intro exI [of _ c']) (auto simp: counted_def)
qed

definition addr_hit :: "scan_cfg \<Rightarrow> bt_scan_filters \<Rightarrow> bt_addr_le_t \<Rightarrow> bool" where
  "addr_hit cfg f a \<longleftrightarrow> is_addr_filter_enabled cfg f \<and> a \<in> set (sf_addr f)"

lemma check_addr_counted: "counted (addr_hit cfg f a) c (check_addr cfg f a c)"
  by (auto simp: check_addr_def addr_hit_def list_ex_iff counted_def)

definition reports_match :: "nat \<Rightarrow> scan_event list \<Rightarrow> bool" where
  "reports_match i evs \<longleftrightarrow> (\<exists>m b. Ev_filter_match i m b \<in> set evs)"

definition listens :: "nat \<Rightarrow> bt_scan \<Rightarrow> bool" where
  "listens i bs \<longleftrightarrow> i < length (bs_callbacks bs) \<and> cb_filter_match (bs_callbacks bs ! i)"

lemma callers_set: "i \<in> set (callers has cbs) \<longleftrightarrow> i < length cbs \<and> has (cbs ! i)"
  by (auto simp: callers_def)

lemma callers_once: "distinct (callers has cbs)" "sorted (callers has cbs)"
  by (simp_all add: callers_def sorted_wrt_filter)

lemmas notify_defs =
  notify_filter_matched_def notify_filter_no_match_def notify_connecting_def notify_connecting_error_def

lemma connect_no_report [simp]: "\<not> reports_match i (scan_connect_with_target create bs)"
  by (auto simp: scan_connect_with_target_def reports_match_def notify_defs)

lemma reports_append: "reports_match i (xs @ ys) \<longleftrightarrow> reports_match i xs \<or> reports_match i ys"
  by (auto simp: reports_match_def)

lemma reports_matched: "reports_match i (notify_filter_matched m c bs) \<longleftrightarrow> listens i bs"
  by (auto simp: reports_match_def notify_defs listens_def callers_set image_iff)

lemma reports_no_match: "\<not> reports_match i (notify_filter_no_match c bs)"
  by (auto simp: reports_match_def notify_defs)

lemma filter_state_check_reports:
  "reports_match i (filter_state_check cfg create bs a c) \<longleftrightarrow>
     listens i bs \<and> scan_device_filter_check cfg bs a \<and>
     (if ctl_all_mode c then ctl_match_cnt c = ctl_filter_cnt c else ctl_match c)"
  by (simp add: filter_state_check_def reports_append reports_matched reports_no_match)
     (simp add: reports_match_def)

lemma scan_recv_hits:
  assumes "list_all2 (\<lambda>d h. adv_hit ue cfg (bs_filters bs) d = Some h) ads hs"
  shows "\<exists>evs. scan_recv ue cfg create a conn ads bs = Some evs \<and>
    (\<forall>i. reports_match i evs \<longleftrightarrow> listens i bs \<and> scan_device_filter_check cfg bs a \<and>
      (if sf_all_mode (bs_filters bs)
       then (of_nat (count_list (addr_hit cfg (bs_filters bs) a # hs) True) :: u8) = check_enabled_filters cfg (bs_filters bs)
       else addr_hit cfg (bs_filters bs) a \<or> True \<in> set hs))"
proof -
  let ?f = "bs_filters bs"
  let ?c = "\<lparr>ctl_filter_cnt = check_enabled_filters cfg ?f, ctl_match_cnt = 0, ctl_match = False,
      ctl_all_mode = sf_all_mode ?f, ctl_connectable = conn, ctl_status = no_match\<rparr>"
  obtain c' where c': "adv_data_parse ue cfg ?f ads (check_addr cfg ?f a ?c) = Some c'"
    "ctl_match c' = (ctl_match (check_addr cfg ?f a ?c) \<or> True \<in> set hs)"
    "ctl_match_cnt c' = ctl_match_cnt (check_addr cfg ?f a ?c) + of_nat (count_list hs True)"
    "ctl_filter_cnt c' = ctl_filter_cnt (check_addr cfg ?f a ?c)"
    "ctl_all_mode c' = ctl_all_mode (check_addr cfg ?f a ?c)"
    using adv_data_parse_hits [OF assms, of "check_addr cfg ?f a ?c"] by blast
  have k: "counted (addr_hit cfg ?f a) ?c (check_addr cfg ?f a ?c)" by (rule check_addr_counted)
  have s: "scan_recv ue cfg create a conn ads bs = Some (filter_state_check cfg create bs a c')"
    using c'(1) by (simp add: scan_recv_def Let_def)
  show ?thesis
    unfolding s option.inject ex_simps simp_thms filter_state_check_reports
    using c'(2-5) k by (auto simp: counted_def add.commute)
qed

text \<open>Starting a scan sets its type and nothing that a match depends on.\<close>

lemma scan_recv_start:
  "scan_recv ue cfg create a conn ads (snd (bt_scan_start start ty bs)) = scan_recv ue cfg create a conn ads bs"
proof -
  have "filter_state_check cfg create (snd (bt_scan_start start ty bs)) a c = filter_state_check cfg create bs a c" for c
    by (simp add: bt_scan_start_def filter_state_check_def scan_connect_with_target_def notify_defs
        scan_device_filter_check_def blocklist_device_check_def)
  then show ?thesis by (simp add: scan_recv_def Let_def bt_scan_start_def)
qed

subsection \<open>Names and UUIDs that are cut short\<close>

text \<open>
  A name is compared over the length of the advertised one: every beginning of the wanted name
  matches, the empty name for one.
\<close>

lemma advertised_prefix_matches:
  assumes "n \<le> length (c_string e)" and "0 \<in> set e"
  shows "adv_name_compare (take n e) n (e # es) = Some (Some e)"
proof -
  have "c_strncmp_eq n e (take n e) = Some (take n e = take n (take n e))"
  proof (rule c_strncmp_eq_take)
    have "length (c_string e) < length e" by (rule c_string_length [OF assms(2)])
    then show "n \<le> length e" "n \<le> length (take n e)" using assms(1) by simp_all
    have "take n e = take n (c_string e)" by (rule take_c_string [OF assms(1)])
    then show "0 \<notin> set (take n (take n e))" by (auto simp: c_string_def dest!: in_set_takeD set_takeWhileD)
  qed
  then show ?thesis by simp
qed

text \<open>
  When the length of the structure is not a multiple of the size of a UUID and none of the
  whole ones matches, the last step reads behind the structure.
\<close>

lemma find_uuid_loop_overread:
  assumes "length data = len" and "len mod uuid_len ty \<noteq> 0" and "i mod uuid_len ty = 0" and "i \<le> len"
    and c: "\<And>b. length b = uuid_len ty \<Longrightarrow> \<exists>u. ue_create ue b = Some u \<and> \<not> ue_same ue u target"
  shows "find_uuid_loop ue data len ty target i = None"
  using assms(1-4)
proof (induction "len - i" arbitrary: i rule: less_induct)
  case less
  have pos: "0 < uuid_len ty" by (cases ty) simp_all
  have lt: "i < len" using less.prems by (cases "i = len") auto
  show ?case
  proof (cases "i + uuid_len ty \<le> len")
    case True
    then obtain b where b: "rd_block data i (uuid_len ty) = Some b" "length b = uuid_len ty"
      using less.prems(1) by simp
    from c [OF b(2)] obtain u where u: "ue_create ue b = Some u" "\<not> ue_same ue u target" by blast
    have "len - (i + uuid_len ty) < len - i" using pos lt by linarith
    then have "find_uuid_loop ue data len ty target (i + uuid_len ty) = None"
      using True less.prems by (intro less.hyps) simp_all
    then show ?thesis using lt b(1) u by (simp add: find_uuid_loop.simps [of ue data len ty target i])
  next
    case False
    then show ?thesis
      using lt less.prems(1) by (simp add: find_uuid_loop.simps [of ue data len ty target i])
  qed
qed

lemma cut_uuid_read_behind:
  assumes "length data = unat len" and "unat len mod uuid_len ty \<noteq> 0"
    and "\<And>b. length b = uuid_len ty \<Longrightarrow> \<exists>u. ue_create ue b = Some u \<and> \<not> ue_same ue u target"
  shows "find_uuid ue data len ty target = None"
  unfolding find_uuid_def by (rule find_uuid_loop_overread) (use assms in simp_all)

end
