(* ===== verification/Dm_Procedure.thy ===== *)
theory Dm_Procedure
  imports Gatt_Dm
begin

section \<open>The discovery procedure (\<^verbatim>\<open>nrf_hal/gatt_dm.c\<close>)\<close>

text \<open>
  Discovering a service: the manager asks the Bluetooth stack for the service, for the
  attributes in its handle range and for the values of the characteristic declarations
  among them, and stores what the stack reports. The stack calls
  \<^verbatim>\<open>discovery_callback\<close> with each attribute, and with the null pointer at the end; the
  manager calls the application at the end of a discovery, which is the event in the result.
  A result \<open>None\<close> is a failed assertion or an access through a null pointer.
\<close>

subsection \<open>State\<close>

text \<open>
  \<open>dc_alloc n\<close> tells whether \<^verbatim>\<open>k_calloc\<close> gives memory for a chunk when \<open>n\<close> are in use;
  the sizes are those of the C structures.
\<close>

record dm_cfg =
  dc_max_attrs :: nat
  dc_chunk :: nat
  dc_service_val :: nat
  dc_chrc :: nat
  dc_alloc :: "nat \<Rightarrow> bool"

datatype discover_type =
    BT_GATT_DISCOVER_PRIMARY | BT_GATT_DISCOVER_SECONDARY
  | BT_GATT_DISCOVER_ATTRIBUTE | BT_GATT_DISCOVER_CHARACTERISTIC

record discover_params =
  dp_uuid :: "bt_uuid option"
  dp_start :: u16
  dp_end :: u16
  dp_type :: discover_type

text \<open>\<open>di_callback\<close> tells that a callback structure is set, which \<^verbatim>\<open>bt_gatt_dm_start\<close> does first.\<close>

record dm_inst =
  di_dm :: bt_gatt_dm
  di_locked :: bool
  di_release :: bool
  di_chunks :: nat
  di_chunk_len :: nat
  di_params :: discover_params
  di_callback :: bool
  di_search_uuid :: "bt_uuid option"
  di_work :: bool

text \<open>An attribute as the stack reports it, with the value it points to.\<close>

datatype attr_user = No_user | Service_val bt_uuid u16 | Chrc_val bt_uuid u8

record gatt_attr =
  ga_uuid :: bt_uuid
  ga_handle :: u16
  ga_perm :: u8
  ga_user :: attr_user

datatype dm_event = Dm_completed | Dm_not_found | Dm_error cret

abbreviation (input) di_attrs :: "dm_inst \<Rightarrow> bt_gatt_dm_attr list" where
  "di_attrs di \<equiv> dm_attrs (di_dm di)"

definition upd_attrs :: "(bt_gatt_dm_attr list \<Rightarrow> bt_gatt_dm_attr list) \<Rightarrow> dm_inst \<Rightarrow> dm_inst" where
  "upd_attrs f di = di\<lparr>di_dm := (di_dm di)\<lparr>dm_attrs := f (dm_attrs (di_dm di))\<rparr>\<rparr>"

lemma upd_attrs_sel [simp]:
  "di_attrs (upd_attrs f di) = f (di_attrs di)" "dm_conn (di_dm (upd_attrs f di)) = dm_conn (di_dm di)"
  "di_locked (upd_attrs f di) = di_locked di" "di_release (upd_attrs f di) = di_release di"
  "di_chunks (upd_attrs f di) = di_chunks di" "di_chunk_len (upd_attrs f di) = di_chunk_len di"
  "di_params (upd_attrs f di) = di_params di" "di_work (upd_attrs f di) = di_work di"
  by (simp_all add: upd_attrs_def)

subsection \<open>Memory\<close>

definition round_up4 :: "nat \<Rightarrow> nat" where
  "round_up4 n = (n + 3) div 4 * 4"

definition user_data_alloc :: "dm_cfg \<Rightarrow> nat \<Rightarrow> dm_inst \<Rightarrow> (bool \<times> dm_inst) option" where
  "user_data_alloc cfg n di =
     (let len = round_up4 n in
      if dc_chunk cfg < len then None
      else if di_chunks di = 0 \<or> dc_chunk cfg < di_chunk_len di + len then
        if \<not> dc_alloc cfg (di_chunks di) then Some (False, di)
        else Some (True, di\<lparr>di_chunks := di_chunks di + 1, di_chunk_len := len\<rparr>)
      else Some (True, di\<lparr>di_chunk_len := di_chunk_len di + len\<rparr>))"

definition svc_attr_memory_release :: "dm_inst \<Rightarrow> dm_inst" where
  "svc_attr_memory_release di = (upd_attrs (\<lambda>_. []) di)\<lparr>di_chunks := 0, di_chunk_len := 0\<rparr>"

fun get_uuid_size :: "bt_uuid \<Rightarrow> nat" where
  "get_uuid_size (UUID16 u) = 4"
| "get_uuid_size (UUID32 u) = 8"
| "get_uuid_size (UUID128 u) = 17"

definition attr_store :: "dm_cfg \<Rightarrow> gatt_attr \<Rightarrow> nat \<Rightarrow> dm_inst \<Rightarrow> (nat option \<times> dm_inst) option" where
  "attr_store cfg a additional_len di =
     (if dc_max_attrs cfg \<le> length (di_attrs di) then Some (None, di)
      else do {
        (mem, di) \<leftarrow> user_data_alloc cfg (additional_len + get_uuid_size (ga_uuid a)) di;
        if \<not> mem then Some (None, di)
        else Some (Some (length (di_attrs di)),
          upd_attrs (\<lambda>l. l @ [\<lparr>at_uuid = ga_uuid a, at_handle = ga_handle a, at_perm = ga_perm a,
                               at_val_uuid = None, at_end_handle = 0, at_properties = 0\<rparr>]) di)
      })"

definition uuid_store :: "dm_cfg \<Rightarrow> bt_uuid option \<Rightarrow> dm_inst \<Rightarrow> (bt_uuid option \<times> dm_inst) option" where
  "uuid_store cfg uuid di =
     (case uuid of
        None \<Rightarrow> Some (None, di)
      | Some u \<Rightarrow> do {
          (mem, di) \<leftarrow> user_data_alloc cfg (get_uuid_size u) di;
          Some (if mem then Some u else None, di)
        })"

text \<open>Writing the value in front of the UUID of attribute \<open>i\<close>: the copy of what the stack
  reports, and the pointer to the stored UUID.\<close>

fun with_val :: "attr_user \<Rightarrow> bt_gatt_dm_attr \<Rightarrow> bt_gatt_dm_attr" where
  "with_val No_user t = t"
| "with_val (Service_val u e) t = t\<lparr>at_val_uuid := Some u, at_end_handle := e\<rparr>"
| "with_val (Chrc_val u p) t = t\<lparr>at_val_uuid := Some u, at_properties := p\<rparr>"

definition copy_val :: "nat \<Rightarrow> attr_user \<Rightarrow> dm_inst \<Rightarrow> dm_inst" where
  "copy_val i v = upd_attrs (\<lambda>l. l[i := with_val v (l ! i)])"

definition set_val_uuid :: "nat \<Rightarrow> bt_uuid option \<Rightarrow> dm_inst \<Rightarrow> dm_inst" where
  "set_val_uuid i u = upd_attrs (\<lambda>l. l[i := (l ! i)\<lparr>at_val_uuid := u\<rparr>])"

subsection \<open>The end of a discovery\<close>

type_synonym dm_result = "gatt_iter \<times> dm_event option \<times> dm_inst"

definition discovery_complete :: "dm_inst \<Rightarrow> dm_event \<times> dm_inst" where
  "discovery_complete di = (Dm_completed, di\<lparr>di_release := True\<rparr>)"

definition discovery_complete_not_found :: "dm_inst \<Rightarrow> dm_event \<times> dm_inst" where
  "discovery_complete_not_found di = (Dm_not_found, (svc_attr_memory_release di)\<lparr>di_locked := False\<rparr>)"

definition discovery_complete_error :: "cret \<Rightarrow> dm_inst \<Rightarrow> dm_event \<times> dm_inst" where
  "discovery_complete_error err di = (Dm_error err, (svc_attr_memory_release di)\<lparr>di_locked := False\<rparr>)"

definition stop_with :: "dm_event \<times> dm_inst \<Rightarrow> dm_result" where
  "stop_with r = (BT_GATT_ITER_STOP, Some (fst r), snd r)"

definition bt_gatt_dm_data_release :: "dm_inst \<Rightarrow> cret \<times> dm_inst" where
  "bt_gatt_dm_data_release di =
     (if \<not> di_release di then (Neg EALREADY, di)
      else (OK, (svc_attr_memory_release (di\<lparr>di_release := False, di_work := False\<rparr>))\<lparr>di_locked := False\<rparr>))"

subsection \<open>What the stack reports\<close>

definition discovery_process_service :: "dm_cfg \<Rightarrow> gatt_attr option \<Rightarrow> dm_inst \<Rightarrow> dm_result option" where
  "discovery_process_service cfg attr di =
     (case attr of
        None \<Rightarrow> Some (stop_with (discovery_complete_not_found di))
      | Some a \<Rightarrow>
     (case ga_user a of
        Service_val u end_handle \<Rightarrow> do {
          (cur, di) \<leftarrow> attr_store cfg a (dc_service_val cfg) di;
          if ga_uuid a \<noteq> BT_UUID_GATT_PRIMARY \<and> ga_uuid a \<noteq> BT_UUID_GATT_SECONDARY then None
          else case cur of
            None \<Rightarrow> Some (stop_with (discovery_complete_error (Neg ENOMEM) di))
          | Some i \<Rightarrow> do {
              (stored, di) \<leftarrow> uuid_store cfg (Some u) (copy_val i (ga_user a) di);
              let di = set_val_uuid i stored di;
              if stored = None then Some (stop_with (discovery_complete_error (Neg ENOMEM) di))
              else
                let di = di\<lparr>di_params := (di_params di)\<lparr>dp_end := end_handle\<rparr>\<rparr> in
                if ga_handle a = end_handle then Some (stop_with (discovery_complete di))
                else Some (BT_GATT_ITER_STOP, None,
                  di\<lparr>di_params := (di_params di)\<lparr>dp_uuid := None, dp_type := BT_GATT_DISCOVER_ATTRIBUTE,
                                                  dp_start := ga_handle a + 1\<rparr>,
                     di_work := True\<rparr>)
            }
        }
      | _ \<Rightarrow> None))"

definition discovery_process_attribute :: "dm_cfg \<Rightarrow> gatt_attr option \<Rightarrow> dm_inst \<Rightarrow> dm_result option" where
  "discovery_process_attribute cfg attr di =
     (case attr of
        None \<Rightarrow>
          if 1 < length (di_attrs di)
          then Some (BT_GATT_ITER_STOP, None,
            di\<lparr>di_params := (di_params di)\<lparr>dp_start := at_handle (di_attrs di ! 0) + 1,
                                            dp_type := BT_GATT_DISCOVER_CHARACTERISTIC\<rparr>,
               di_work := True\<rparr>)
          else Some (stop_with (discovery_complete di))
      | Some a \<Rightarrow>
          if ga_uuid a = BT_UUID_GATT_CHRC then do {
            (cur, di) \<leftarrow> attr_store cfg a (dc_chrc cfg) di;
            i \<leftarrow> cur;
            Some (BT_GATT_ITER_CONTINUE, None, set_val_uuid i (Some (ga_uuid a)) di)
          }
          else do {
            (cur, di) \<leftarrow> attr_store cfg a 0 di;
            if cur = None then Some (stop_with (discovery_complete_error (Neg ENOMEM) di))
            else Some (BT_GATT_ITER_CONTINUE, None, di)
          })"

definition discovery_process_characteristic :: "dm_cfg \<Rightarrow> gatt_attr option \<Rightarrow> dm_inst \<Rightarrow> dm_result option" where
  "discovery_process_characteristic cfg attr di =
     (case attr of
        None \<Rightarrow> Some (stop_with (discovery_complete di))
      | Some a \<Rightarrow>
          if ga_uuid a \<noteq> BT_UUID_GATT_CHRC then None
          else case attr_find_by_handle (di_dm di) (ga_handle a) of
            None \<Rightarrow> Some (stop_with (discovery_complete_error (Neg ESRCH) di))
          | Some i \<Rightarrow>
         (case ga_user a of
            Chrc_val u p \<Rightarrow>
              if at_uuid (di_attrs di ! i) \<noteq> BT_UUID_GATT_CHRC then None
              else do {
                (stored, di) \<leftarrow> uuid_store cfg (Some u) (copy_val i (ga_user a) di);
                let di = set_val_uuid i stored di;
                if stored = None then Some (stop_with (discovery_complete_error (Neg ENOMEM) di))
                else Some (BT_GATT_ITER_CONTINUE, None, di)
              }
          | _ \<Rightarrow> None))"

definition discovery_callback ::
    "dm_cfg \<Rightarrow> nat option \<Rightarrow> gatt_attr option \<Rightarrow> dm_inst \<Rightarrow> dm_result option" where
  "discovery_callback cfg conn attr di =
     (if conn \<noteq> dm_conn (di_dm di) then Some (stop_with (discovery_complete_error (Neg EFAULT) di))
      else case dp_type (di_params di) of
        BT_GATT_DISCOVER_PRIMARY \<Rightarrow> discovery_process_service cfg attr di
      | BT_GATT_DISCOVER_SECONDARY \<Rightarrow> discovery_process_service cfg attr di
      | BT_GATT_DISCOVER_ATTRIBUTE \<Rightarrow> discovery_process_attribute cfg attr di
      | BT_GATT_DISCOVER_CHARACTERISTIC \<Rightarrow> discovery_process_characteristic cfg attr di)"

subsection \<open>Requests to the stack\<close>

text \<open>\<open>discover\<close> is the answer of \<^verbatim>\<open>bt_gatt_discover\<close>.\<close>

definition gatt_discover_work :: "cret \<Rightarrow> dm_inst \<Rightarrow> dm_event option \<times> dm_inst" where
  "gatt_discover_work discover di =
     (let di = di\<lparr>di_work := False\<rparr> in
      if \<not> di_locked di then (None, di)
      else if discover \<noteq> OK
      then (let r = discovery_complete_error (Neg ENOMEM) di in (Some (fst r), snd r))
      else (None, di))"

definition bt_gatt_dm_start ::
    "cret \<Rightarrow> nat option \<Rightarrow> bt_uuid option \<Rightarrow> bool \<Rightarrow> dm_inst \<Rightarrow> cret \<times> dm_inst" where
  "bt_gatt_dm_start discover conn svc_uuid cb di =
     (if (case svc_uuid of Some (UUID32 u) \<Rightarrow> True | _ \<Rightarrow> False) then (Neg EINVAL, di)
      else if \<not> cb then (Neg EINVAL, di)
      else if di_locked di then (Neg EALREADY, di)
      else
        let di = di\<lparr>di_locked := True, di_dm := \<lparr>dm_conn = conn, dm_attrs = []\<rparr>, di_callback := True,
                    di_chunks := 0, di_chunk_len := 0, di_search_uuid := svc_uuid,
                    di_params := \<lparr>dp_uuid = svc_uuid, dp_start = 1, dp_end = 0xffff,
                                  dp_type = BT_GATT_DISCOVER_PRIMARY\<rparr>, di_work := False\<rparr> in
        if discover \<noteq> OK then (discover, di\<lparr>di_locked := False\<rparr>) else (discover, di))"

definition bt_gatt_dm_continue :: "cret \<Rightarrow> dm_inst \<Rightarrow> cret \<times> dm_event option \<times> dm_inst" where
  "bt_gatt_dm_continue discover di =
     (if \<not> di_callback di then (Neg EINVAL, None, di)
      else if dp_uuid (di_params di) \<noteq> None then (Neg EINVAL, None, di)
      else if di_locked di then (Neg EALREADY, None, di)
      else
        let di = di\<lparr>di_locked := True\<rparr> in
        if dp_end (di_params di) = 0xffff
        then (let r = discovery_complete_not_found di in (OK, Some (fst r), snd r))
        else
          let di = di\<lparr>di_params := \<lparr>dp_uuid = di_search_uuid di, dp_start = dp_end (di_params di) + 1,
                                    dp_end = 0xffff, dp_type = BT_GATT_DISCOVER_PRIMARY\<rparr>\<rparr> in
          if discover \<noteq> OK
          then (let r = discovery_complete_error discover (di\<lparr>di_locked := False\<rparr>) in (discover, Some (fst r), snd r))
          else (discover, None, di))"

subsection \<open>Memory that suffices\<close>

definition mem_ok :: "dm_cfg \<Rightarrow> bool" where
  "mem_ok cfg \<longleftrightarrow> (\<forall>n. dc_alloc cfg n) \<and> round_up4 (max (dc_service_val cfg) (dc_chrc cfg) + 17) \<le> dc_chunk cfg"

lemma round_up4_mono: "m \<le> n \<Longrightarrow> round_up4 m \<le> round_up4 n"
  by (simp add: round_up4_def div_le_mono)

lemma round_up4_ge: "n \<le> round_up4 n"
  unfolding round_up4_def by presburger

lemma uuid_size_le: "get_uuid_size u \<le> 17"
  by (cases u) simp_all

lemma alloc_ok_succeeds:
  assumes "mem_ok cfg" and "n \<le> max (dc_service_val cfg) (dc_chrc cfg) + 17"
  shows "\<exists>c l. user_data_alloc cfg n di = Some (True, di\<lparr>di_chunks := c, di_chunk_len := l\<rparr>)"
proof -
  have n: "round_up4 n \<le> dc_chunk cfg"
    using assms round_up4_mono [OF assms(2)] by (simp add: mem_ok_def)
  have m: "dc_alloc cfg (di_chunks di)" using assms(1) by (simp add: mem_ok_def)
  show ?thesis
  proof (cases "di_chunks di = 0 \<or> dc_chunk cfg < di_chunk_len di + round_up4 n")
    case True
    then show ?thesis using n m
      by (intro exI [of _ "di_chunks di + 1"] exI [of _ "round_up4 n"]) (simp add: user_data_alloc_def Let_def)
  next
    case False
    then show ?thesis using n
      by (intro exI [of _ "di_chunks di"] exI [of _ "di_chunk_len di + round_up4 n"])
         (simp add: user_data_alloc_def Let_def)
  qed
qed

definition raw_attr :: "gatt_attr \<Rightarrow> bt_gatt_dm_attr" where
  "raw_attr a = \<lparr>at_uuid = ga_uuid a, at_handle = ga_handle a, at_perm = ga_perm a, at_val_uuid = None,
     at_end_handle = 0, at_properties = 0\<rparr>"

text \<open>The manager with other attributes and memory.\<close>

definition with_attrs :: "bt_gatt_dm_attr list \<Rightarrow> nat \<Rightarrow> nat \<Rightarrow> dm_inst \<Rightarrow> dm_inst" where
  "with_attrs l c n di = (upd_attrs (\<lambda>_. l) di)\<lparr>di_chunks := c, di_chunk_len := n\<rparr>"

lemma with_attrs_sel [simp]:
  "di_attrs (with_attrs l c n di) = l" "dm_conn (di_dm (with_attrs l c n di)) = dm_conn (di_dm di)"
  "di_params (with_attrs l c n di) = di_params di" "di_locked (with_attrs l c n di) = di_locked di"
  "di_release (with_attrs l c n di) = di_release di" "di_work (with_attrs l c n di) = di_work di"
  by (simp_all add: with_attrs_def)

lemma with_attrs_twice [simp]: "with_attrs l c n (with_attrs l' c' n' di) = with_attrs l c n di"
  by (simp add: with_attrs_def upd_attrs_def)

lemma with_attrs_mem [simp]:
  "upd_attrs f (di\<lparr>di_chunks := c, di_chunk_len := n\<rparr>) = with_attrs (f (di_attrs di)) c n di"
  by (simp add: with_attrs_def upd_attrs_def)

lemma set_val_with [simp]:
  "set_val_uuid i u (with_attrs l c n di) = with_attrs (l[i := (l ! i)\<lparr>at_val_uuid := u\<rparr>]) c n di"
  by (simp add: set_val_uuid_def with_attrs_def upd_attrs_def)

lemma copy_val_with [simp]:
  "copy_val i v (with_attrs l c n di) = with_attrs (l[i := with_val v (l ! i)]) c n di"
  "with_attrs l c n (copy_val i v di) = with_attrs l c n di"
  by (simp_all add: copy_val_def with_attrs_def upd_attrs_def)

lemma copy_val_sel [simp]:
  "di_attrs (copy_val i v di) = (di_attrs di)[i := with_val v (di_attrs di ! i)]"
  "di_params (copy_val i v di) = di_params di"
  by (simp_all add: copy_val_def)

lemma mem_with: "di\<lparr>di_chunks := c, di_chunk_len := n\<rparr> = with_attrs (di_attrs di) c n di"
  by (simp add: with_attrs_def upd_attrs_def)

lemma attr_store_succeeds:
  assumes "mem_ok cfg" and "add \<le> max (dc_service_val cfg) (dc_chrc cfg)" and "length (di_attrs di) < dc_max_attrs cfg"
  shows "\<exists>c n. attr_store cfg a add di =
    Some (Some (length (di_attrs di)), with_attrs (di_attrs di @ [raw_attr a]) c n di)"
proof -
  have "add + get_uuid_size (ga_uuid a) \<le> max (dc_service_val cfg) (dc_chrc cfg) + 17"
    using assms(2) uuid_size_le [of "ga_uuid a"] by linarith
  from alloc_ok_succeeds [OF assms(1) this, of di]
  obtain c l where "user_data_alloc cfg (add + get_uuid_size (ga_uuid a)) di =
      Some (True, di\<lparr>di_chunks := c, di_chunk_len := l\<rparr>)" by blast
  then show ?thesis
    using assms(3) by (intro exI [of _ c] exI [of _ l]) (simp add: attr_store_def raw_attr_def)
qed

lemma uuid_store_succeeds:
  assumes "mem_ok cfg"
  shows "\<exists>c n. uuid_store cfg (Some u) di = Some (Some u, with_attrs (di_attrs di) c n di)"
proof -
  have "get_uuid_size u \<le> max (dc_service_val cfg) (dc_chrc cfg) + 17"
    using uuid_size_le [of u] by linarith
  from alloc_ok_succeeds [OF assms this, of di]
  obtain c l where "user_data_alloc cfg (get_uuid_size u) di =
      Some (True, di\<lparr>di_chunks := c, di_chunk_len := l\<rparr>)" by blast
  then show ?thesis by (intro exI [of _ c] exI [of _ l]) (simp add: uuid_store_def mem_with)
qed

subsection \<open>Discovering one service\<close>

text \<open>
  The stack's side, as documented for \<^verbatim>\<open>bt_gatt_discover\<close>: it reports what it finds in the
  handle range, in order, and then the null pointer; a service search by UUID reports the
  service. \<open>feed\<close> delivers reports until the callback stops.
\<close>

definition in_range :: "discover_params \<Rightarrow> gatt_attr \<Rightarrow> bool" where
  "in_range p a \<longleftrightarrow> dp_start p \<le> ga_handle a \<and> ga_handle a \<le> dp_end p"

definition service_with :: "bt_uuid option \<Rightarrow> gatt_attr \<Rightarrow> bool" where
  "service_with u a \<longleftrightarrow> ga_uuid a = BT_UUID_GATT_PRIMARY \<and>
     (case ga_user a of Service_val v e \<Rightarrow> u = None \<or> u = Some v | _ \<Rightarrow> False)"

definition stack_reports :: "gatt_attr list \<Rightarrow> discover_params \<Rightarrow> gatt_attr option list" where
  "stack_reports srv p =
     (case dp_type p of
        BT_GATT_DISCOVER_PRIMARY \<Rightarrow> map Some (filter (\<lambda>a. in_range p a \<and> service_with (dp_uuid p) a) srv)
      | BT_GATT_DISCOVER_SECONDARY \<Rightarrow> []
      | BT_GATT_DISCOVER_ATTRIBUTE \<Rightarrow> map (\<lambda>a. Some (a\<lparr>ga_user := No_user\<rparr>)) (filter (in_range p) srv)
      | BT_GATT_DISCOVER_CHARACTERISTIC \<Rightarrow>
          map Some (filter (\<lambda>a. in_range p a \<and> ga_uuid a = BT_UUID_GATT_CHRC) srv)) @ [None]"

fun feed :: "dm_cfg \<Rightarrow> nat option \<Rightarrow> gatt_attr option list \<Rightarrow> dm_inst \<Rightarrow> (dm_event option \<times> dm_inst) option" where
  "feed cfg conn [] di = Some (None, di)"
| "feed cfg conn (r # rs) di = do {
     (it, ev, di) \<leftarrow> discovery_callback cfg conn r di;
     if it = BT_GATT_ITER_STOP then Some (ev, di) else feed cfg conn rs di
   }"

text \<open>The rounds of a discovery; each but the first starts with the work item of the last.\<close>

fun discover_rounds ::
    "dm_cfg \<Rightarrow> nat option \<Rightarrow> gatt_attr list \<Rightarrow> nat \<Rightarrow> dm_inst \<Rightarrow> (dm_event option \<times> dm_inst) option" where
  "discover_rounds cfg conn srv 0 di = Some (None, di)"
| "discover_rounds cfg conn srv (Suc k) di = do {
     (ev, di) \<leftarrow> feed cfg conn (stack_reports srv (di_params di)) di;
     if ev \<noteq> None \<or> \<not> di_work di then Some (ev, di)
     else discover_rounds cfg conn srv k (snd (gatt_discover_work OK di))
   }"

text \<open>What the manager makes of an attribute, before and after it knows its value.\<close>

definition found_attr :: "gatt_attr \<Rightarrow> bt_gatt_dm_attr" where
  "found_attr a = (raw_attr a)\<lparr>at_val_uuid := if ga_uuid a = BT_UUID_GATT_CHRC then Some (ga_uuid a) else None\<rparr>"

definition stored_attr :: "gatt_attr \<Rightarrow> bt_gatt_dm_attr" where
  "stored_attr a = with_val (ga_user a) (raw_attr a)"

lemma with_val_sel [simp]: "at_uuid (with_val v t) = at_uuid t" "at_handle (with_val v t) = at_handle t"
  by (cases v; simp)+

lemma attr_sel [simp]:
  "at_uuid (raw_attr a) = ga_uuid a" "at_handle (raw_attr a) = ga_handle a"
  "at_uuid (found_attr a) = ga_uuid a" "at_handle (found_attr a) = ga_handle a"
  "at_uuid (stored_attr a) = ga_uuid a" "at_handle (stored_attr a) = ga_handle a"
  by (simp_all add: raw_attr_def found_attr_def stored_attr_def)

lemma found_no_user [simp]: "found_attr (a\<lparr>ga_user := u\<rparr>) = found_attr a"
  by (simp add: found_attr_def raw_attr_def)

lemma process_attribute_some:
  assumes "mem_ok cfg" and "length (di_attrs di) < dc_max_attrs cfg"
  shows "\<exists>c n. discovery_process_attribute cfg (Some a) di =
    Some (BT_GATT_ITER_CONTINUE, None, with_attrs (di_attrs di @ [found_attr a]) c n di)"
proof (cases "ga_uuid a = BT_UUID_GATT_CHRC")
  case True
  obtain c n where "attr_store cfg a (dc_chrc cfg) di =
      Some (Some (length (di_attrs di)), with_attrs (di_attrs di @ [raw_attr a]) c n di)"
    using attr_store_succeeds [OF assms(1) _ assms(2), of "dc_chrc cfg" a] by auto
  then show ?thesis using True by (auto simp: discovery_process_attribute_def found_attr_def)
next
  case False
  obtain c n where "attr_store cfg a 0 di =
      Some (Some (length (di_attrs di)), with_attrs (di_attrs di @ [raw_attr a]) c n di)"
    using attr_store_succeeds [OF assms(1) _ assms(2), of 0 a] by auto
  moreover have "found_attr a = raw_attr a" using False by (simp add: found_attr_def raw_attr_def)
  ultimately show ?thesis using False by (auto simp: discovery_process_attribute_def)
qed

lemma feed_attributes:
  assumes "mem_ok cfg" and "dp_type (di_params di) = BT_GATT_DISCOVER_ATTRIBUTE" and "conn = dm_conn (di_dm di)"
    and "length (di_attrs di) + length body \<le> dc_max_attrs cfg"
  shows "\<exists>c n. feed cfg conn (map (\<lambda>a. Some (a\<lparr>ga_user := No_user\<rparr>)) body @ rs) di =
    feed cfg conn rs (if body = [] then di else with_attrs (di_attrs di @ map found_attr body) c n di)"
  using assms(2-4)
proof (induction body arbitrary: di)
  case Nil
  then show ?case by simp
next
  case (Cons a body)
  obtain c n where a: "discovery_process_attribute cfg (Some (a\<lparr>ga_user := No_user\<rparr>)) di =
      Some (BT_GATT_ITER_CONTINUE, None, with_attrs (di_attrs di @ [found_attr a]) c n di)"
    using process_attribute_some [OF assms(1), of di "a\<lparr>ga_user := No_user\<rparr>"] Cons.prems(3) by auto
  let ?di = "with_attrs (di_attrs di @ [found_attr a]) c n di"
  obtain c' n' where ih: "feed cfg conn (map (\<lambda>a. Some (a\<lparr>ga_user := No_user\<rparr>)) body @ rs) ?di =
      feed cfg conn rs (if body = [] then ?di else with_attrs (di_attrs ?di @ map found_attr body) c' n' ?di)"
    using Cons.IH [of ?di] Cons.prems by auto
  show ?case
  proof (cases "body = []")
    case True
    then show ?thesis
      using a Cons.prems by (intro exI [of _ c] exI [of _ n]) (simp add: discovery_callback_def)
  next
    case False
    then show ?thesis
      using a ih Cons.prems by (intro exI [of _ c'] exI [of _ n']) (simp add: discovery_callback_def)
  qed
qed

text \<open>The values of the declarations: \<open>pre\<close> is done, \<open>post\<close> is to come.\<close>

lemma process_characteristic_some:
  assumes "mem_ok cfg" and s: "handles_sorted (di_attrs di)" and i: "i < length (di_attrs di)"
    and a: "ga_uuid a = BT_UUID_GATT_CHRC" "ga_user a = Chrc_val u p" "di_attrs di ! i = found_attr a"
  shows "\<exists>c n. discovery_process_characteristic cfg (Some a) di =
    Some (BT_GATT_ITER_CONTINUE, None, with_attrs ((di_attrs di)[i := stored_attr a]) c n di)"
proof -
  have f: "attr_find_by_handle (di_dm di) (ga_handle a) = Some i"
    using i a(3) by (simp add: find_by_handle_iff [OF s])
  let ?di = "copy_val i (ga_user a) di"
  obtain c n where c: "uuid_store cfg (Some u) ?di = Some (Some u, with_attrs (di_attrs ?di) c n ?di)"
    using uuid_store_succeeds [OF assms(1)] by blast
  have "(with_val (ga_user a) (found_attr a))\<lparr>at_val_uuid := Some u\<rparr> = stored_attr a"
    using a(2) by (simp add: found_attr_def stored_attr_def)
  then have "discovery_process_characteristic cfg (Some a) di =
    Some (BT_GATT_ITER_CONTINUE, None, with_attrs ((di_attrs di)[i := stored_attr a]) c n di)"
    using f c a i by (simp add: discovery_process_characteristic_def)
  then show ?thesis by blast
qed

definition values_ok :: "gatt_attr list \<Rightarrow> bool" where
  "values_ok body \<longleftrightarrow> (\<forall>a \<in> set body.
     if ga_uuid a = BT_UUID_GATT_CHRC then \<exists>u p. ga_user a = Chrc_val u p else ga_user a = No_user)"

lemma stored_found: "values_ok [a] \<Longrightarrow> ga_uuid a \<noteq> BT_UUID_GATT_CHRC \<Longrightarrow> stored_attr a = found_attr a"
  by (simp add: values_ok_def stored_attr_def found_attr_def raw_attr_def)

lemma handles_sorted_map:
  "(\<And>a. a \<in> set l \<Longrightarrow> at_handle (f a) = ga_handle a) \<Longrightarrow>
   handles_sorted (map f l) \<longleftrightarrow> sorted_wrt (<) (map ga_handle l)"
  by (auto simp: handles_sorted_def sorted_wrt_iff_nth_less)

lemma feed_characteristics:
  assumes "mem_ok cfg" and "dp_type (di_params di) = BT_GATT_DISCOVER_CHARACTERISTIC" and "conn = dm_conn (di_dm di)"
    and "di_attrs di = map stored_attr pre @ map found_attr post" and "sorted_wrt (<) (map ga_handle (pre @ post))"
    and "values_ok post"
  shows "\<exists>c n. feed cfg conn (map Some (filter (\<lambda>a. ga_uuid a = BT_UUID_GATT_CHRC) post) @ [None]) di =
    Some (Some Dm_completed, (with_attrs (map stored_attr (pre @ post)) c n di)\<lparr>di_release := True\<rparr>)"
  using assms(2-6)
proof (induction post arbitrary: pre di)
  case Nil
  then have "with_attrs (map stored_attr pre) (di_chunks di) (di_chunk_len di) di = di"
    by (simp add: with_attrs_def upd_attrs_def flip: Nil.prems(3))
  then show ?case
    using Nil.prems
    by (intro exI [of _ "di_chunks di"] exI [of _ "di_chunk_len di"])
       (simp add: discovery_callback_def discovery_process_characteristic_def stop_with_def discovery_complete_def)
next
  case (Cons a post)
  have s: "handles_sorted (di_attrs di)"
    using Cons.prems(4) unfolding Cons.prems(3) by (auto simp: handles_sorted_def sorted_wrt_append sorted_wrt_map)
  have v: "values_ok [a]" "values_ok post" using Cons.prems(5) by (simp_all add: values_ok_def)
  show ?case
  proof (cases "ga_uuid a = BT_UUID_GATT_CHRC")
    case False
    have "di_attrs di = map stored_attr (pre @ [a]) @ map found_attr post"
      using Cons.prems(3) stored_found [OF v(1) False] by simp
    from Cons.IH [OF Cons.prems(1,2) this _ v(2)] Cons.prems(4) False show ?thesis by simp
  next
    case True
    then obtain u p where u: "ga_user a = Chrc_val u p" using v(1) by (auto simp: values_ok_def)
    obtain c n where c: "discovery_process_characteristic cfg (Some a) di =
        Some (BT_GATT_ITER_CONTINUE, None, with_attrs ((di_attrs di)[length pre := stored_attr a]) c n di)"
      using process_characteristic_some [OF assms(1) s _ True u, of "length pre"]
      by (auto simp: Cons.prems(3) nth_append)
    let ?di = "with_attrs ((di_attrs di)[length pre := stored_attr a]) c n di"
    have l: "di_attrs ?di = map stored_attr (pre @ [a]) @ map found_attr post"
      by (simp add: Cons.prems(3) list_update_append)
    obtain c' n' where "feed cfg conn (map Some (filter (\<lambda>a. ga_uuid a = BT_UUID_GATT_CHRC) post) @ [None]) ?di =
        Some (Some Dm_completed, (with_attrs (map stored_attr ((pre @ [a]) @ post)) c' n' ?di)\<lparr>di_release := True\<rparr>)"
      using Cons.IH [of ?di "pre @ [a]"] Cons.prems(1,2,4) l v(2) by auto
    then show ?thesis
      using c True Cons.prems(1,2) by (intro exI [of _ c'] exI [of _ n']) (simp add: discovery_callback_def)
  qed
qed

text \<open>The three rounds.\<close>

definition service_body :: "gatt_attr list \<Rightarrow> u16 \<Rightarrow> u16 \<Rightarrow> gatt_attr list" where
  "service_body srv h e = filter (\<lambda>a. h < ga_handle a \<and> ga_handle a \<le> e) srv"

lemma word16_le_max: "(x :: u16) \<le> 0xffff"
proof -
  have "unat x < 65536" by simp
  then have "unat x \<le> 65535" by linarith
  then show ?thesis by (simp add: word_le_nat_alt)
qed

lemma succ_le_word:
  assumes "(h :: u16) < e"
  shows "h + 1 \<le> x \<longleftrightarrow> h < x"
proof -
  have "unat h < unat e" "unat e < 65536" using assms by (simp_all add: word_less_nat_alt)
  then have "unat h + 1 < 65536" by linarith
  then have "unat (h + 1) = unat h + 1" by (simp add: unat_word_ariths)
  then show ?thesis by (simp add: word_le_nat_alt word_less_nat_alt Suc_le_eq)
qed

lemma process_service_some:
  assumes "mem_ok cfg" and "di_attrs di = []" and "0 < dc_max_attrs cfg"
    and a: "ga_uuid a = BT_UUID_GATT_PRIMARY" "ga_user a = Service_val u e"
  shows "\<exists>c n. discovery_process_service cfg (Some a) di = Some (
    if ga_handle a = e
    then (BT_GATT_ITER_STOP, Some Dm_completed,
      (with_attrs [stored_attr a] c n di)\<lparr>di_params := (di_params di)\<lparr>dp_end := e\<rparr>, di_release := True\<rparr>)
    else (BT_GATT_ITER_STOP, None,
      (with_attrs [stored_attr a] c n di)
        \<lparr>di_params := \<lparr>dp_uuid = None, dp_start = ga_handle a + 1, dp_end = e, dp_type = BT_GATT_DISCOVER_ATTRIBUTE\<rparr>,
         di_work := True\<rparr>))"
proof -
  obtain c n where s: "attr_store cfg a (dc_service_val cfg) di = Some (Some 0, with_attrs [raw_attr a] c n di)"
    using attr_store_succeeds [OF assms(1), of "dc_service_val cfg" di a] assms(2,3) by auto
  obtain c' n' where v: "uuid_store cfg (Some u) (with_attrs [stored_attr a] c n di) =
      Some (Some u, with_attrs [stored_attr a] c' n' di)"
    using uuid_store_succeeds [OF assms(1), of u "with_attrs [stored_attr a] c n di"] by auto
  have w: "copy_val 0 (ga_user a) (with_attrs [raw_attr a] c n di) = with_attrs [stored_attr a] c n di"
    by (simp add: stored_attr_def)
  have st: "(stored_attr a)\<lparr>at_val_uuid := Some u\<rparr> = stored_attr a" using a(2) by (simp add: stored_attr_def)
  show ?thesis
    using s v a st w
    by (intro exI [of _ c'] exI [of _ n'])
       (simp add: discovery_process_service_def stop_with_def discovery_complete_def Let_def)
qed

lemma service_sorted:
  assumes "sorted_wrt (<) (map ga_handle srv)"
  shows "sorted_wrt (<) (map ga_handle (svc # service_body srv (ga_handle svc) e))"
  using sorted_wrt_filter [of "\<lambda>a b. ga_handle a < ga_handle b" srv] assms
  by (auto simp: service_body_def sorted_wrt_map)

lemma attribute_round:
  assumes m: "mem_ok cfg" and p: "di_params di = \<lparr>dp_uuid = None, dp_start = h + 1, dp_end = e, dp_type = BT_GATT_DISCOVER_ATTRIBUTE\<rparr>"
    and l: "di_attrs di = [stored_attr svc]" "h = ga_handle svc" and h: "h < e" and conn: "conn = dm_conn (di_dm di)"
    and sz: "Suc (length (service_body srv h e)) \<le> dc_max_attrs cfg"
  shows "\<exists>c n. feed cfg conn (stack_reports srv (di_params di)) di = Some (
    if service_body srv h e = [] then (Some Dm_completed, di\<lparr>di_release := True\<rparr>)
    else (None, (with_attrs (stored_attr svc # map found_attr (service_body srv h e)) c n di)
      \<lparr>di_params := (di_params di)\<lparr>dp_start := h + 1, dp_type := BT_GATT_DISCOVER_CHARACTERISTIC\<rparr>, di_work := True\<rparr>))"
proof -
  let ?b = "service_body srv h e"
  have r: "stack_reports srv (di_params di) = map (\<lambda>a. Some (a\<lparr>ga_user := No_user\<rparr>)) ?b @ [None]"
    by (simp add: stack_reports_def p in_range_def [abs_def] succ_le_word [OF h] service_body_def)
  obtain c n where f: "feed cfg conn (stack_reports srv (di_params di)) di =
      feed cfg conn [None] (if ?b = [] then di else with_attrs (di_attrs di @ map found_attr ?b) c n di)"
    using feed_attributes [OF m _ conn, of ?b "[None]"] l sz unfolding r by (auto simp: p)
  show ?thesis
    unfolding f using conn p l
    by (intro exI [of _ c] exI [of _ n])
       (simp add: discovery_callback_def discovery_process_attribute_def stop_with_def discovery_complete_def)
qed

lemma characteristic_round:
  assumes m: "mem_ok cfg" and p: "di_params di = \<lparr>dp_uuid = None, dp_start = h + 1, dp_end = e, dp_type = BT_GATT_DISCOVER_CHARACTERISTIC\<rparr>"
    and l: "di_attrs di = stored_attr svc # map found_attr (service_body srv h e)" "h = ga_handle svc"
    and h: "h < e" and conn: "conn = dm_conn (di_dm di)"
    and srv: "sorted_wrt (<) (map ga_handle srv)" "values_ok (service_body srv h e)"
  shows "\<exists>c n. feed cfg conn (stack_reports srv (di_params di)) di =
    Some (Some Dm_completed, (with_attrs (map stored_attr (svc # service_body srv h e)) c n di)\<lparr>di_release := True\<rparr>)"
proof -
  let ?b = "service_body srv h e"
  have r: "stack_reports srv (di_params di) = map Some (filter (\<lambda>a. ga_uuid a = BT_UUID_GATT_CHRC) ?b) @ [None]"
    by (simp add: stack_reports_def p in_range_def succ_le_word [OF h] service_body_def conj_ac)
  show ?thesis
    unfolding r
    using feed_characteristics [OF m _ conn, of "[svc]" ?b] p l service_sorted [OF srv(1), of svc e] srv(2) by simp
qed

lemma discovery_collects:
  assumes m: "mem_ok cfg" and st: "bt_gatt_dm_start OK conn (Some u) True di0 = (OK, di)"
    and srv: "sorted_wrt (<) (map ga_handle srv)" "\<forall>a \<in> set srv. 0 < ga_handle a"
    and svc: "filter (service_with (Some u)) srv = svc # others" "ga_user svc = Service_val u e" "ga_handle svc \<le> e"
    and body: "values_ok (service_body srv (ga_handle svc) e)"
      "Suc (length (service_body srv (ga_handle svc) e)) \<le> dc_max_attrs cfg"
  shows "\<exists>di'. discover_rounds cfg conn srv 3 di = Some (Some Dm_completed, di') \<and>
    di_attrs di' = map stored_attr (svc # service_body srv (ga_handle svc) e) \<and>
    dm_conn (di_dm di') = conn \<and> di_locked di' \<and> di_release di'"
proof -
  let ?h = "ga_handle svc"
  let ?b = "service_body srv ?h e"
  have di: "di_attrs di = []" "dm_conn (di_dm di) = conn" "di_locked di" "\<not> di_work di"
    "di_params di = \<lparr>dp_uuid = Some u, dp_start = 1, dp_end = 0xffff, dp_type = BT_GATT_DISCOVER_PRIMARY\<rparr>"
    using st by (auto simp: bt_gatt_dm_start_def Let_def split: if_split_asm)
  have in1: "in_range (di_params di) a" if "a \<in> set srv" for a
    using srv(2) that inc_le [of 0 "ga_handle a"] word16_le_max [of "ga_handle a"] by (auto simp: in_range_def di)
  have st0: "discover_rounds cfg conn srv 3 di = (feed cfg conn (stack_reports srv (di_params di)) di \<bind>
      (\<lambda>(ev, di). if ev \<noteq> None \<or> \<not> di_work di then Some (ev, di)
                  else discover_rounds cfg conn srv 2 (snd (gatt_discover_work OK di))))"
    by (metis discover_rounds.simps(2) eval_nat_numeral(3) numeral_2_eq_2 numeral_3_eq_3)
  have ty: "dp_type (di_params di) = BT_GATT_DISCOVER_PRIMARY" by (simp add: di)
  have r1: "stack_reports srv (di_params di) = Some svc # map Some others @ [None]"
    using svc(1) in1 by (simp add: stack_reports_def di(5) cong: filter_cong)
  have prim: "ga_uuid svc = BT_UUID_GATT_PRIMARY"
    using svc(1) by (metis Cons_eq_filterD service_with_def)
  obtain c n where p1: "discovery_process_service cfg (Some svc) di = Some (
    if ?h = e
    then (BT_GATT_ITER_STOP, Some Dm_completed,
      (with_attrs [stored_attr svc] c n di)\<lparr>di_params := (di_params di)\<lparr>dp_end := e\<rparr>, di_release := True\<rparr>)
    else (BT_GATT_ITER_STOP, None,
      (with_attrs [stored_attr svc] c n di)
        \<lparr>di_params := \<lparr>dp_uuid = None, dp_start = ?h + 1, dp_end = e, dp_type = BT_GATT_DISCOVER_ATTRIBUTE\<rparr>,
         di_work := True\<rparr>))"
    using process_service_some [OF m di(1) _ prim svc(2)] body(2) by auto
  show ?thesis
  proof (cases "?h = e")
    case True
    have "?b = []" using True by (auto simp: service_body_def filter_empty_conv)
    then show ?thesis
      using p1 True di(1-4) unfolding st0 r1 by (simp add: discovery_callback_def ty)
  next
    case False
    then have h: "?h < e" using svc(3) by simp
    let ?d1 = "((with_attrs [stored_attr svc] c n di)
        \<lparr>di_params := \<lparr>dp_uuid = None, dp_start = ?h + 1, dp_end = e, dp_type = BT_GATT_DISCOVER_ATTRIBUTE\<rparr>,
         di_work := True\<rparr>)\<lparr>di_work := False\<rparr>"
    have k1: "discover_rounds cfg conn srv 3 di = discover_rounds cfg conn srv 2 ?d1"
      using p1 False di(1-4) unfolding st0 r1 by (simp add: discovery_callback_def ty gatt_discover_work_def)
    have d1: "di_attrs ?d1 = [stored_attr svc]" "conn = dm_conn (di_dm ?d1)" "di_locked ?d1"
      using di by (simp_all add: with_attrs_def upd_attrs_def)
    obtain c' n' where f2: "feed cfg conn (stack_reports srv (di_params ?d1)) ?d1 = Some (
      if ?b = [] then (Some Dm_completed, ?d1\<lparr>di_release := True\<rparr>)
      else (None, (with_attrs (stored_attr svc # map found_attr ?b) c' n' ?d1)
        \<lparr>di_params := (di_params ?d1)\<lparr>dp_start := ?h + 1, dp_type := BT_GATT_DISCOVER_CHARACTERISTIC\<rparr>, di_work := True\<rparr>))"
      using attribute_round [OF m _ d1(1) refl h d1(2) body(2)] by auto
    show ?thesis
    proof (cases "?b = []")
      case True
      then show ?thesis
        using k1 f2 d1 by (simp add: numeral_2_eq_2)
    next
      case False
      let ?d2 = "(with_attrs (stored_attr svc # map found_attr ?b) c' n' ?d1)
        \<lparr>di_params := (di_params ?d1)\<lparr>dp_start := ?h + 1, dp_type := BT_GATT_DISCOVER_CHARACTERISTIC\<rparr>, di_work := False\<rparr>"
      have k2: "discover_rounds cfg conn srv 3 di = discover_rounds cfg conn srv 1 ?d2"
        using k1 f2 False d1 by (simp add: numeral_2_eq_2 gatt_discover_work_def)
      have d2: "di_attrs ?d2 = stored_attr svc # map found_attr ?b" "conn = dm_conn (di_dm ?d2)" "di_locked ?d2"
        using d1 by (simp_all add: with_attrs_def upd_attrs_def)
      obtain c'' n'' where "feed cfg conn (stack_reports srv (di_params ?d2)) ?d2 =
          Some (Some Dm_completed, (with_attrs (map stored_attr (svc # ?b)) c'' n'' ?d2)\<lparr>di_release := True\<rparr>)"
        using characteristic_round [OF m _ d2(1) refl h d2(2) srv(1) body(1)] by auto
      then show ?thesis using k2 d2 by simp
    qed
  qed
qed

subsection \<open>The lock and the table\<close>

text \<open>
  The manager is locked from the start of a discovery to its release; outside it holds
  neither attributes nor memory. A chunk is never filled past its end.
\<close>

definition dm_wf :: "dm_cfg \<Rightarrow> dm_inst \<Rightarrow> bool" where
  "dm_wf cfg di \<longleftrightarrow>
     length (di_attrs di) \<le> dc_max_attrs cfg \<and> di_chunk_len di \<le> dc_chunk cfg \<and>
     (di_release di \<longrightarrow> di_locked di) \<and> (di_chunks di = 0 \<longrightarrow> di_attrs di = []) \<and>
     (\<not> di_locked di \<longrightarrow> di_attrs di = [] \<and> di_chunks di = 0)"

definition dm_active :: "dm_inst \<Rightarrow> bool" where
  "dm_active di \<longleftrightarrow> di_locked di \<and> \<not> di_release di"

text \<open>How an event leaves the manager.\<close>

definition event_ok :: "dm_event option \<Rightarrow> dm_inst \<Rightarrow> bool" where
  "event_ok ev di \<longleftrightarrow>
     (case ev of None \<Rightarrow> dm_active di | Some Dm_completed \<Rightarrow> di_locked di \<and> di_release di
      | Some Dm_not_found \<Rightarrow> \<not> di_locked di | Some (Dm_error e) \<Rightarrow> \<not> di_locked di)"

definition kept :: "dm_cfg \<Rightarrow> dm_inst \<Rightarrow> dm_inst \<Rightarrow> bool" where
  "kept cfg di di' \<longleftrightarrow> dm_wf cfg di' \<and> dm_active di' \<and> length (di_attrs di) \<le> length (di_attrs di') \<and>
     di_params di' = di_params di \<and> dm_conn (di_dm di') = dm_conn (di_dm di)"

lemma alloc_kept:
  assumes "user_data_alloc cfg n di = Some (b, di')" and "dm_wf cfg di" and "dm_active di"
  shows "kept cfg di di' \<and> (b \<longrightarrow> di_chunks di' \<noteq> 0) \<and> di_attrs di' = di_attrs di"
  using assms by (auto simp: user_data_alloc_def kept_def dm_wf_def dm_active_def Let_def split: if_split_asm)

lemma attr_store_kept:
  assumes s: "attr_store cfg a n di = Some (r, di')" and w: "dm_wf cfg di" "dm_active di"
  shows "kept cfg di di'"
proof (cases "dc_max_attrs cfg \<le> length (di_attrs di)")
  case True
  then show ?thesis using s w by (simp add: attr_store_def kept_def)
next
  case False
  then obtain b d where d: "user_data_alloc cfg (n + get_uuid_size (ga_uuid a)) di = Some (b, d)"
    using s by (auto simp: attr_store_def bind_eq_Some_conv)
  note k = alloc_kept [OF d w]
  show ?thesis
    using s False d k by (cases b) (auto simp: attr_store_def kept_def dm_wf_def dm_active_def)
qed

lemma uuid_store_kept:
  assumes "uuid_store cfg u di = Some (r, di')" and "dm_wf cfg di" and "dm_active di"
  shows "kept cfg di di'"
  using assms alloc_kept [of cfg _ di]
  by (cases u) (auto simp: uuid_store_def kept_def bind_eq_Some_conv)

lemma copy_val_kept: "kept cfg di d \<Longrightarrow> kept cfg di (copy_val i v d)"
  by (simp add: kept_def copy_val_def dm_wf_def dm_active_def)

lemma set_val_kept: "kept cfg di d \<Longrightarrow> kept cfg di (set_val_uuid i u d)"
  by (simp add: kept_def set_val_uuid_def dm_wf_def dm_active_def)

lemma kept_trans: "kept cfg di d \<Longrightarrow> kept cfg d d' \<Longrightarrow> kept cfg di d'"
  by (simp add: kept_def)

lemma error_ok:
  "dm_wf cfg di \<Longrightarrow> dm_active di \<Longrightarrow> stop_with (discovery_complete_error e di) = (it, ev, di') \<Longrightarrow>
   dm_wf cfg di' \<and> event_ok ev di'"
  by (auto simp: stop_with_def discovery_complete_error_def svc_attr_memory_release_def dm_wf_def event_ok_def
      dm_active_def)

lemma not_found_ok:
  "dm_wf cfg di \<Longrightarrow> dm_active di \<Longrightarrow> stop_with (discovery_complete_not_found di) = (it, ev, di') \<Longrightarrow>
   dm_wf cfg di' \<and> event_ok ev di'"
  by (auto simp: stop_with_def discovery_complete_not_found_def svc_attr_memory_release_def dm_wf_def event_ok_def
      dm_active_def)

lemma complete_ok:
  "dm_wf cfg di \<Longrightarrow> dm_active di \<Longrightarrow> stop_with (discovery_complete di) = (it, ev, di') \<Longrightarrow>
   dm_wf cfg di' \<and> event_ok ev di'"
  by (auto simp: stop_with_def discovery_complete_def dm_wf_def event_ok_def dm_active_def)

lemma keeps_ok: "kept cfg di d \<Longrightarrow> dm_wf cfg d \<and> dm_active d"
  by (simp add: kept_def)

lemma params_ok: "dm_wf cfg (di\<lparr>di_params := p\<rparr>) = dm_wf cfg di" "dm_active (di\<lparr>di_params := p\<rparr>) = dm_active di"
  "dm_wf cfg (di\<lparr>di_work := b\<rparr>) = dm_wf cfg di" "dm_active (di\<lparr>di_work := b\<rparr>) = dm_active di"
  by (simp_all add: dm_wf_def dm_active_def)

lemma service_event:
  assumes "discovery_process_service cfg attr di = Some (it, ev, di')" and "dm_wf cfg di" and "dm_active di"
  shows "dm_wf cfg di' \<and> event_ok ev di'"
proof (cases attr)
  case None
  then show ?thesis using assms not_found_ok [of cfg di] by (simp add: discovery_process_service_def)
next
  case (Some a)
  then obtain u e cur d where u: "ga_user a = Service_val u e"
    and d: "attr_store cfg a (dc_service_val cfg) di = Some (cur, d)"
    using assms(1) by (auto simp: discovery_process_service_def bind_eq_Some_conv split: attr_user.splits)
  note k = keeps_ok [OF attr_store_kept [OF d assms(2,3)]]
  show ?thesis
  proof (cases cur)
    case None
    then show ?thesis
      using assms(1) Some u d k error_ok [of cfg d]
      by (simp add: discovery_process_service_def split: if_split_asm)
  next
    case i: (Some i)
    obtain r d' where d': "uuid_store cfg (Some u) (copy_val i (Service_val u e) d) = Some (r, d')"
      using assms(1) Some u d i by (auto simp: discovery_process_service_def bind_eq_Some_conv split: if_split_asm)
    have "kept cfg d (copy_val i (Service_val u e) d)" using k by (intro copy_val_kept) (simp add: kept_def)
    then have "kept cfg (copy_val i (Service_val u e) d) d'" using uuid_store_kept [OF d'] keeps_ok by blast
    note k' = keeps_ok [OF set_val_kept [OF this, of i r]]
    have e: "(if ga_uuid a \<noteq> BT_UUID_GATT_PRIMARY \<and> ga_uuid a \<noteq> BT_UUID_GATT_SECONDARY then None
      else if r = None then Some (stop_with (discovery_complete_error (Neg ENOMEM) (set_val_uuid i r d')))
      else let di = (set_val_uuid i r d')\<lparr>di_params := (di_params (set_val_uuid i r d'))\<lparr>dp_end := e\<rparr>\<rparr> in
        if ga_handle a = e then Some (stop_with (discovery_complete di))
        else Some (BT_GATT_ITER_STOP, None,
          di\<lparr>di_params := (di_params di)\<lparr>dp_uuid := None, dp_type := BT_GATT_DISCOVER_ATTRIBUTE,
                                          dp_start := ga_handle a + 1\<rparr>, di_work := True\<rparr>)) = Some (it, ev, di')"
      unfolding assms(1) [symmetric] by (simp add: discovery_process_service_def Some u d i d' Let_def)
    show ?thesis
    proof (cases "r = None")
      case True
      then show ?thesis using e k' error_ok [of cfg "set_val_uuid i r d'"] by (auto split: if_split_asm)
    next
      case False
      then show ?thesis
        using e k' complete_ok [of cfg "(set_val_uuid i r d')\<lparr>di_params := (di_params (set_val_uuid i r d'))\<lparr>dp_end := e\<rparr>\<rparr>"]
        by (auto simp: Let_def params_ok event_ok_def split: if_split_asm)
    qed
  qed
qed

lemma attribute_event:
  assumes "discovery_process_attribute cfg attr di = Some (it, ev, di')" and "dm_wf cfg di" and "dm_active di"
  shows "dm_wf cfg di' \<and> event_ok ev di'"
proof (cases attr)
  case None
  then show ?thesis
    using assms complete_ok [of cfg di]
    by (auto simp: discovery_process_attribute_def event_ok_def params_ok split: if_split_asm)
next
  case (Some a)
  show ?thesis
  proof (cases "ga_uuid a = BT_UUID_GATT_CHRC")
    case True
    obtain i d where d: "attr_store cfg a (dc_chrc cfg) di = Some (Some i, d)"
      "(it, ev, di') = (BT_GATT_ITER_CONTINUE, None, set_val_uuid i (Some (ga_uuid a)) d)"
      using assms(1) Some True by (auto simp: discovery_process_attribute_def bind_eq_Some_conv)
    then show ?thesis
      using keeps_ok [OF set_val_kept [OF attr_store_kept [OF d(1) assms(2,3)]]] by (simp add: event_ok_def)
  next
    case False
    obtain r d where d: "attr_store cfg a 0 di = Some (r, d)"
      using assms(1) Some False by (auto simp: discovery_process_attribute_def bind_eq_Some_conv)
    then show ?thesis
      using assms(1) Some False keeps_ok [OF attr_store_kept [OF d assms(2,3)]] error_ok [of cfg d]
      by (auto simp: discovery_process_attribute_def event_ok_def split: if_split_asm)
  qed
qed

lemma characteristic_event:
  assumes "discovery_process_characteristic cfg attr di = Some (it, ev, di')" and "dm_wf cfg di" and "dm_active di"
  shows "dm_wf cfg di' \<and> event_ok ev di'"
proof (cases attr)
  case None
  then show ?thesis using assms complete_ok [of cfg di] by (simp add: discovery_process_characteristic_def)
next
  case (Some a)
  show ?thesis
  proof (cases "attr_find_by_handle (di_dm di) (ga_handle a)")
    case None
    then show ?thesis
      using assms Some error_ok [of cfg di]
      by (simp add: discovery_process_characteristic_def split: if_split_asm)
  next
    case i: (Some i)
    then obtain u p where u: "ga_uuid a = BT_UUID_GATT_CHRC" "ga_user a = Chrc_val u p"
      "at_uuid (di_attrs di ! i) = BT_UUID_GATT_CHRC"
      using assms(1) Some
      by (auto simp: discovery_process_characteristic_def split: if_split_asm attr_user.splits)
    then obtain r d where d: "uuid_store cfg (Some u) (copy_val i (Chrc_val u p) di) = Some (r, d)"
      using assms(1) Some i by (auto simp: discovery_process_characteristic_def bind_eq_Some_conv)
    have e: "(if r = None then Some (stop_with (discovery_complete_error (Neg ENOMEM) (set_val_uuid i r d)))
        else Some (BT_GATT_ITER_CONTINUE, None, set_val_uuid i r d)) = Some (it, ev, di')"
      unfolding assms(1) [symmetric] using Some i u d by (simp add: discovery_process_characteristic_def Let_def)
    have "kept cfg di (copy_val i (Chrc_val u p) di)" using assms(2,3) by (intro copy_val_kept) (simp add: kept_def)
    then have "kept cfg (copy_val i (Chrc_val u p) di) d" using uuid_store_kept [OF d] keeps_ok by blast
    note k = keeps_ok [OF set_val_kept [OF this]]
    show ?thesis
      using e k error_ok [of cfg "set_val_uuid i r d"] by (auto simp: event_ok_def split: if_split_asm)
  qed
qed

lemma callback_event:
  assumes "discovery_callback cfg conn attr di = Some (it, ev, di')" and "dm_wf cfg di" and "dm_active di"
  shows "dm_wf cfg di' \<and> event_ok ev di'"
  using assms error_ok [OF assms(2,3)] service_event [of cfg attr di] attribute_event [of cfg attr di]
    characteristic_event [of cfg attr di]
  by (auto simp: discovery_callback_def split: if_split_asm discover_type.splits)

lemma feed_event:
  "feed cfg conn rs di = Some (ev, di') \<Longrightarrow> dm_wf cfg di \<Longrightarrow> dm_active di \<Longrightarrow> dm_wf cfg di' \<and> event_ok ev di'"
proof (induction rs arbitrary: di)
  case Nil
  then show ?case by (simp add: event_ok_def)
next
  case (Cons r rs)
  then obtain it e d where c: "discovery_callback cfg conn r di = Some (it, e, d)" by (auto simp: bind_eq_Some_conv)
  note k = callback_event [OF c Cons.prems(2,3)]
  show ?case
  proof (cases it)
    case BT_GATT_ITER_STOP
    then show ?thesis using Cons.prems(1) c k by simp
  next
    case BT_GATT_ITER_CONTINUE
    have "e = None" using c BT_GATT_ITER_CONTINUE
      by (auto simp: discovery_callback_def discovery_process_service_def discovery_process_attribute_def
          discovery_process_characteristic_def stop_with_def bind_eq_Some_conv Let_def
          split: if_split_asm discover_type.splits option.splits attr_user.splits)
    then have "dm_active d" using k by (simp add: event_ok_def)
    then show ?thesis using Cons c k BT_GATT_ITER_CONTINUE by simp
  qed
qed

text \<open>Starting, continuing and releasing.\<close>

lemma start_wf:
  "dm_wf cfg di \<Longrightarrow> bt_gatt_dm_start ans conn u cb di = (r, di') \<Longrightarrow>
   dm_wf cfg di' \<and> (r = OK \<longrightarrow> dm_active di') \<and> (di_locked di \<longrightarrow> r \<noteq> OK \<and> di' = di)"
  by (auto simp: bt_gatt_dm_start_def dm_wf_def dm_active_def Let_def split: if_split_asm option.splits bt_uuid.splits)

lemma release_wf:
  "dm_wf cfg di \<Longrightarrow> dm_wf cfg (snd (bt_gatt_dm_data_release di)) \<and>
   (di_release di \<longrightarrow> \<not> di_locked (snd (bt_gatt_dm_data_release di)) \<and> \<not> di_work (snd (bt_gatt_dm_data_release di)))"
  by (simp add: bt_gatt_dm_data_release_def dm_wf_def svc_attr_memory_release_def)

lemma work_wf:
  "dm_wf cfg di \<Longrightarrow> \<not> di_release di \<Longrightarrow> dm_wf cfg (snd (gatt_discover_work ans di))"
  by (simp add: gatt_discover_work_def dm_wf_def discovery_complete_error_def svc_attr_memory_release_def Let_def)

text \<open>
  A full table: the next attribute ends the discovery with an error, unless it is a
  characteristic declaration, whose value is written through the null pointer.
\<close>

lemma table_full:
  assumes "dc_max_attrs cfg \<le> length (di_attrs di)"
  shows "discovery_process_attribute cfg (Some a) di =
    (if ga_uuid a = BT_UUID_GATT_CHRC then None
     else Some (BT_GATT_ITER_STOP, Some (Dm_error (Neg ENOMEM)), (svc_attr_memory_release di)\<lparr>di_locked := False\<rparr>))"
  using assms
  by (simp add: discovery_process_attribute_def attr_store_def stop_with_def discovery_complete_error_def)

end
