(* ===== verification/Discovery.thy ===== *)
theory Discovery
  imports Scan_Match Handles Control Dm_Procedure
begin

section \<open>Connecting to the camera (\<^verbatim>\<open>gopro_ble_discovery.c\<close>)\<close>

text \<open>
  The work items and the callbacks that find a camera, connect to it, discover its services
  and start talking to it. Each is a function on the state \<open>ble\<close>: the globals of the
  firmware, the static variables of the file, the discovery manager, the scanning module
  and which work items are submitted. The answers of the Bluetooth stack are arguments.
\<close>

subsection \<open>State\<close>

text \<open>
  Where the handler of \<^verbatim>\<open>discovery_finish_work\<close> waits: for the name, for the password, or
  for the hardware information in round \<open>i\<close> of its poll loop.
\<close>

datatype finish_pc = F_idle | F_ssid | F_pass | F_poll nat

text \<open>\<open>b_scan_work\<close> is the delay in milliseconds \<^verbatim>\<open>scan_work\<close> is scheduled with.\<close>

record ble =
  b_sys :: gopro_sys
  b_default_conn :: "nat option"
  b_uuid_index :: u8
  b_dm :: dm_inst
  b_scan :: bt_scan
  b_start_work :: bool
  b_finish_work :: bool
  b_scan_work :: "nat option"
  b_finish_pc :: finish_pc

record ble_cfg =
  bc_env :: gopro_env
  bc_scan :: scan_cfg
  bc_uuid :: uuid_env

definition on_sys :: "(gopro_sys \<Rightarrow> gopro_sys) \<Rightarrow> ble \<Rightarrow> ble" where
  "on_sys f b = b\<lparr>b_sys := f (b_sys b)\<rparr>"

lemma on_sys_sel [simp]:
  "b_sys (on_sys f b) = f (b_sys b)" "b_default_conn (on_sys f b) = b_default_conn b"
  "b_uuid_index (on_sys f b) = b_uuid_index b" "b_dm (on_sys f b) = b_dm b" "b_scan (on_sys f b) = b_scan b"
  "b_start_work (on_sys f b) = b_start_work b" "b_finish_work (on_sys f b) = b_finish_work b"
  "b_scan_work (on_sys f b) = b_scan_work b" "b_finish_pc (on_sys f b) = b_finish_pc b"
  by (simp_all add: on_sys_def)

definition set_flag :: "nat \<Rightarrow> gopro_sys \<Rightarrow> gopro_sys" where
  "set_flag n = upd_client (\<lambda>gc. gc\<lparr>gc_state := atomic_set_bit n (gc_state gc)\<rparr>)"

definition clear_flag :: "nat \<Rightarrow> gopro_sys \<Rightarrow> gopro_sys" where
  "clear_flag n = upd_client (\<lambda>gc. gc\<lparr>gc_state := atomic_clear_bit n (gc_state gc)\<rparr>)"

definition test_flag :: "nat \<Rightarrow> gopro_sys \<Rightarrow> bool" where
  "test_flag n sys = atomic_test_bit (gc_state (sys_client sys)) n"

definition set_sate :: "gopro_state_list_t \<Rightarrow> gopro_sys \<Rightarrow> gopro_sys" where
  "set_sate st = upd_state (\<lambda>s. snd (gopro_client_set_sate st s))"

subsection \<open>Discovering the services\<close>

definition uuid_list :: "bt_uuid list" where
  "uuid_list = [BT_UUID_GOPRO_WIFI_SERVICE, BT_UUID_GOPRO_SERVICE, BT_UUID_GOPRO_NET_SERVICE]"

definition discovery_start_work_handler :: "cret \<Rightarrow> ble \<Rightarrow> ble" where
  "discovery_start_work_handler discover b =
     (let b = b\<lparr>b_start_work := False\<rparr>; i = unat (b_uuid_index b) in
      if length uuid_list \<le> i then b\<lparr>b_finish_work := True\<rparr>
      else
        let (err, dm) = bt_gatt_dm_start discover (b_default_conn b) (Some (uuid_list ! i)) True (b_dm b) in
        b\<lparr>b_dm := dm, b_uuid_index := b_uuid_index b + 1\<rparr>)"

definition handles_assign :: "bt_gatt_dm \<Rightarrow> bt_gopro_client \<Rightarrow> (cret \<times> bt_gopro_client) option" where
  "handles_assign dm gc = do {
     u \<leftarrow> service_uuid dm;
     if u = BT_UUID_GOPRO_SERVICE then bt_gopro_handles_assign dm gc
     else if u = BT_UUID_GOPRO_WIFI_SERVICE then bt_gopro_wifi_handles_assign dm gc
     else if u = BT_UUID_GOPRO_NET_SERVICE then bt_gopro_net_handle_assign dm gc
     else Some (Code (- 1), gc)
   }"

definition gopro_discovery_complete :: "ble \<Rightarrow> ble option" where
  "gopro_discovery_complete b = do {
     (err, gc) \<leftarrow> handles_assign (di_dm (b_dm b)) (sys_client (b_sys b));
     Some ((on_sys (\<lambda>sys. sys\<lparr>sys_client := gc\<rparr>) b)
       \<lparr>b_dm := snd (bt_gatt_dm_data_release (b_dm b)), b_start_work := True\<rparr>)
   }"

definition discovery_service_not_found :: "ble \<Rightarrow> ble" where
  "discovery_service_not_found b = b\<lparr>b_start_work := True\<rparr>"

definition discovery_error :: "cret \<Rightarrow> ble \<Rightarrow> ble" where
  "discovery_error err b = b"

definition discovery_cb :: "dm_event option \<Rightarrow> ble \<Rightarrow> ble option" where
  "discovery_cb ev b =
     (case ev of
        None \<Rightarrow> Some b
      | Some Dm_completed \<Rightarrow> gopro_discovery_complete b
      | Some Dm_not_found \<Rightarrow> Some (discovery_service_not_found b)
      | Some (Dm_error err) \<Rightarrow> Some (discovery_error err b))"

subsection \<open>After the discovery\<close>

definition publish :: "gopro_env \<Rightarrow> gopro_cmd_t \<Rightarrow> ble \<Rightarrow> ble" where
  "publish env c = on_sys (\<lambda>sys. snd (cmd_chan_pub env c sys))"

abbreviation (input) GET_HW_POLL_COUNT :: nat where "GET_HW_POLL_COUNT \<equiv> 20"

text \<open>
  \<^verbatim>\<open>discovery_finish_work_handler\<close>, cut at the places where it waits. The first piece runs
  to the wait for the name, the last from the end of the poll loop.
\<close>

definition finish_begin :: "(bt_gatt_read_params \<Rightarrow> cret) \<Rightarrow> ble \<Rightarrow> ble" where
  "finish_begin gatt_read b =
     (on_sys (\<lambda>sys. sys\<lparr>sys_client := snd (bt_gopro_client_get gatt_read (of_nat GP_WIFI_HANDLE_SSID) (sys_client sys))\<rparr>) b)
       \<lparr>b_finish_work := False, b_finish_pc := F_ssid\<rparr>"

definition finish_read_pass :: "(bt_gatt_read_params \<Rightarrow> cret) \<Rightarrow> ble \<Rightarrow> ble" where
  "finish_read_pass gatt_read b =
     (on_sys (\<lambda>sys. sys\<lparr>sys_read_sem := sys_read_sem sys - 1,
        sys_client := snd (bt_gopro_client_get gatt_read (of_nat GP_WIFI_HANDLE_PASS) (sys_client sys))\<rparr>) b)
       \<lparr>b_finish_pc := F_pass\<rparr>"

definition subscribe_all ::
    "(bt_gatt_subscribe_params \<Rightarrow> cret) \<Rightarrow> bt_gopro_client \<Rightarrow> bt_gopro_client" where
  "subscribe_all gatt_subscribe gc =
     fold (\<lambda>i gc. snd (gopro_set_subscribe gatt_subscribe i gc))
       [unat GP_CNTRL_HANDLE_CMD, unat GP_CNTRL_HANDLE_SETTINGS, unat GP_CNTRL_HANDLE_QUERY,
        unat GP_CNTRL_HANDLE_NET] gc"

definition finish_connected :: "gopro_env \<Rightarrow> (bt_gatt_subscribe_params \<Rightarrow> cret) \<Rightarrow> ble \<Rightarrow> ble" where
  "finish_connected env gatt_subscribe b =
     (let b = on_sys (\<lambda>sys. sys\<lparr>sys_read_sem := sys_read_sem sys - 1,
                              sys_client := subscribe_all gatt_subscribe (sys_client sys)\<rparr>) b;
          b = on_sys (gopro_led_mode_set LED_NUM_BT LED_MODE_ON) b;
          b = on_sys (set_sate GP_STATE_CONNECTED) b in
      (publish env gopro_get_hw_info b)\<lparr>b_finish_pc := F_poll 0\<rparr>)"

definition finish_pairing_part :: "gopro_env \<Rightarrow> bytes \<Rightarrow> gopro_sys \<Rightarrow> gopro_sys option" where
  "finish_pairing_part env stk sys =
     (if test_flag GP_FLAG_JUST_PAIRED sys
      then map_option snd (gopro_finish_pairing env stk (clear_flag GP_FLAG_JUST_PAIRED sys))
      else Some sys)"

definition finish_end :: "gopro_env \<Rightarrow> bytes \<Rightarrow> ble \<Rightarrow> ble option" where
  "finish_end env stk b = do {
     sys \<leftarrow> finish_pairing_part env stk (b_sys b);
     let sys = pub_all (cmd_chan_pub env) startup_query_list sys;
     Some (b\<lparr>b_sys := clear_flag GP_FLAG_FORCE_CONNECT sys, b_finish_pc := F_idle\<rparr>)
   }"

text \<open>One wait of the poll loop: the semaphore is there, or a second has passed.\<close>

definition finish_poll :: "gopro_env \<Rightarrow> bytes \<Rightarrow> nat \<Rightarrow> ble \<Rightarrow> ble option" where
  "finish_poll env stk i b =
     (if 0 < sys_hw_sem (b_sys b)
      then finish_end env stk (on_sys (\<lambda>sys. sys\<lparr>sys_hw_sem := sys_hw_sem sys - 1\<rparr>) b)
      else if Suc i < GET_HW_POLL_COUNT
      then Some ((publish env gopro_get_hw_info b)\<lparr>b_finish_pc := F_poll (Suc i)\<rparr>)
      else finish_end env stk b)"

text \<open>The handler as far as it gets without waiting for anyone else.\<close>

definition finish_step ::
    "gopro_env \<Rightarrow> bytes \<Rightarrow> (bt_gatt_read_params \<Rightarrow> cret) \<Rightarrow> (bt_gatt_subscribe_params \<Rightarrow> cret) \<Rightarrow> ble \<Rightarrow> ble option" where
  "finish_step env stk gatt_read gatt_subscribe b =
     (case b_finish_pc b of
        F_idle \<Rightarrow> if b_finish_work b then Some (finish_begin gatt_read b) else Some b
      | F_ssid \<Rightarrow> if 0 < sys_read_sem (b_sys b) then Some (finish_read_pass gatt_read b) else Some b
      | F_pass \<Rightarrow> if 0 < sys_read_sem (b_sys b) then Some (finish_connected env gatt_subscribe b) else Some b
      | F_poll i \<Rightarrow> finish_poll env stk i b)"

subsection \<open>Scanning\<close>

text \<open>A bond is its address with whether the device is connected.\<close>

definition try_add_address_filter :: "scan_cfg \<Rightarrow> bt_addr_le_t \<times> bool \<Rightarrow> u8 \<times> bt_scan \<Rightarrow> u8 \<times> bt_scan" where
  "try_add_address_filter cfg bond st =
     (case (bond, st) of ((a, is_connected), (filter_mode, bs)) \<Rightarrow>
        if is_connected then (filter_mode, bs)
        else case scan_addr_filter_add cfg a bs of (err, bs) \<Rightarrow>
          if err \<noteq> OK then (filter_mode, bs)
          else (filter_mode OR BT_SCAN_ADDR_FILTER, bs))"

definition scan_prepare ::
    "ble_cfg \<Rightarrow> (bt_addr_le_t \<times> bool) list \<Rightarrow> bt_scan \<Rightarrow> cret \<times> bt_scan" where
  "scan_prepare cfg bonds bs =
     (let (filter_mode, bs) = fold (try_add_address_filter (bc_scan cfg)) bonds (0, bt_scan_filter_remove_all bs);
          (mode, err, bs) =
            (if filter_mode AND BT_SCAN_ADDR_FILTER = 0
             then (case scan_uuid_filter_add (bc_uuid cfg) (bc_scan cfg) BT_UUID_GOPRO_SERVICE bs of
                     (err, bs) \<Rightarrow> (BT_SCAN_UUID_FILTER, err, bs))
             else (filter_mode, OK, bs)) in
      if err \<noteq> OK then (err, bs) else bt_scan_filter_enable mode False bs)"

definition scan_work_handler ::
    "ble_cfg \<Rightarrow> cret \<Rightarrow> cret \<Rightarrow> (bt_addr_le_t \<times> bool) list \<Rightarrow> ble \<Rightarrow> ble" where
  "scan_work_handler cfg stop start bonds b =
     (let b = b\<lparr>b_scan_work := None\<rparr> in
      if bt_scan_stop stop \<noteq> OK \<and> bt_scan_stop stop \<noteq> Neg EALREADY then b
      else case scan_prepare cfg bonds (b_scan b) of (err, bs) \<Rightarrow>
        let b = b\<lparr>b_scan := bs\<rparr> in
        if err \<noteq> OK then b
        else case bt_scan_start start BT_SCAN_TYPE_SCAN_ACTIVE (b_scan b) of (err, bs) \<Rightarrow>
          let b = b\<lparr>b_scan := bs\<rparr> in
          if err \<noteq> OK then b else on_sys (led_idle_timer_start 1) b)"

text \<open>\<open>create\<close> is the answer of \<^verbatim>\<open>bt_conn_le_create\<close> with the connection it has made.\<close>

definition ble_connect :: "cret \<Rightarrow> cret \<times> nat option \<Rightarrow> ble \<Rightarrow> cret \<times> ble" where
  "ble_connect stop create b =
     (if bt_scan_stop stop \<noteq> OK \<and> bt_scan_stop stop \<noteq> Neg EALREADY then (stop, b)
      else case create of (err, conn) \<Rightarrow>
        if err \<noteq> OK then (err, b) else (OK, b\<lparr>b_default_conn := conn\<rparr>))"

definition eir_found :: "cret \<Rightarrow> cret \<times> nat option \<Rightarrow> bt_data \<Rightarrow> ble \<Rightarrow> ble option" where
  "eir_found stop create d b =
     (if bd_type d = 9 then do {
        (r, s) \<leftarrow> gopro_client_setname (Some (bd_data d)) (bd_len d) (sys_state (b_sys b));
        Some (on_sys (\<lambda>sys. sys\<lparr>sys_state := s\<rparr>) b)
      }
      else if bd_type d = 255 \<and> bd_len d = 14 then do {
        st \<leftarrow> rd (bd_data d) 3;
        if st = 0 then
          let b = on_sys (gopro_led_mode_set LED_NUM_BT LED_MODE_BLINK_1S) b;
              b = on_sys (set_sate GP_STATE_OFFLINE) b in
          Some (if test_flag GP_FLAG_FORCE_CONNECT (b_sys b) then snd (ble_connect stop create b) else b)
        else if st = 1 then
          let b = on_sys (gopro_led_mode_set LED_NUM_BT LED_MODE_BLINK_300MS) b;
              b = on_sys (set_sate GP_STATE_ONLINE) b in
          Some (snd (ble_connect stop create b))
        else if st = 5 then
          let b = on_sys (gopro_led_mode_set LED_NUM_BT LED_MODE_BLINK_100MS) b;
              b = on_sys (set_sate GP_STATE_PAIRING) b in
          Some (snd (ble_connect stop create b))
        else Some b
      }
      else Some b)"

fun eir_parse :: "(cret \<times> (cret \<times> nat option)) \<Rightarrow> bt_data list \<Rightarrow> ble \<Rightarrow> ble option" where
  "eir_parse ans [] b = Some b"
| "eir_parse ans (d # ds) b = do {
     b \<leftarrow> eir_found (fst ans) (snd ans) d b;
     eir_parse ans ds b
   }"

text \<open>The static address it compares with serves the log only.\<close>

definition scan_filter_match ::
    "cret \<Rightarrow> cret \<times> nat option \<Rightarrow> bt_addr_le_t \<Rightarrow> bt_data list \<Rightarrow> ble \<Rightarrow> ble option" where
  "scan_filter_match stop create a ads b =
     (let b = on_sys (upd_state (\<lambda>s. snd (gopro_client_set_device_addr a s))) b;
          b = on_sys (led_idle_timer_start 1) b in
      eir_parse (stop, create) ads b)"

definition scan_connecting :: "nat \<Rightarrow> ble \<Rightarrow> ble" where
  "scan_connecting conn b = b\<lparr>b_default_conn := Some conn\<rparr>"

definition scan_connecting_error :: "ble \<Rightarrow> ble" where
  "scan_connecting_error = on_sys (clear_flag GP_FLAG_FORCE_CONNECT)"

subsection \<open>Connection callbacks\<close>

definition gatt_discover :: "nat \<Rightarrow> ble \<Rightarrow> ble" where
  "gatt_discover conn b = (if Some conn \<noteq> b_default_conn b then b else b\<lparr>b_start_work := True\<rparr>)"

definition connected :: "cret \<Rightarrow> nat \<Rightarrow> u8 \<Rightarrow> ble \<Rightarrow> ble" where
  "connected set_security conn conn_err b =
     (if conn_err \<noteq> 0 then
        if b_default_conn b = Some conn
        then b\<lparr>b_default_conn := None, b_scan_work := Some 50\<rparr>
        else b
      else
        let b = on_sys (led_idle_timer_start 0) b;
            b = on_sys (gopro_led_mode_set LED_NUM_REC LED_MODE_OFF) b in
        if set_security \<noteq> OK then gatt_discover conn b else b)"

definition disconnected :: "nat \<Rightarrow> ble \<Rightarrow> ble" where
  "disconnected conn b =
     (let b = on_sys (gopro_led_mode_set LED_NUM_BT LED_MODE_BLINK_5S) b;
          b = on_sys (gopro_led_mode_set LED_NUM_REC LED_MODE_OFF) b in
      if b_default_conn b \<noteq> Some conn then b
      else b\<lparr>b_default_conn := None, b_scan_work := Some 3000\<rparr>)"

datatype security_err = SECURITY_ERR_SUCCESS | SECURITY_ERR_PIN_OR_KEY_MISSING | SECURITY_ERR_OTHER

text \<open>The first component tells whether the connection is given up (\<^verbatim>\<open>bt_conn_disconnect\<close>).\<close>

definition security_changed :: "nat \<Rightarrow> security_err \<Rightarrow> ble \<Rightarrow> bool \<times> ble" where
  "security_changed conn err b =
     (if err = SECURITY_ERR_SUCCESS then (False, gatt_discover conn b)
      else
        (True, if err = SECURITY_ERR_PIN_OR_KEY_MISSING
               then on_sys (gopro_led_mode_set LED_NUM_REC LED_MODE_BLINK_300MS) (on_sys (set_sate GP_STATE_NEED_PAIRING) b)
               else b))"

definition pairing_complete :: "ble \<Rightarrow> ble" where
  "pairing_complete = on_sys (set_flag GP_FLAG_JUST_PAIRED)"

subsection \<open>Starting Bluetooth\<close>

text \<open>
  The address comes from the hardware identifier: \<open>ret\<close> is what
  \<^verbatim>\<open>hwinfo_get_device_id\<close> returns and \<open>hw_id\<close> its 10-byte buffer. The copy loop is left
  as a read of six bytes at \<open>start_index\<close>.
\<close>

definition default_le_addr :: bt_addr_le_t where
  "default_le_addr = \<lparr>addr_type = 1, addr_val = [0xAA, 0xDF, 0xAF, 0xEE, 0xBE, 0xDA]\<rparr>"

definition hw_static_addr :: "int \<Rightarrow> bytes \<Rightarrow> bt_addr_le_t option" where
  "hw_static_addr ret hw_id =
     (let hw_len = word_of_int ret :: u8 in
      if 0 < hw_len then do {
        let start_index = (if 6 < hw_len then hw_len - 6 else 0);
        v \<leftarrow> rd_block hw_id (unat start_index) 6;
        Some (default_le_addr\<lparr>addr_val := v\<rparr>)
      }
      else Some default_le_addr)"

definition bt_addr_set_static :: "bt_addr_le_t \<Rightarrow> bt_addr_le_t" where
  "bt_addr_set_static a = a\<lparr>addr_val := (addr_val a)[5 := (addr_val a ! 5) OR 0xc0]\<rparr>"

text \<open>
  \<open>id_create\<close> is \<^verbatim>\<open>bt_id_create\<close>, called with the address; the other answers are those of
  \<^verbatim>\<open>bt_conn_auth_cb_register\<close>, \<^verbatim>\<open>bt_conn_auth_info_cb_register\<close> and \<^verbatim>\<open>bt_enable\<close>.
\<close>

definition scan_init :: bt_scan_init_param where
  "scan_init = \<lparr>ip_scan_param = None, ip_connect_if_match = False, ip_conn_param = None\<rparr>"

text \<open>The four callbacks below are registered with the scanning module.\<close>

definition scan_cb :: cb_data where
  "scan_cb = \<lparr>cb_filter_match = True, cb_filter_no_match = True, cb_connecting_error = True, cb_connecting = True\<rparr>"

definition gopro_bt_start ::
    "ble_cfg \<Rightarrow> int \<times> bytes \<Rightarrow> cret \<Rightarrow> cret \<Rightarrow> (bt_addr_le_t \<Rightarrow> int) \<Rightarrow> cret \<Rightarrow> ble \<Rightarrow>
     (int \<times> ble) option" where
  "gopro_bt_start cfg hw auth_cb info_cb id_create enable b = do {
     a \<leftarrow> hw_static_addr (fst hw) (snd hw);
     if auth_cb \<noteq> OK then Some (0, b)
     else if info_cb \<noteq> OK then Some (0, b)
     else
       let profile = id_create (bt_addr_set_static a) in
       if profile < 0 then Some (profile, b)
       else if enable \<noteq> OK then Some (0, b)
       else Some (0, b\<lparr>b_scan := bt_scan_cb_register (Some scan_cb) (bt_scan_init (bc_scan cfg) (Some scan_init) (b_scan b)),
                       b_scan_work := Some 50\<rparr>)
   }"

subsection \<open>One service\<close>

text \<open>
  One round of the discovery: the service at the current index is found, its attributes are
  collected, its handles assigned, and the next round is submitted.
\<close>

definition service_dm :: "nat option \<Rightarrow> gatt_attr list \<Rightarrow> gatt_attr \<Rightarrow> u16 \<Rightarrow> bt_gatt_dm" where
  "service_dm conn srv svc e =
     \<lparr>dm_conn = conn, dm_attrs = map stored_attr (svc # service_body srv (ga_handle svc) e)\<rparr>"

lemma service_dm_uuid:
  "ga_uuid svc = BT_UUID_GATT_PRIMARY \<Longrightarrow> ga_user svc = Service_val u e \<Longrightarrow>
   service_uuid (service_dm conn srv svc e) = Some u"
  by (simp add: service_uuid_def service_dm_def bt_gatt_dm_attr_service_val_def stored_attr_def raw_attr_def)

lemma handles_assign_total:
  assumes "service_uuid dm = Some u"
  shows "\<exists>err gc'. handles_assign dm gc = Some (err, gc')"
  using assms
  by (auto simp: handles_assign_def bt_gopro_handles_assign_def bt_gopro_wifi_handles_assign_def
      bt_gopro_net_handle_assign_def with_service_def split: prod.split if_split)

lemma discovery_round:
  assumes m: "mem_ok dmc" and i: "unat (b_uuid_index b) < 3" and free: "\<not> di_locked (b_dm b)"
    and srv: "sorted_wrt (<) (map ga_handle srv)" "\<forall>a \<in> set srv. 0 < ga_handle a"
    and svc: "filter (service_with (Some (uuid_list ! unat (b_uuid_index b)))) srv = svc # others"
      "ga_user svc = Service_val (uuid_list ! unat (b_uuid_index b)) e" "ga_handle svc \<le> e"
    and body: "values_ok (service_body srv (ga_handle svc) e)"
      "Suc (length (service_body srv (ga_handle svc) e)) \<le> dc_max_attrs dmc"
  shows "\<exists>di b' err gc. discover_rounds dmc (b_default_conn b) srv 3 (b_dm (discovery_start_work_handler OK b)) =
      Some (Some Dm_completed, di) \<and>
    gopro_discovery_complete ((discovery_start_work_handler OK b)\<lparr>b_dm := di\<rparr>) = Some b' \<and>
    handles_assign (service_dm (b_default_conn b) srv svc e) (sys_client (b_sys b)) = Some (err, gc) \<and>
    b_sys b' = (b_sys b)\<lparr>sys_client := gc\<rparr> \<and> b_uuid_index b' = b_uuid_index b + 1 \<and> b_start_work b' \<and>
    \<not> di_locked (b_dm b') \<and> b_default_conn b' = b_default_conn b \<and> b_finish_pc b' = b_finish_pc b"
proof -
  let ?u = "uuid_list ! unat (b_uuid_index b)"
  have u32: "\<not> (case Some ?u of Some (UUID32 u) \<Rightarrow> True | _ \<Rightarrow> False)"
    using i by (auto simp: uuid_list_def gopro_uuid_def nth_Cons split: nat.split)
  obtain di0 where st: "bt_gatt_dm_start OK (b_default_conn b) (Some ?u) True (b_dm b) = (OK, di0)"
    using free u32 by (simp add: bt_gatt_dm_start_def Let_def)
  have sw: "discovery_start_work_handler OK b =
      b\<lparr>b_start_work := False, b_dm := di0, b_uuid_index := b_uuid_index b + 1\<rparr>"
    using i st by (simp add: discovery_start_work_handler_def uuid_list_def Let_def)
  obtain di where di: "discover_rounds dmc (b_default_conn b) srv 3 di0 = Some (Some Dm_completed, di)"
    "di_attrs di = map stored_attr (svc # service_body srv (ga_handle svc) e)" "dm_conn (di_dm di) = b_default_conn b"
    "di_locked di" "di_release di"
    using discovery_collects [OF m st srv svc body] by blast
  have dm: "di_dm di = service_dm (b_default_conn b) srv svc e"
    using di(2,3) by (cases "di_dm di") (simp add: service_dm_def)
  have prim: "ga_uuid svc = BT_UUID_GATT_PRIMARY"
    using svc(1) by (metis Cons_eq_filterD service_with_def)
  obtain err gc where a: "handles_assign (service_dm (b_default_conn b) srv svc e) (sys_client (b_sys b)) = Some (err, gc)"
    using handles_assign_total [OF service_dm_uuid [OF prim svc(2)]] by blast
  let ?b = "(discovery_start_work_handler OK b)\<lparr>b_dm := di\<rparr>"
  let ?b' = "(on_sys (\<lambda>sys. sys\<lparr>sys_client := gc\<rparr>) ?b)\<lparr>b_dm := snd (bt_gatt_dm_data_release di), b_start_work := True\<rparr>"
  have "gopro_discovery_complete ?b = Some ?b'"
    using a by (simp add: gopro_discovery_complete_def dm sw)
  moreover have "\<not> di_locked (snd (bt_gatt_dm_data_release di))"
    using di(5) by (simp add: bt_gatt_dm_data_release_def)
  ultimately show ?thesis
    using di(1) a by (intro exI [of _ di] exI [of _ ?b'] exI [of _ err] exI [of _ gc]) (simp add: sw on_sys_def)
qed

text \<open>Once the index is at the end, the services are never discovered again.\<close>

lemma discovery_skipped:
  "unat (b_uuid_index b) \<ge> 3 \<Longrightarrow>
   discovery_start_work_handler ans b = b\<lparr>b_start_work := False, b_finish_work := True\<rparr>"
  by (simp add: discovery_start_work_handler_def uuid_list_def Let_def)

text \<open>A discovery that cannot start uses up its index and submits nothing.\<close>

lemma discovery_stalls:
  assumes "unat (b_uuid_index b) < 3" and "ans \<noteq> OK" and "\<not> di_locked (b_dm b)" and "\<not> b_finish_work b"
  shows "b_uuid_index (discovery_start_work_handler ans b) = b_uuid_index b + 1 \<and>
    \<not> b_start_work (discovery_start_work_handler ans b) \<and> \<not> b_finish_work (discovery_start_work_handler ans b) \<and>
    \<not> di_locked (b_dm (discovery_start_work_handler ans b))"
proof -
  have u32: "\<not> (case Some (uuid_list ! unat (b_uuid_index b)) of Some (UUID32 u) \<Rightarrow> True | _ \<Rightarrow> False)"
    using assms(1) by (auto simp: uuid_list_def gopro_uuid_def nth_Cons split: nat.split)
  show ?thesis
    using assms u32 by (simp add: discovery_start_work_handler_def uuid_list_def bt_gatt_dm_start_def Let_def)
qed

text \<open>
  A read the stack refuses is not noticed: no callback will give the semaphore the handler waits
  for, and the handler stays where it is.
\<close>

lemma refused_read_waits:
  assumes "b_finish_pc b = F_idle" and "b_finish_work b" and "sys_read_sem (b_sys b) = 0"
    and "\<And>p. gatt_read p \<noteq> OK"
  shows "\<exists>b'. finish_step env stk gatt_read gatt_sub b = Some b' \<and> b_finish_pc b' = F_ssid \<and>
    sys_read_sem (b_sys b') = 0 \<and>
    (\<forall>env stk gatt_read gatt_sub. finish_step env stk gatt_read gatt_sub b' = Some b')"
  using assms by (simp add: finish_step_def finish_begin_def on_sys_def)

subsection \<open>The connection ends\<close>

text \<open>
  The handler gives up the connection object and schedules a scan, and leaves the state of
  the camera, the client with its connection and the queues as they are.
\<close>

lemma disconnected_default:
  assumes "b_default_conn b = Some conn"
  shows "b_default_conn (disconnected conn b) = None \<and> b_scan_work (disconnected conn b) = Some 3000 \<and>
    sys_state (b_sys (disconnected conn b)) = sys_state (b_sys b) \<and>
    sys_client (b_sys (disconnected conn b)) = sys_client (b_sys b) \<and>
    b_uuid_index (disconnected conn b) = b_uuid_index b"
  using assms by (simp add: disconnected_def Let_def gp_simps)

lemma reconnect_keeps_handles:
  assumes "b_default_conn b = Some conn" and "3 \<le> unat (b_uuid_index b)" and b': "b' = scan_connecting conn' (disconnected conn b)"
  shows "discovery_start_work_handler ans (snd (security_changed conn' SECURITY_ERR_SUCCESS b')) =
      b'\<lparr>b_start_work := False, b_finish_work := True\<rparr> \<and>
    sys_client (b_sys b') = sys_client (b_sys b)"
proof -
  have "b_default_conn b' = Some conn'" "b_uuid_index b' = b_uuid_index b" "sys_client (b_sys b') = sys_client (b_sys b)"
    using disconnected_default [OF assms(1)] by (simp_all add: b' scan_connecting_def)
  then show ?thesis
    using assms(2) by (simp add: security_changed_def gatt_discover_def discovery_skipped)
qed

subsection \<open>Talking to the camera\<close>

lemma set_sate_conn [simp]:
  "st \<noteq> GP_STATE_END \<Longrightarrow> set_sate st sys = upd_state (\<lambda>s. s\<lparr>gs_state := st\<rparr>) sys"
  by (simp add: set_sate_def upd_state_def set_sate_state)

lemma publish_sel [simp]:
  "b_finish_pc (publish env c b) = b_finish_pc b" "b_uuid_index (publish env c b) = b_uuid_index b"
  "b_finish_work (publish env c b) = b_finish_work b" "b_sys (publish env c b) = snd (cmd_chan_pub env c (b_sys b))"
  by (simp_all add: publish_def)

lemma hw_info_accepted: "gs_state s = GP_STATE_CONNECTED \<Longrightarrow> gopro_cmd_validator s gopro_get_hw_info"
  by (rule validator_accepts) (simp_all add: gopro_get_hw_info_def)

lemma startup_accepted:
  "gs_state s = GP_STATE_CONNECTED \<Longrightarrow> c \<in> set startup_query_list \<Longrightarrow> gopro_cmd_validator s c"
  by (rule validator_accepts) (auto simp: startup_query_list_def command_defs)

lemma publish_hw_info:
  assumes "gs_state (sys_state sys) = GP_STATE_CONNECTED" and "\<And>c. env_cmd_chan env c = OK"
  shows "snd (cmd_chan_pub env gopro_get_hw_info sys) = sys\<lparr>sys_cmd_queue := sys_cmd_queue sys @ [gopro_get_hw_info]\<rparr>"
  using assms by (simp add: cmd_chan_pub_def hw_info_accepted)

text \<open>After the discovery the handles and the connection stay, and no camera has just been paired.\<close>

definition same_camera :: "bt_gopro_client \<Rightarrow> bt_gopro_client \<Rightarrow> bool" where
  "same_camera gc gc' \<longleftrightarrow> gc_handles gc' = gc_handles gc \<and> gc_wifihandles gc' = gc_wifihandles gc \<and>
     gc_conn gc' = gc_conn gc \<and>
     (\<not> atomic_test_bit (gc_state gc) GP_FLAG_JUST_PAIRED \<longrightarrow> \<not> atomic_test_bit (gc_state gc') GP_FLAG_JUST_PAIRED)"

lemma same_refl [simp]: "same_camera gc gc"
  by (simp add: same_camera_def)

lemma same_trans: "same_camera a b \<Longrightarrow> same_camera b c \<Longrightarrow> same_camera a c"
  by (simp add: same_camera_def)

lemma same_get: "same_camera gc (snd (bt_gopro_client_get r h gc))"
  by (simp add: bt_gopro_client_get_def same_camera_def Let_def)

lemma same_subscribe: "same_camera g gc \<Longrightarrow> same_camera g (snd (gopro_set_subscribe s i gc))"
  by (auto simp: gopro_set_subscribe_def same_camera_def Let_def notif_enabled_flag_def)

lemma same_subscribe_all: "same_camera gc (subscribe_all s gc)"
  unfolding subscribe_all_def by (simp add: same_subscribe)

text \<open>\<open>n\<close> seconds without an answer.\<close>

fun poll_timeouts :: "gopro_env \<Rightarrow> bytes \<Rightarrow> (bt_gatt_read_params \<Rightarrow> cret) \<Rightarrow> (bt_gatt_subscribe_params \<Rightarrow> cret) \<Rightarrow>
    nat \<Rightarrow> ble \<Rightarrow> ble option" where
  "poll_timeouts env stk r s 0 b = Some b"
| "poll_timeouts env stk r s (Suc n) b = do {
     b \<leftarrow> finish_step env stk r s b;
     poll_timeouts env stk r s n b
   }"

lemma poll_round:
  assumes "b_finish_pc b = F_poll i" and "Suc i < 20" and "sys_hw_sem (b_sys b) = 0"
    and "gs_state (sys_state (b_sys b)) = GP_STATE_CONNECTED" and "\<And>c. env_cmd_chan env c = OK"
  shows "finish_step env stk r s b =
    Some (b\<lparr>b_sys := (b_sys b)\<lparr>sys_cmd_queue := sys_cmd_queue (b_sys b) @ [gopro_get_hw_info]\<rparr>, b_finish_pc := F_poll (Suc i)\<rparr>)"
  using assms by (simp add: finish_step_def finish_poll_def publish_def on_sys_def publish_hw_info)

lemma poll_rounds:
  assumes "b_finish_pc b = F_poll i" and "i + n < 20" and "sys_hw_sem (b_sys b) = 0"
    and "gs_state (sys_state (b_sys b)) = GP_STATE_CONNECTED" and "\<And>c. env_cmd_chan env c = OK"
  shows "poll_timeouts env stk r s n b =
    Some (b\<lparr>b_sys := (b_sys b)\<lparr>sys_cmd_queue := sys_cmd_queue (b_sys b) @ replicate n gopro_get_hw_info\<rparr>,
             b_finish_pc := F_poll (i + n)\<rparr>)"
  using assms(1-4)
proof (induction n arbitrary: b i)
  case 0
  then show ?case by (cases b) simp
next
  case (Suc n)
  let ?b = "b\<lparr>b_sys := (b_sys b)\<lparr>sys_cmd_queue := sys_cmd_queue (b_sys b) @ [gopro_get_hw_info]\<rparr>, b_finish_pc := F_poll (Suc i)\<rparr>"
  have "finish_step env stk r s b = Some ?b" using poll_round [of b i env] Suc.prems assms(5) by simp
  moreover have "poll_timeouts env stk r s n ?b =
      Some (?b\<lparr>b_sys := (b_sys ?b)\<lparr>sys_cmd_queue := sys_cmd_queue (b_sys ?b) @ replicate n gopro_get_hw_info\<rparr>,
             b_finish_pc := F_poll (Suc i + n)\<rparr>)"
    using Suc.prems by (intro Suc.IH) simp_all
  ultimately show ?case by simp
qed

lemma finish_end_queries:
  assumes "gs_state (sys_state (b_sys b)) = GP_STATE_CONNECTED" and "\<And>c. env_cmd_chan env c = OK"
    and "\<not> test_flag GP_FLAG_JUST_PAIRED (b_sys b)"
  shows "\<exists>b'. finish_end env stk b = Some b' \<and>
    sys_cmd_queue (b_sys b') = sys_cmd_queue (b_sys b) @ startup_query_list \<and>
    sys_state (b_sys b') = sys_state (b_sys b) \<and> b_finish_pc b' = F_idle \<and>
    \<not> test_flag GP_FLAG_FORCE_CONNECT (b_sys b') \<and> same_camera (sys_client (b_sys b)) (sys_client (b_sys b'))"
proof -
  have "sys_cmd_queue (pub_all (cmd_chan_pub env) startup_query_list (b_sys b)) =
      sys_cmd_queue (b_sys b) @ startup_query_list"
    using assms(1,2)
    by (intro cmd_chan.pub_all_accepted) (simp_all add: cmd_chan_pub_def startup_accepted)
  then show ?thesis
    using assms(3)
    by (simp add: finish_end_def finish_pairing_part_def Let_def clear_flag_def upd_client_def gp_simps test_flag_def
        same_camera_def)
qed

lemma subscribe_all_paired:
  "\<not> atomic_test_bit (gc_state gc) 1 \<Longrightarrow> \<not> atomic_test_bit (gc_state (subscribe_all s gc)) 1"
  using same_subscribe_all [of gc s] by (simp add: same_camera_def)

text \<open>
  From the password to the end: the LED is lit, the camera counts as connected, and the
  queue gets the hardware request once for each round of the poll loop and then the four
  startup queries, in this order.
\<close>

lemma finish_talks:
  assumes env: "\<And>c. env_cmd_chan env c = OK" and pc: "b_finish_pc b = F_pass" "0 < sys_read_sem (b_sys b)"
    and sem: "sys_hw_sem (b_sys b) = 0" and n: "n < 20"
    and paired: "\<not> test_flag GP_FLAG_JUST_PAIRED (b_sys b)"
  shows "\<exists>b1 b2 b3. finish_step env stk r s b = Some b1 \<and> poll_timeouts env stk r s n b1 = Some b2 \<and>
    finish_step env stk r s (on_sys (\<lambda>sys. sys\<lparr>sys_hw_sem := 1\<rparr>) b2) = Some b3 \<and>
    gs_state (sys_state (b_sys b3)) = GP_STATE_CONNECTED \<and> b_finish_pc b3 = F_idle \<and>
    sys_leds (b_sys b1) = snd (led_mode_set LED_NUM_BT LED_MODE_ON (sys_leds (b_sys b))) \<and>
    sys_cmd_queue (b_sys b3) = sys_cmd_queue (b_sys b) @ replicate (Suc n) gopro_get_hw_info @ startup_query_list"
proof -
  define sys1 where "sys1 = set_sate GP_STATE_CONNECTED (gopro_led_mode_set LED_NUM_BT LED_MODE_ON
    ((b_sys b)\<lparr>sys_read_sem := sys_read_sem (b_sys b) - 1, sys_client := subscribe_all s (sys_client (b_sys b))\<rparr>))"
  have s1: "gs_state (sys_state sys1) = GP_STATE_CONNECTED" "sys_hw_sem sys1 = 0"
    "sys_cmd_queue sys1 = sys_cmd_queue (b_sys b)" "\<not> test_flag GP_FLAG_JUST_PAIRED sys1"
    "sys_leds sys1 = snd (led_mode_set LED_NUM_BT LED_MODE_ON (sys_leds (b_sys b)))"
    using sem paired subscribe_all_paired [of "sys_client (b_sys b)" s]
    by (simp_all add: sys1_def gp_simps test_flag_def gopro_led_mode_set_def upd_state_def)
  let ?b1 = "b\<lparr>b_sys := sys1\<lparr>sys_cmd_queue := sys_cmd_queue sys1 @ [gopro_get_hw_info]\<rparr>, b_finish_pc := F_poll 0\<rparr>"
  let ?b2 = "?b1\<lparr>b_sys := (b_sys ?b1)\<lparr>sys_cmd_queue := sys_cmd_queue (b_sys ?b1) @ replicate n gopro_get_hw_info\<rparr>,
             b_finish_pc := F_poll (0 + n)\<rparr>"
  have step1: "finish_step env stk r s b = Some ?b1"
    using pc publish_hw_info [OF s1(1) env]
    by (simp add: finish_step_def finish_connected_def Let_def publish_def on_sys_def sys1_def)
  have step2: "poll_timeouts env stk r s n ?b1 = Some ?b2"
    using n s1(1,2) env by (intro poll_rounds) simp_all
  let ?b2' = "on_sys (\<lambda>sys. sys\<lparr>sys_hw_sem := 1\<rparr>) ?b2"
  let ?b2'' = "on_sys (\<lambda>sys. sys\<lparr>sys_hw_sem := sys_hw_sem sys - 1\<rparr>) ?b2'"
  obtain b3 where b3: "finish_end env stk ?b2'' = Some b3"
    "sys_cmd_queue (b_sys b3) = sys_cmd_queue (b_sys ?b2'') @ startup_query_list"
    "sys_state (b_sys b3) = sys_state (b_sys ?b2'')" "b_finish_pc b3 = F_idle"
    using finish_end_queries [of ?b2'' env stk] s1 env by (auto simp: test_flag_def)
  have "finish_step env stk r s ?b2' = Some b3"
    using b3(1) by (simp add: finish_step_def finish_poll_def)
  then show ?thesis
    using step1 step2 b3 s1 by (intro exI [of _ ?b1] exI [of _ ?b2] exI [of _ b3]) (simp add: replicate_app_Cons_same)
qed

text \<open>A camera that never answers: the loop gives up.\<close>

lemma poll_timeouts_snoc:
  "poll_timeouts env stk r s (Suc n) b = Option.bind (poll_timeouts env stk r s n b) (finish_step env stk r s)"
proof (induction n arbitrary: b)
  case 0
  then show ?case by (simp split: bind_split)
next
  case (Suc n)
  show ?case
  proof (cases "finish_step env stk r s b")
    case None
    then show ?thesis by simp
  next
    case (Some b1)
    have "poll_timeouts env stk r s (Suc (Suc n)) b = poll_timeouts env stk r s (Suc n) b1" using Some by simp
    also note Suc.IH [of b1]
    finally show ?thesis using Some by simp
  qed
qed

lemma poll_gives_up:
  assumes env: "\<And>c. env_cmd_chan env c = OK" and pc: "b_finish_pc b = F_poll 0" and sem: "sys_hw_sem (b_sys b) = 0"
    and st: "gs_state (sys_state (b_sys b)) = GP_STATE_CONNECTED" and paired: "\<not> test_flag GP_FLAG_JUST_PAIRED (b_sys b)"
  shows "\<exists>b'. poll_timeouts env stk r s 20 b = Some b' \<and> b_finish_pc b' = F_idle \<and>
    sys_cmd_queue (b_sys b') = sys_cmd_queue (b_sys b) @ replicate 19 gopro_get_hw_info @ startup_query_list"
proof -
  let ?b = "b\<lparr>b_sys := (b_sys b)\<lparr>sys_cmd_queue := sys_cmd_queue (b_sys b) @ replicate 19 gopro_get_hw_info\<rparr>,
              b_finish_pc := F_poll 19\<rparr>"
  have waits: "poll_timeouts env stk r s 19 b = Some ?b"
    using poll_rounds [OF pc _ sem st env, of 19] by simp
  obtain b' where b': "finish_end env stk ?b = Some b'" "b_finish_pc b' = F_idle"
    "sys_cmd_queue (b_sys b') = sys_cmd_queue (b_sys ?b) @ startup_query_list"
    using finish_end_queries [of ?b env stk] st env paired by (auto simp: test_flag_def)
  have "finish_step env stk r s ?b = Some b'"
    using b'(1) sem by (simp add: finish_step_def finish_poll_def)
  then have "poll_timeouts env stk r s (Suc 19) b = Some b'"
    unfolding poll_timeouts_snoc waits by simp
  then show ?thesis using b'(2,3) by (intro exI [of _ b']) simp
qed

subsection \<open>Choosing the filters\<close>

text \<open>
  With room for one address, the first bonded device that is not connected is looked for,
  and every later one is refused; without such a device the camera's service is.
\<close>

lemma fold_add_full:
  assumes "length (sf_addr (bs_filters bs)) = sc_addr_cnt cfg"
  shows "fold (try_add_address_filter cfg) bonds (m, bs) = (m, bs)"
  using assms
  by (induction bonds) (auto simp: try_add_address_filter_def scan_addr_filter_add_def Let_def)

lemma fold_add_first:
  assumes "sf_addr (bs_filters bs) = []" and "sc_addr_cnt cfg = 1"
  shows "fold (try_add_address_filter cfg) bonds (m, bs) =
    (case find (\<lambda>b. \<not> snd b) bonds of None \<Rightarrow> (m, bs)
     | Some b \<Rightarrow> (m OR BT_SCAN_ADDR_FILTER, upd_filters (sf_addr_update (\<lambda>_. [fst b])) bs))"
proof (induction bonds)
  case Nil
  show ?case by simp
next
  case (Cons b bonds)
  show ?case
  proof (cases "snd b")
    case True
    then have "try_add_address_filter cfg b (m, bs) = (m, bs)"
      by (simp add: try_add_address_filter_def split_beta)
    then show ?thesis using Cons True by simp
  next
    case False
    have "try_add_address_filter cfg b (m, bs) =
        (m OR BT_SCAN_ADDR_FILTER, upd_filters (sf_addr_update (\<lambda>_. [fst b])) bs)"
      using False assms
      by (simp add: try_add_address_filter_def split_beta scan_addr_filter_add_def Let_def upd_filters_def)
    moreover have "fold (try_add_address_filter cfg) bonds (m', upd_filters (sf_addr_update (\<lambda>_. [fst b])) bs) =
        (m', upd_filters (sf_addr_update (\<lambda>_. [fst b])) bs)" for m'
      by (rule fold_add_full) (simp add: assms(2))
    ultimately show ?thesis using False by simp
  qed
qed

definition only_filter :: "u8 \<Rightarrow> bt_scan_filters \<Rightarrow> bool" where
  "only_filter mode f \<longleftrightarrow>
     sf_addr_enabled f = (mode = BT_SCAN_ADDR_FILTER) \<and> sf_uuid_enabled f = (mode = BT_SCAN_UUID_FILTER) \<and>
     \<not> sf_name_enabled f \<and> \<not> sf_short_enabled f \<and> \<not> sf_appearance_enabled f \<and> \<not> sf_md_enabled f \<and>
     \<not> sf_all_mode f"

lemma enable_only:
  assumes "mode = BT_SCAN_ADDR_FILTER \<or> mode = BT_SCAN_UUID_FILTER"
  shows "\<exists>bs'. bt_scan_filter_enable mode False bs = (OK, bs') \<and> only_filter mode (bs_filters bs') \<and>
    sf_addr (bs_filters bs') = sf_addr (bs_filters bs) \<and> sf_uuid (bs_filters bs') = sf_uuid (bs_filters bs)"
proof -
  have c: "check_filter_mode mode" using assms by (auto simp: check_filter_mode_def)
  obtain r bs' where e: "bt_scan_filter_enable mode False bs = (r, bs')" by force
  note f = filter_enable_flags [OF c e]
  have b: "bit (2 :: u8) 0 = False" "bit (2 :: u8) 1" "bit (2 :: u8) 2 = False" "bit (2 :: u8) 3 = False"
    "bit (2 :: u8) 4 = False" "bit (2 :: u8) 5 = False" "bit (4 :: u8) 0 = False" "bit (4 :: u8) 1 = False"
    "bit (4 :: u8) 2" "bit (4 :: u8) 3 = False" "bit (4 :: u8) 4 = False" "bit (4 :: u8) 5 = False"
    by (simp_all add: bit_numeral_rec(1) bit_iff_odd)
  show ?thesis
  proof (cases "mode = BT_SCAN_ADDR_FILTER")
    case True
    then show ?thesis using f e b by (simp add: only_filter_def)
  next
    case False
    then have "mode = BT_SCAN_UUID_FILTER" using assms by simp
    then show ?thesis using f e b by (simp add: only_filter_def)
  qed
qed

lemma scan_prepare_filters:
  assumes cnt: "sc_addr_cnt (bc_scan cfg) = 1" "0 < sc_uuid_cnt (bc_scan cfg)"
  shows "\<exists>bs'. scan_prepare cfg bonds bs = (OK, bs') \<and>
    (case find (\<lambda>b. \<not> snd b) bonds of
       None \<Rightarrow> only_filter BT_SCAN_UUID_FILTER (bs_filters bs') \<and> sf_uuid (bs_filters bs') = [BT_UUID_GOPRO_SERVICE]
     | Some b \<Rightarrow> only_filter BT_SCAN_ADDR_FILTER (bs_filters bs') \<and> sf_addr (bs_filters bs') = [fst b])"
proof (cases "find (\<lambda>b. \<not> snd b) bonds")
  case None
  let ?bs = "upd_filters (sf_uuid_update (\<lambda>l. l @ [BT_UUID_GOPRO_SERVICE])) (bt_scan_filter_remove_all bs)"
  have "scan_prepare cfg bonds bs = bt_scan_filter_enable BT_SCAN_UUID_FILTER False ?bs"
    using None cnt
    by (simp add: scan_prepare_def fold_add_first bt_scan_filter_remove_all_def scan_uuid_filter_add_def Let_def)
  moreover have "sf_uuid (bs_filters ?bs) = [BT_UUID_GOPRO_SERVICE]" by (simp add: bt_scan_filter_remove_all_def)
  ultimately show ?thesis using enable_only [of BT_SCAN_UUID_FILTER ?bs] None by auto
next
  case (Some b)
  let ?bs = "upd_filters (sf_addr_update (\<lambda>_. [fst b])) (bt_scan_filter_remove_all bs)"
  have "scan_prepare cfg bonds bs = bt_scan_filter_enable BT_SCAN_ADDR_FILTER False ?bs"
    using Some cnt
    by (simp add: scan_prepare_def fold_add_first bt_scan_filter_remove_all_def Let_def)
  then show ?thesis using enable_only [of BT_SCAN_ADDR_FILTER ?bs] Some by auto
qed

text \<open>Preparing a scan changes nothing but the filters.\<close>

definition filters_only :: "bt_scan \<Rightarrow> bt_scan \<Rightarrow> bool" where
  "filters_only bs bs' \<longleftrightarrow> (\<exists>f. bs' = bs\<lparr>bs_filters := f\<rparr>)"

lemma filters_only_refl [simp]: "filters_only bs bs"
  by (auto simp: filters_only_def intro!: exI [of _ "bs_filters bs"])

lemma filters_only_upd [simp]: "filters_only bs (upd_filters f bs)"
  by (auto simp: filters_only_def upd_filters_def)

lemma filters_only_trans: "filters_only a b \<Longrightarrow> filters_only b c \<Longrightarrow> filters_only a c"
  by (auto simp: filters_only_def)

lemma filters_only_add:
  "filters_only bs (snd (scan_addr_filter_add cfg a bs))" "filters_only bs (snd (scan_uuid_filter_add ue cfg u bs))"
  "filters_only bs (snd (bt_scan_filter_enable mode m bs))" "filters_only bs (bt_scan_filter_remove_all bs)"
  by (simp_all add: scan_addr_filter_add_def scan_uuid_filter_add_def bt_scan_filter_enable_def
      bt_scan_filter_disable_def bt_scan_filter_remove_all_def Let_def)
     (auto simp: filters_only_def upd_filters_def)

lemma filters_only_bonds: "filters_only bs (snd (fold (try_add_address_filter cfg) bonds (m, bs)))"
proof (induction bonds arbitrary: m bs)
  case (Cons b bonds)
  have "filters_only bs (snd (try_add_address_filter cfg b (m, bs)))"
    using filters_only_add(1) [of bs cfg "fst b"] by (auto simp: try_add_address_filter_def split_beta)
  then show ?case
    using Cons.IH [of "snd (try_add_address_filter cfg b (m, bs))" "fst (try_add_address_filter cfg b (m, bs))"]
    by (auto intro: filters_only_trans)
qed simp

lemma scan_prepare_keeps: "filters_only bs (snd (scan_prepare cfg bonds bs))"
proof -
  obtain mode s where s: "fold (try_add_address_filter (bc_scan cfg)) bonds (0, bt_scan_filter_remove_all bs) = (mode, s)"
    by fastforce
  then have k: "filters_only bs s"
    using filters_only_trans [OF filters_only_add(4) filters_only_bonds [of "bt_scan_filter_remove_all bs" "bc_scan cfg" bonds 0]]
    by simp
  show ?thesis
    using filters_only_trans [OF k filters_only_add(2) [of s "bc_uuid cfg" "bc_scan cfg" BT_UUID_GOPRO_SERVICE]] filters_only_trans [OF k filters_only_add(3)]
      filters_only_trans [OF filters_only_trans [OF k filters_only_add(2) [of s "bc_uuid cfg" "bc_scan cfg" BT_UUID_GOPRO_SERVICE]]
        filters_only_add(3)]
    by (auto simp: scan_prepare_def s split_beta Let_def)
qed

lemma filters_only_reports:
  assumes "filters_only bs bs'"
  shows "listens i bs' = listens i bs" "scan_device_filter_check cfg bs' a = scan_device_filter_check cfg bs a"
    "bs_scan_param bs' = bs_scan_param bs" "bs_conn_param bs' = bs_conn_param bs" "bs_callbacks bs' = bs_callbacks bs"
    "bs_connect_if_match bs' = bs_connect_if_match bs"
  using assms by (auto simp: filters_only_def listens_def scan_device_filter_check_def blocklist_device_check_def)

text \<open>Which advertisements then count as the camera.\<close>

lemma adv_hit_only_addr:
  assumes "only_filter BT_SCAN_ADDR_FILTER f"
  shows "adv_hit ue cfg f d = Some False"
  using assms
  by (simp add: adv_hit_def only_filter_def Let_def is_name_filter_enabled_def is_short_name_filter_enabled_def
      is_uuid_filter_enabled_def is_appearance_filter_enabled_def is_manufacturer_data_filter_enabled_def)

lemma scan_bonded_camera:
  assumes cnt: "sc_addr_cnt (bc_scan cfg) = 1" "0 < sc_uuid_cnt (bc_scan cfg)"
    and b: "find (\<lambda>b. \<not> snd b) bonds = Some (a, c)"
  shows "\<exists>bs' evs. scan_prepare cfg bonds bs = (OK, bs') \<and>
    scan_recv (bc_uuid cfg) (bc_scan cfg) create x conn ads bs' = Some evs \<and>
    (\<forall>i. reports_match i evs \<longleftrightarrow> listens i bs \<and> scan_device_filter_check (bc_scan cfg) bs x \<and> x = a)"
proof -
  obtain bs' where p: "scan_prepare cfg bonds bs = (OK, bs')"
    and f: "only_filter BT_SCAN_ADDR_FILTER (bs_filters bs')" "sf_addr (bs_filters bs') = [a]"
    using scan_prepare_filters [OF cnt, of bonds bs] b by auto
  have k: "filters_only bs bs'" using scan_prepare_keeps [of bs cfg bonds] p by simp
  have h: "list_all2 (\<lambda>d h. adv_hit (bc_uuid cfg) (bc_scan cfg) (bs_filters bs') d = Some h) ads (map (\<lambda>_. False) ads)"
    by (simp add: list_all2_conv_all_nth adv_hit_only_addr [OF f(1)])
  have "addr_hit (bc_scan cfg) (bs_filters bs') x \<longleftrightarrow> x = a" "\<not> sf_all_mode (bs_filters bs')"
    using f cnt by (simp_all add: addr_hit_def is_addr_filter_enabled_def only_filter_def)
  then show ?thesis
    using scan_recv_hits [OF h, of create x conn] p by (auto simp: filters_only_reports [OF k])
qed

definition uuid_structure :: "bt_data \<Rightarrow> uuid_type option" where
  "uuid_structure d =
     (if bd_type d = 2 \<or> bd_type d = 3 then Some BT_UUID_TYPE_16
      else if bd_type d = 4 \<or> bd_type d = 5 then Some BT_UUID_TYPE_32
      else if bd_type d = 6 \<or> bd_type d = 7 then Some BT_UUID_TYPE_128 else None)"

lemma adv_hit_only_uuid:
  assumes "only_filter BT_SCAN_UUID_FILTER f" and "sf_uuid f = [u]" and "0 < sc_uuid_cnt cfg"
  shows "adv_hit ue cfg f d =
    (case uuid_structure d of None \<Rightarrow> Some False | Some ty \<Rightarrow> find_uuid ue (bd_data d) (bd_len d) ty u)"
proof -
  have l: "map_option (\<lambda>l. l \<noteq> []) (uuids_found ue False d ty [u]) = find_uuid ue (bd_data d) (bd_len d) ty u" for ty
    by (cases "find_uuid ue (bd_data d) (bd_len d) ty u") simp_all
  have off: "\<not> is_name_filter_enabled cfg f" "\<not> is_short_name_filter_enabled cfg f"
    "\<not> is_appearance_filter_enabled cfg f" "\<not> is_manufacturer_data_filter_enabled cfg f"
    "is_uuid_filter_enabled cfg f" "\<not> sf_all_mode f"
    using assms by (simp_all add: only_filter_def is_name_filter_enabled_def is_short_name_filter_enabled_def
      is_uuid_filter_enabled_def is_appearance_filter_enabled_def is_manufacturer_data_filter_enabled_def)
  consider "bd_type d \<in> {2, 3}" | "bd_type d \<in> {4, 5}" | "bd_type d \<in> {6, 7}" | "bd_type d \<notin> {2, 3, 4, 5, 6, 7}"
    by blast
  then show ?thesis
    using off assms(2) l
    by cases (auto simp: adv_hit_def uuid_structure_def Let_def simp del: uuids_found.simps)
qed

lemma scan_new_camera:
  assumes cnt: "sc_addr_cnt (bc_scan cfg) = 1" "0 < sc_uuid_cnt (bc_scan cfg)"
    and b: "\<forall>b \<in> set bonds. snd b"
    and ads: "list_all2 (\<lambda>d h. (case uuid_structure d of None \<Rightarrow> Some False
      | Some ty \<Rightarrow> find_uuid (bc_uuid cfg) (bd_data d) (bd_len d) ty BT_UUID_GOPRO_SERVICE) = Some h) ads hs"
  shows "\<exists>bs' evs. scan_prepare cfg bonds bs = (OK, bs') \<and>
    scan_recv (bc_uuid cfg) (bc_scan cfg) create x conn ads bs' = Some evs \<and>
    (\<forall>i. reports_match i evs \<longleftrightarrow> listens i bs \<and> scan_device_filter_check (bc_scan cfg) bs x \<and> True \<in> set hs)"
proof -
  have "find (\<lambda>b. \<not> snd b) bonds = None" using b by (auto simp: find_None_iff)
  then obtain bs' where p: "scan_prepare cfg bonds bs = (OK, bs')"
    and f: "only_filter BT_SCAN_UUID_FILTER (bs_filters bs')" "sf_uuid (bs_filters bs') = [BT_UUID_GOPRO_SERVICE]"
    using scan_prepare_filters [OF cnt, of bonds bs] by auto
  have k: "filters_only bs bs'" using scan_prepare_keeps [of bs cfg bonds] p by simp
  have h: "list_all2 (\<lambda>d h. adv_hit (bc_uuid cfg) (bc_scan cfg) (bs_filters bs') d = Some h) ads hs"
    unfolding adv_hit_only_uuid [OF f cnt(2)] by (rule ads)
  have "\<not> addr_hit (bc_scan cfg) (bs_filters bs') x" "\<not> sf_all_mode (bs_filters bs')"
    using f by (simp_all add: addr_hit_def is_addr_filter_enabled_def only_filter_def)
  then show ?thesis
    using scan_recv_hits [OF h, of create x conn] p by (auto simp: filters_only_reports [OF k])
qed

subsection \<open>The camera's advertised state\<close>

lemma eir_state:
  assumes d: "bd_type d = 255" "bd_len d = 14" "rd (bd_data d) 3 = Some st"
  shows "\<exists>b'. eir_found stop create d b = Some b' \<and>
    gs_state (sys_state (b_sys b')) =
      (if st = 0 then GP_STATE_OFFLINE else if st = 1 then GP_STATE_ONLINE
       else if st = 5 then GP_STATE_PAIRING else gs_state (sys_state (b_sys b))) \<and>
    (b_default_conn b' \<noteq> b_default_conn b \<longrightarrow>
       st = 1 \<or> st = 5 \<or> st = 0 \<and> test_flag GP_FLAG_FORCE_CONNECT (b_sys b))"
  using d
  by (simp add: eir_found_def ble_connect_def bt_scan_stop_def Let_def split_beta gp_simps test_flag_def)

subsection \<open>The device's address\<close>

text \<open>
  The identifier's length is kept in eight bits, so an error code counts as a length, and
  the copy then starts behind the buffer.
\<close>

lemma hw_addr_eq:
  "hw_static_addr ret hw_id =
    (if unat (word_of_int ret :: u8) = 0 then Some default_le_addr
     else map_option (\<lambda>v. default_le_addr\<lparr>addr_val := v\<rparr>) (rd_block hw_id (unat (word_of_int ret :: u8) - 6) 6))"
proof -
  define n where "n = (word_of_int ret :: u8)"
  have s: "unat (if 6 < n then n - 6 else 0) = unat n - 6"
    by (cases "6 < n") (simp_all add: unat_sub word_le_nat_alt word_less_nat_alt)
  have z: "0 < n \<longleftrightarrow> unat n \<noteq> 0" by (simp add: word_less_nat_alt)
  show ?thesis
    unfolding hw_static_addr_def n_def [symmetric] Let_def s z
    by (cases "rd_block hw_id (unat n - 6) 6") simp_all
qed

lemma hw_addr_defined:
  assumes "length hw_id = 10"
  shows "hw_static_addr ret hw_id = None \<longleftrightarrow> 10 < unat (word_of_int ret :: u8)"
  using assms unfolding hw_addr_eq by (simp add: rd_block_def) linarith

lemma hw_addr_last_bytes:
  assumes "length hw_id = 10" and "6 \<le> k" and "k \<le> 10"
  shows "hw_static_addr (int k) hw_id = Some (default_le_addr\<lparr>addr_val := take 6 (drop (k - 6) hw_id)\<rparr>)"
proof -
  have "unat (word_of_int (int k) :: u8) = k" using assms(3) by (simp add: unat_of_nat)
  then show ?thesis using assms unfolding hw_addr_eq by simp
qed

end
