(* ===== verification/Ble_Steps.thy ===== *)
theory Ble_Steps
  imports Discovery
begin

section \<open>The Bluetooth side as a whole\<close>

text \<open>
  The work items, callbacks and threads of the Bluetooth side as the steps of one
  transition system, in any order the kernel and the Bluetooth stack may run them in. Each
  step is one of the handlers of the other theories with any answers of the stack. The
  states that can be reached are those of the firmware from \<^verbatim>\<open>gopro_bt_start\<close> on, which
  \<^verbatim>\<open>main\<close> calls after the LEDs have been set up.
\<close>

subsection \<open>Steps\<close>

inductive ble_step :: "ble_cfg \<Rightarrow> dm_cfg \<Rightarrow> ble \<Rightarrow> ble \<Rightarrow> bool" for cfg dmc where
  start_work: "b_start_work b \<Longrightarrow> ble_step cfg dmc b (discovery_start_work_handler ans b)"
| dm_report: "dm_active (b_dm b) \<Longrightarrow> discovery_callback dmc conn attr (b_dm b) = Some (it, ev, di) \<Longrightarrow>
    discovery_cb ev (b\<lparr>b_dm := di\<rparr>) = Some b' \<Longrightarrow> ble_step cfg dmc b b'"
| dm_work: "di_work (b_dm b) \<Longrightarrow> gatt_discover_work ans (b_dm b) = (ev, di) \<Longrightarrow>
    discovery_cb ev (b\<lparr>b_dm := di\<rparr>) = Some b' \<Longrightarrow> ble_step cfg dmc b b'"
| finish: "length stk = 20 \<Longrightarrow> finish_step (bc_env cfg) stk gatt_read gatt_subscribe b = Some b' \<Longrightarrow>
    ble_step cfg dmc b b'"
| scan_work: "b_scan_work b = Some ms \<Longrightarrow> ble_step cfg dmc b (scan_work_handler cfg stop start bonds b)"
| advert: "scan_recv (bc_uuid cfg) (bc_scan cfg) ans a c ads (b_scan b) = Some evs \<Longrightarrow>
    Ev_filter_match i m c' \<in> set evs \<Longrightarrow> scan_filter_match stop create a ads b = Some b' \<Longrightarrow> ble_step cfg dmc b b'"
| scan_connects: "scan_recv (bc_uuid cfg) (bc_scan cfg) ans a c ads (b_scan b) = Some evs \<Longrightarrow>
    Ev_connecting i \<in> set evs \<Longrightarrow> ble_step cfg dmc b (scan_connecting conn b)"
| scan_connect_fails: "scan_recv (bc_uuid cfg) (bc_scan cfg) ans a c ads (b_scan b) = Some evs \<Longrightarrow>
    Ev_connecting_error i \<in> set evs \<Longrightarrow> ble_step cfg dmc b (scan_connecting_error b)"
| attempt: "sc_attempts (bc_scan cfg) \<Longrightarrow>
    ble_step cfg dmc b (b\<lparr>b_scan := attempts_connected (bc_scan cfg) a err (b_scan b)\<rparr>)"
| attempt_ends: "sc_attempts (bc_scan cfg) \<Longrightarrow>
    ble_step cfg dmc b (b\<lparr>b_scan := attempts_disconnected (bc_scan cfg) a (b_scan b)\<rparr>)"
| connected_cb: "ble_step cfg dmc b (connected ans conn err b)"
| disconnected_cb: "ble_step cfg dmc b (disconnected conn b)"
| security_cb: "ble_step cfg dmc b (snd (security_changed conn serr b))"
| paired: "ble_step cfg dmc b (pairing_complete b)"
| idle: "led_idle_timer_fire (b_sys b) = Some sys \<Longrightarrow> ble_step cfg dmc b (b\<lparr>b_sys := sys\<rparr>)"
| command: "gopro_cmd_subscriber_step (bc_env cfg) gatt_write sent (b_sys b) = Some (r, sys) \<Longrightarrow>
    ble_step cfg dmc b (b\<lparr>b_sys := sys\<rparr>)"
| notify: "length stk = 20 \<Longrightarrow> length stk' = 20 \<Longrightarrow>
    on_notify_received (bc_env cfg) stk stk' k data (b_sys b) = Some (it, sys) \<Longrightarrow>
    ble_step cfg dmc b (b\<lparr>b_sys := sys\<rparr>)"
| read_ssid: "on_read_ssid rerr h src (b_sys b) = Some sys \<Longrightarrow> ble_step cfg dmc b (b\<lparr>b_sys := sys\<rparr>)"
| read_pass: "on_read_pass rerr h src (b_sys b) = Some sys \<Longrightarrow> ble_step cfg dmc b (b\<lparr>b_sys := sys\<rparr>)"
| user: "wf_cmd c \<Longrightarrow> ble_step cfg dmc b (publish (bc_env cfg) c b)"

definition ble_initial :: "dm_cfg \<Rightarrow> ble \<Rightarrow> bool" where
  "ble_initial dmc b \<longleftrightarrow>
     wf_sys (b_sys b) \<and> wf_client (sys_client (b_sys b)) \<and> gs_state (sys_state (b_sys b)) = GP_STATE_UNKNOWN \<and>
     b_uuid_index b = 0 \<and> dm_wf dmc (b_dm b) \<and> \<not> di_locked (b_dm b) \<and>
     \<not> b_start_work b \<and> \<not> b_finish_work b \<and> b_finish_pc b = F_idle \<and>
     sys_cmd_queue (b_sys b) = [] \<and> sys_can_reply_sem (b_sys b) = 1 \<and> sys_can_tx (b_sys b) = []"

inductive ble_reachable :: "ble_cfg \<Rightarrow> dm_cfg \<Rightarrow> ble \<Rightarrow> bool" for cfg dmc where
  boot: "ble_initial dmc b \<Longrightarrow>
    gopro_bt_start cfg hw auth info idc en (on_sys gopro_leds_init b) = Some (r, b') \<Longrightarrow>
    ble_reachable cfg dmc b'"
| step: "ble_reachable cfg dmc b \<Longrightarrow> ble_step cfg dmc b b' \<Longrightarrow> ble_reachable cfg dmc b'"

subsection \<open>What a handler may do to the system\<close>

definition link_ok :: "gopro_sys \<Rightarrow> gopro_sys \<Rightarrow> bool" where
  "link_ok sys sys' \<longleftrightarrow>
     (wf_sys sys \<longrightarrow> wf_sys sys') \<and> (wf_client (sys_client sys) \<longrightarrow> wf_client (sys_client sys')) \<and>
     (gs_state (sys_state sys') = GP_STATE_CONNECTED \<longrightarrow> gs_state (sys_state sys) = GP_STATE_CONNECTED) \<and>
     pending_from sys sys' \<and> reply_slots sys' \<le> reply_slots sys"

named_theorems link_intros

lemma link_refl [simp, link_intros]: "link_ok sys sys"
  by (simp add: link_ok_def)

lemma link_trans: "link_ok a b \<Longrightarrow> link_ok b c \<Longrightarrow> link_ok a c"
  using pending_trans [of a b c] by (simp add: link_ok_def)

lemma link_handler: "handler_ok sys sys' \<Longrightarrow> link_ok sys sys'"
  by (simp add: handler_ok_def link_ok_def)

lemma link_led [link_intros]: "link_ok sys (gopro_led_mode_set n m sys)"
  using led_mode_set_wf [of "sys_leds sys" n m] by (simp add: link_ok_def gopro_led_mode_set_def wf_sys_def)

lemma link_timer [link_intros]: "link_ok sys (led_idle_timer_start e sys)"
  by (simp add: link_ok_def led_idle_timer_start_def wf_sys_def)

lemma link_sate [link_intros]:
  "st \<noteq> GP_STATE_CONNECTED \<Longrightarrow> st \<noteq> GP_STATE_END \<Longrightarrow> link_ok sys (set_sate st sys)"
  by (simp add: link_ok_def upd_state_def wf_sys_def wf_state_def)

lemma link_addr [link_intros]: "link_ok sys (upd_state (\<lambda>s. snd (gopro_client_set_device_addr a s)) sys)"
  by (simp add: link_ok_def upd_state_def gopro_client_set_device_addr_def wf_sys_def wf_state_def)

lemma link_flags [link_intros]: "link_ok sys (set_flag n sys)" "link_ok sys (clear_flag n sys)"
  by (simp_all add: link_ok_def set_flag_def clear_flag_def upd_client_def wf_sys_def wf_client_def)

lemma link_client:
  "(wf_client (sys_client sys) \<Longrightarrow> wf_client gc) \<Longrightarrow> link_ok sys (sys\<lparr>sys_client := gc\<rparr>)"
  by (simp add: link_ok_def wf_sys_def)

lemma link_sems [simp]:
  "link_ok sys (sys\<lparr>sys_read_sem := n\<rparr>)" "link_ok sys (sys\<lparr>sys_write_sem := n\<rparr>)"
  "link_ok sys (sys\<lparr>sys_hw_sem := sys_hw_sem sys - 1\<rparr>)" "link_ok sys (sys\<lparr>sys_hw_sem := sys_hw_sem sys - Suc 0\<rparr>)"
  by (auto simp: link_ok_def wf_sys_def)

lemma link_pub [link_intros]: "wf_cmd c \<Longrightarrow> link_ok sys (snd (cmd_chan_pub env c sys))"
  by (rule link_handler, rule handler_ok_pub)

lemma link_setname:
  assumes "gopro_client_setname nm len (sys_state sys) = Some (r, s)"
  shows "link_ok sys (sys\<lparr>sys_state := s\<rparr>)"
proof -
  have "gs_state s = gs_state (sys_state sys)"
    using assms
    by (auto simp: gopro_client_setname_def bind_eq_Some_conv store_field_def split: if_split_asm option.splits)
  then show ?thesis
    using setname_wf [OF _ assms] by (simp add: link_ok_def wf_sys_def)
qed

lemma link_idle: "led_idle_timer_fire sys = Some sys' \<Longrightarrow> link_ok sys sys'"
  by (auto simp: led_idle_timer_fire_def led_idle_handler_result link_ok_def wf_sys_def wf_state_def wf_leds_def
      split: if_split_asm dest!: set_update_subset_insert [THEN subsetD])

lemma link_read:
  assumes "read_wifi_string get put i rerr h src sys = Some sys'"
    and "\<And>s s' src j n. wf_state s \<Longrightarrow> store_field get put s src j n = Some s' \<Longrightarrow> wf_state s'"
    and "\<And>v s. gs_state (put v s) = gs_state s" and "\<And>s. wf_state s \<Longrightarrow> wf_state (put (replicate 20 0) s)"
  shows "link_ok sys sys'"
proof -
  let ?s = "sys\<lparr>sys_read_sem := k_sem_give 1 (sys_read_sem sys)\<rparr>"
  consider "sys' = ?s" | s' where "sys' = ?s\<lparr>sys_state := s'\<rparr>"
      "store_field get put (put (replicate 20 0) (sys_state sys)) src 0 (wifi_str_size (length src)) = Some s'"
    using assms(1) by (auto simp: read_wifi_string_def Let_def bind_eq_Some_conv split: if_split_asm)
  then show ?thesis
  proof cases
    case 1
    then show ?thesis by simp
  next
    case (2 s')
    have "gs_state s' = gs_state (sys_state sys)"
      using 2(2) assms(3) by (auto simp: store_field_def)
    then show ?thesis
      using assms(2) [OF assms(4) 2(2)] by (simp add: 2(1) link_ok_def wf_sys_def)
  qed
qed

lemma link_read_ssid: "on_read_ssid rerr h src sys = Some sys' \<Longrightarrow> link_ok sys sys'"
  unfolding on_read_ssid_def
  by (erule link_read [OF _ wifi_ssid_f.store_wf]) (simp_all add: wf_state_def)

lemma link_read_pass: "on_read_pass rerr h src sys = Some sys' \<Longrightarrow> link_ok sys sys'"
  unfolding on_read_pass_def
  by (erule link_read [OF _ wifi_pass_f.store_wf]) (simp_all add: wf_state_def)

lemma link_notify:
  assumes "on_notify_received env stk stk' k data sys = Some (it, sys')"
    and "alloc_ok env" and "length stk' = 20" and "wf_sys sys"
  shows "link_ok sys sys'"
  using notify_link [OF assms] by (simp add: link_ok_def same_link_def)

subsection \<open>The command thread\<close>

lemma link_ctrl:
  assumes "gopro_ctrl_parse env c sys = Some (r, u, sys')"
  shows "link_ok sys sys'"
  using assms
  by (auto simp: gopro_ctrl_parse_def bind_eq_Some_conv link_handler handler_ok_can_reply
      link_flags [unfolded set_flag_def] split: if_split_asm)

lemma link_sent: "link_ok sys (on_sent_data e k sys)"
proof (cases "sent_flag (sys_client sys) (write_handle (sys_client sys) k)")
  case (Some f)
  have "link_ok sys (clear_flag f sys)" by (rule link_flags)
  then show ?thesis
    using Some by (auto intro: link_trans simp: on_sent_data_def clear_flag_def)
qed (simp add: on_sent_data_def)

lemma link_command:
  assumes "gopro_cmd_subscriber_step env w sent sys = Some (r, sys')"
  shows "\<exists>c q. sys_cmd_queue sys = c # q \<and> link_ok (sys\<lparr>sys_cmd_queue := q\<rparr>) sys'"
proof -
  obtain c q where q: "sys_cmd_queue sys = c # q"
    using assms by (auto simp: gopro_cmd_subscriber_step_def split: list.splits)
  let ?sys = "sys\<lparr>sys_cmd_queue := q\<rparr>"
  obtain rc u s1 where c: "gopro_ctrl_parse env c (sys\<lparr>sys_cmd_queue := q\<rparr>) = Some (rc, u, s1)"
    using assms q by (auto simp: gopro_cmd_subscriber_step_def bind_eq_Some_conv)
  have l1: "link_ok ?sys s1" by (rule link_ctrl [OF c])
  have "link_ok ?sys sys'"
  proof (cases "rc = 1")
    case True
    then show ?thesis using assms q c l1 by (simp add: gopro_cmd_subscriber_step_def)
  next
    case False
    define s2 where "s2 = s1\<lparr>sys_client := snd (bt_gopro_client_send w c (sys_client s1))\<rparr>"
    define s3 where "s3 = (case sent of None \<Rightarrow> s2 | Some (e, k) \<Rightarrow> on_sent_data e k s2)"
    have "link_ok s1 s2" unfolding s2_def by (rule link_client) (rule send_wf)
    then have "link_ok ?sys s3" unfolding s3_def using l1 link_sent link_trans by (auto split: option.split)
    moreover have "sys' = s3 \<or> sys' = s3\<lparr>sys_write_sem := sys_write_sem s3 - 1\<rparr>"
      using assms q c False
      by (cases sent) (auto simp: gopro_cmd_subscriber_step_def s2_def s3_def split_beta Let_def split: if_split_asm)
    ultimately show ?thesis using link_trans link_sems(2) by blast
  qed
  with q show ?thesis by blast
qed

subsection \<open>The client's tables\<close>

lemma assign_each_wf:
  assumes "\<And>k gc. wf_client gc \<Longrightarrow> wf_client (snd (f k gc))" and "wf_client gc"
  shows "wf_client (snd (assign_each f ks gc))"
  using assms(2)
proof (induction ks arbitrary: gc)
  case (Cons k ks)
  then show ?case using assms(1) [of gc k] by (simp add: split_beta)
qed simp

lemma assign_control_wf: "wf_client gc \<Longrightarrow> wf_client (snd (assign_control dm k gc))"
  using assign_control_frame [of k gc dm] by (simp add: same_but_def wf_client_def)

lemma assign_wifi_wf: "wf_client gc \<Longrightarrow> wf_client (snd (assign_wifi dm k gc))"
  by (auto simp: assign_wifi_def wf_client_def split: option.split)

lemma with_service_wf:
  assumes "with_service dm u f gc = Some (err, gc')" and "wf_client gc"
    and "wf_client (snd (f gc))"
  shows "wf_client gc'"
  using assms
  by (auto simp: with_service_def bind_eq_Some_conv split_beta wf_client_def split: if_split_asm)

lemma handles_assign_wf:
  assumes a: "handles_assign dm gc = Some (err, gc')" and w: "wf_client gc"
  shows "wf_client gc'"
proof -
  have h: "wf_client (gc\<lparr>gc_handles := replicate 4 no_handles\<rparr>)" "wf_client (gc\<lparr>gc_wifihandles := replicate 4 0xFFFF\<rparr>)"
    "wf_client (set_handles k f gc)" for k f
    using w by (simp_all add: wf_client_def set_handles_def)
  consider "bt_gopro_handles_assign dm gc = Some (err, gc')" | "bt_gopro_wifi_handles_assign dm gc = Some (err, gc')"
    | "bt_gopro_net_handle_assign dm gc = Some (err, gc')" | "gc' = gc"
    using a by (auto simp: handles_assign_def bind_eq_Some_conv split: if_split_asm)
  then show ?thesis
  proof cases
    case 1
    then show ?thesis
      unfolding bt_gopro_handles_assign_def
      by (rule with_service_wf [OF _ w]) (intro assign_each_wf assign_control_wf h)
  next
    case 2
    then show ?thesis
      unfolding bt_gopro_wifi_handles_assign_def
      by (rule with_service_wf [OF _ w]) (intro assign_each_wf assign_wifi_wf h)
  next
    case 3
    then show ?thesis
      unfolding bt_gopro_net_handle_assign_def
      by (rule with_service_wf [OF _ w]) (intro assign_each_wf assign_control_wf h)
  qed (use w in simp)
qed

subsection \<open>The invariant\<close>

text \<open>
  \<open>n\<close> bounds the reply slots, so that the invariant for every \<open>n\<close> says that none is made.
\<close>

definition talking :: "ble \<Rightarrow> bool" where
  "talking b \<longleftrightarrow> gs_state (sys_state (b_sys b)) = GP_STATE_CONNECTED \<or> b_finish_work b \<or> b_finish_pc b \<noteq> F_idle \<or>
     (\<exists>c \<in> set (sys_cmd_queue (b_sys b)). cmd_type c \<noteq> 0xFF)"

definition ble_inv :: "dm_cfg \<Rightarrow> nat \<Rightarrow> ble \<Rightarrow> bool" where
  "ble_inv dmc n b \<longleftrightarrow>
     wf_sys (b_sys b) \<and> wf_client (sys_client (b_sys b)) \<and> dm_wf dmc (b_dm b) \<and> \<not> di_release (b_dm b) \<and>
     reply_slots (b_sys b) \<le> n \<and> unat (b_uuid_index b) \<le> 3 \<and> (talking b \<longrightarrow> unat (b_uuid_index b) = 3)"

lemma inv_link:
  assumes "ble_inv dmc n b" and "link_ok (b_sys b) (b_sys b')" and "b_dm b' = b_dm b"
    and "b_uuid_index b' = b_uuid_index b" and "b_finish_work b' = b_finish_work b" and "b_finish_pc b' = b_finish_pc b"
  shows "ble_inv dmc n b'"
  using assms by (auto simp: ble_inv_def talking_def link_ok_def pending_from_def)

lemma inv_sys: "ble_inv dmc n b \<Longrightarrow> link_ok (b_sys b) sys \<Longrightarrow> ble_inv dmc n (b\<lparr>b_sys := sys\<rparr>)"
  by (erule inv_link) simp_all

lemma inv_taken: "ble_inv dmc n b \<Longrightarrow> sys_cmd_queue (b_sys b) = c # q \<Longrightarrow>
    ble_inv dmc n (b\<lparr>b_sys := (b_sys b)\<lparr>sys_cmd_queue := q\<rparr>\<rparr>)"
  by (auto simp: ble_inv_def talking_def wf_sys_def)

lemma inv_on_sys: "ble_inv dmc n b \<Longrightarrow> (\<And>sys. link_ok sys (f sys)) \<Longrightarrow> ble_inv dmc n (on_sys f b)"
  by (erule inv_link) simp_all

lemma inv_other [simp]:
  "ble_inv dmc n (b\<lparr>b_default_conn := c\<rparr>) = ble_inv dmc n b" "ble_inv dmc n (b\<lparr>b_scan_work := w\<rparr>) = ble_inv dmc n b"
  "ble_inv dmc n (b\<lparr>b_start_work := s\<rparr>) = ble_inv dmc n b" "ble_inv dmc n (b\<lparr>b_scan := bs\<rparr>) = ble_inv dmc n b"
  by (simp_all add: ble_inv_def talking_def)

lemma inv_start_work:
  assumes "ble_inv dmc n b"
  shows "ble_inv dmc n (discovery_start_work_handler ans b)"
proof (cases "3 \<le> unat (b_uuid_index b)")
  case True
  then show ?thesis using assms by (simp add: discovery_skipped ble_inv_def talking_def)
next
  case False
  let ?u = "Some (uuid_list ! unat (b_uuid_index b))"
  obtain r dm where st: "bt_gatt_dm_start ans (b_default_conn b) ?u True (b_dm b) = (r, dm)" by force
  have d: "dm_wf dmc dm" using start_wf [OF _ st] assms by (simp add: ble_inv_def)
  have "\<not> di_release dm"
    using st assms by (auto simp: bt_gatt_dm_start_def Let_def ble_inv_def split: if_split_asm option.splits bt_uuid.splits)
  moreover have "unat (b_uuid_index b + 1) = unat (b_uuid_index b) + 1"
  proof -
    have "unat (b_uuid_index b) + 1 < 256" using False by simp
    then show ?thesis by (simp add: unat_word_ariths)
  qed
  ultimately show ?thesis
    using assms d False st
    by (auto simp: discovery_start_work_handler_def uuid_list_def Let_def ble_inv_def talking_def)
qed

lemma inv_discovery_cb:
  assumes inv: "ble_inv dmc n b" and di: "dm_wf dmc di" "event_ok ev di \<or> ev = None \<and> \<not> di_release di"
    and cb: "discovery_cb ev (b\<lparr>b_dm := di\<rparr>) = Some b'"
  shows "ble_inv dmc n b'"
proof -
  consider "ev = None" | "ev = Some Dm_completed" | "ev = Some Dm_not_found \<or> (\<exists>e. ev = Some (Dm_error e))"
    by (cases ev) (auto, metis dm_event.exhaust)
  then show ?thesis
  proof cases
    case 1
    then show ?thesis using inv di cb by (auto simp: discovery_cb_def ble_inv_def talking_def event_ok_def dm_active_def)
  next
    case 2
    then obtain err gc where a: "handles_assign (di_dm di) (sys_client (b_sys b)) = Some (err, gc)"
      and b': "b' = (on_sys (\<lambda>sys. sys\<lparr>sys_client := gc\<rparr>) (b\<lparr>b_dm := di\<rparr>))
         \<lparr>b_dm := snd (bt_gatt_dm_data_release di), b_start_work := True\<rparr>"
      using cb by (auto simp: discovery_cb_def gopro_discovery_complete_def bind_eq_Some_conv)
    have "wf_client gc" using handles_assign_wf [OF a] inv by (simp add: ble_inv_def)
    moreover have "\<not> di_release (snd (bt_gatt_dm_data_release di))"
      by (simp add: bt_gatt_dm_data_release_def svc_attr_memory_release_def)
    ultimately show ?thesis
      using inv release_wf [OF di(1)] by (simp add: b' ble_inv_def talking_def wf_sys_def)
  next
    case 3
    then have "\<not> di_release di" using di by (auto simp: event_ok_def dm_wf_def)
    then show ?thesis
      using 3 inv di(1) cb
      by (auto simp: discovery_cb_def discovery_service_not_found_def discovery_error_def ble_inv_def talking_def)
  qed
qed

definition wf_link :: "nat \<Rightarrow> gopro_sys \<Rightarrow> bool" where
  "wf_link n sys \<longleftrightarrow> wf_sys sys \<and> wf_client (sys_client sys) \<and> reply_slots sys \<le> n"

lemma wf_link_step: "wf_link n sys \<Longrightarrow> link_ok sys sys' \<Longrightarrow> wf_link n sys'"
  by (simp add: wf_link_def link_ok_def)

lemma wf_link_connected: "wf_link n sys \<Longrightarrow> wf_link n (set_sate GP_STATE_CONNECTED sys)"
  by (simp add: wf_link_def upd_state_def wf_sys_def wf_state_def)

lemma inv_discovered:
  assumes "ble_inv dmc n b" and "unat (b_uuid_index b) = 3" and "wf_link n (b_sys b')"
    and "b_dm b' = b_dm b" and "b_uuid_index b' = b_uuid_index b"
  shows "ble_inv dmc n b'"
  using assms by (simp add: ble_inv_def wf_link_def)

lemma subscribe_all_wf: "wf_client gc \<Longrightarrow> wf_client (subscribe_all s gc)"
  unfolding subscribe_all_def by (simp add: subscribe_wf)

lemma command_wf: "wf_cmd gopro_get_hw_info" "c \<in> set startup_query_list \<Longrightarrow> wf_cmd c"
  by (auto simp: wf_cmd_def startup_query_list_def command_defs)

lemma link_pub_all: "\<forall>c \<in> set cs. wf_cmd c \<Longrightarrow> link_ok sys (pub_all (cmd_chan_pub env) cs sys)"
proof (induction cs arbitrary: sys)
  case (Cons c cs)
  then show ?case using link_trans link_pub by (metis list.set_intros pub_all_simps(2))
qed simp

lemma finish_end_link:
  assumes "finish_end env stk b = Some b'" and "length stk = 20"
  shows "link_ok (b_sys b) (b_sys b') \<and> b_dm b' = b_dm b \<and> b_uuid_index b' = b_uuid_index b"
proof -
  obtain sys where p: "finish_pairing_part env stk (b_sys b) = Some sys"
    and b': "b' = b\<lparr>b_sys := clear_flag GP_FLAG_FORCE_CONNECT (pub_all (cmd_chan_pub env) startup_query_list sys),
                    b_finish_pc := F_idle\<rparr>"
    using assms(1) by (auto simp: finish_end_def bind_eq_Some_conv Let_def)
  have "link_ok (b_sys b) sys"
  proof (cases "test_flag GP_FLAG_JUST_PAIRED (b_sys b)")
    case True
    then obtain r where "gopro_finish_pairing env stk (clear_flag GP_FLAG_JUST_PAIRED (b_sys b)) = Some (r, sys)"
      using p by (auto simp: finish_pairing_part_def)
    from link_handler [OF handler_ok_finish_pairing [OF assms(2) this]] show ?thesis
      using link_trans link_flags(2) by blast
  qed (use p in \<open>simp add: finish_pairing_part_def\<close>)
  moreover have "link_ok sys (pub_all (cmd_chan_pub env) startup_query_list sys)"
    by (rule link_pub_all) (use command_wf(2) in blast)
  moreover have "link_ok s (clear_flag GP_FLAG_FORCE_CONNECT s)" for s by (rule link_flags(2))
  ultimately have "link_ok (b_sys b) (clear_flag GP_FLAG_FORCE_CONNECT (pub_all (cmd_chan_pub env) startup_query_list sys))"
    using link_trans by blast
  then show ?thesis by (simp add: b')
qed

lemma finish_end_wf:
  "finish_end env stk b = Some b' \<Longrightarrow> length stk = 20 \<Longrightarrow> wf_link n (b_sys b) \<Longrightarrow>
   wf_link n (b_sys b') \<and> b_dm b' = b_dm b \<and> b_uuid_index b' = b_uuid_index b"
  using finish_end_link [of env stk b b'] wf_link_step by blast

lemma finish_connected_sel:
  "b_dm (finish_connected env s b) = b_dm b" "b_uuid_index (finish_connected env s b) = b_uuid_index b"
  by (simp_all add: finish_connected_def Let_def publish_def del: set_sate_conn)

lemma finish_connected_sys:
  "b_sys (finish_connected env s b) = snd (cmd_chan_pub env gopro_get_hw_info (set_sate GP_STATE_CONNECTED
     (gopro_led_mode_set LED_NUM_BT LED_MODE_ON
       ((b_sys b)\<lparr>sys_read_sem := sys_read_sem (b_sys b) - 1, sys_client := subscribe_all s (sys_client (b_sys b))\<rparr>))))"
  by (simp add: finish_connected_def Let_def publish_def del: set_sate_conn)

lemma inv_finish:
  assumes inv: "ble_inv dmc n b" and f: "finish_step env stk r s b = Some b'" and stk: "length stk = 20"
  shows "ble_inv dmc n b'"
proof (cases "b_finish_pc b = F_idle \<and> \<not> b_finish_work b")
  case True
  then show ?thesis using inv f by (simp add: finish_step_def)
next
  case False
  then have i: "unat (b_uuid_index b) = 3" using inv by (auto simp: ble_inv_def talking_def)
  have w: "wf_link n (b_sys b)" using inv by (simp add: ble_inv_def wf_link_def)
  have sem: "wf_link n ((b_sys b)\<lparr>sys_hw_sem := sys_hw_sem (b_sys b) - 1\<rparr>)"
    using w wf_link_step link_sems(3) by blast
  have rd: "wf_link n ((b_sys b)\<lparr>sys_read_sem := m, sys_client := gc\<rparr>)" if "wf_client gc" for m gc
    using w that by (simp add: wf_link_def wf_sys_def)
  have gc: "wf_client (sys_client (b_sys b))" using w by (simp add: wf_link_def)
  have pub: "wf_link n (snd (cmd_chan_pub env gopro_get_hw_info sys))" if "wf_link n sys" for sys
    using that wf_link_step link_pub [OF command_wf(1)] by blast
  show ?thesis
  proof (cases "b_finish_pc b")
    case F_idle
    then have "b' = finish_begin r b" using f False by (simp add: finish_step_def)
    moreover have "wf_link n ((b_sys b)\<lparr>sys_client := snd (bt_gopro_client_get r (of_nat 0) (sys_client (b_sys b)))\<rparr>)"
      using w get_wf [OF gc, of r 0] by (simp add: wf_link_def wf_sys_def)
    ultimately show ?thesis by (intro inv_discovered [OF inv i]) (simp_all add: finish_begin_def)
  next
    case F_ssid
    then have "b' = b \<or> b' = finish_read_pass r b" using f by (auto simp: finish_step_def split: if_split_asm)
    then show ?thesis
      using inv rd [OF get_wf [OF gc]] by (auto intro!: inv_discovered [OF inv i] simp: finish_read_pass_def)
  next
    case F_pass
    then have "b' = b \<or> b' = finish_connected env s b" using f by (auto simp: finish_step_def split: if_split_asm)
    moreover have "wf_link n (b_sys (finish_connected env s b))"
    proof -
      let ?s0 = "(b_sys b)\<lparr>sys_read_sem := sys_read_sem (b_sys b) - 1, sys_client := subscribe_all s (sys_client (b_sys b))\<rparr>"
      have "wf_link n ?s0" by (rule rd) (rule subscribe_all_wf [OF gc])
      from wf_link_step [OF this link_led] have "wf_link n (gopro_led_mode_set LED_NUM_BT LED_MODE_ON ?s0)" .
      from pub [OF wf_link_connected [OF this]] show ?thesis by (simp only: finish_connected_sys)
    qed
    ultimately show ?thesis
      using inv inv_discovered [OF inv i _ finish_connected_sel] by metis
  next
    case (F_poll k)
    let ?b = "on_sys (\<lambda>sys. sys\<lparr>sys_hw_sem := sys_hw_sem sys - 1\<rparr>) b"
    have w': "wf_link n (b_sys ?b)" using sem by simp
    consider "finish_end env stk ?b = Some b'"
      | "finish_end env stk b = Some b'" | "b' = (publish env gopro_get_hw_info b)\<lparr>b_finish_pc := F_poll (Suc k)\<rparr>"
      using f unfolding finish_step_def finish_poll_def F_poll finish_pc.case
      by (metis option.inject)
    then show ?thesis
    proof cases
      case 1
      then show ?thesis using finish_end_wf [OF 1 stk w'] by (intro inv_discovered [OF inv i]) simp_all
    next
      case 2
      then show ?thesis using finish_end_wf [OF 2 stk w] by (intro inv_discovered [OF inv i]) simp_all
    next
      case 3
      then show ?thesis using pub [OF w] by (intro inv_discovered [OF inv i]) (simp_all add: publish_def)
    qed
  qed
qed

lemma inv_scan_work: "ble_inv dmc n b \<Longrightarrow> ble_inv dmc n (scan_work_handler cfg stop start bonds b)"
  by (auto simp: scan_work_handler_def Let_def split_beta intro!: inv_on_sys link_intros)

lemma inv_connect: "ble_inv dmc n b \<Longrightarrow> ble_inv dmc n (snd (ble_connect stop create b))"
  by (simp add: ble_connect_def split_beta)

lemma inv_eir:
  assumes "ble_inv dmc n b" and "eir_found stop create d b = Some b'"
  shows "ble_inv dmc n b'"
proof (cases "bd_type d = 9")
  case True
  then obtain r s where n: "gopro_client_setname (Some (bd_data d)) (bd_len d) (sys_state (b_sys b)) = Some (r, s)"
    and b': "b' = on_sys (\<lambda>sys. sys\<lparr>sys_state := s\<rparr>) b"
    using assms(2) by (auto simp: eir_found_def bind_eq_Some_conv)
  show ?thesis using inv_link [OF assms(1), of b'] link_setname [OF n] by (simp add: b')
next
  case False
  have sg: "ble_inv dmc n (on_sys (set_sate st) (on_sys (gopro_led_mode_set LED_NUM_BT m) b))"
    if "st \<noteq> GP_STATE_CONNECTED" "st \<noteq> GP_STATE_END" for st m
    by (intro inv_on_sys assms(1) link_led link_sate that)
  show ?thesis
    using False assms(2) sg [of GP_STATE_OFFLINE] sg [of GP_STATE_ONLINE] sg [of GP_STATE_PAIRING] assms(1)
    by (auto simp: eir_found_def bind_eq_Some_conv Let_def simp del: set_sate_conn split: if_split_asm intro: inv_connect)
qed

lemma inv_eir_parse: "eir_parse ans ads b = Some b' \<Longrightarrow> ble_inv dmc n b \<Longrightarrow> ble_inv dmc n b'"
  by (induction ans ads b rule: eir_parse.induct) (auto simp: bind_eq_Some_conv dest: inv_eir)

lemma inv_advert:
  assumes "ble_inv dmc n b" and "scan_filter_match stop create a ads b = Some b'"
  shows "ble_inv dmc n b'"
  using assms
  by (auto simp: scan_filter_match_def Let_def intro!: inv_on_sys link_intros elim!: inv_eir_parse)

lemma inv_callbacks:
  assumes "ble_inv dmc n b"
  shows "ble_inv dmc n (connected ans conn err b)" "ble_inv dmc n (disconnected conn b)"
    "ble_inv dmc n (snd (security_changed conn serr b))" "ble_inv dmc n (pairing_complete b)"
    "ble_inv dmc n (scan_connecting conn b)" "ble_inv dmc n (scan_connecting_error b)"
  using assms
  by (auto simp: connected_def scan_connecting_def scan_connecting_error_def disconnected_def security_changed_def pairing_complete_def gatt_discover_def Let_def
      simp del: set_sate_conn intro!: inv_on_sys link_intros)

lemma inv_scan: "ble_inv dmc n b \<Longrightarrow> ble_inv dmc n (b\<lparr>b_scan := bs\<rparr>)"
  by (simp add: ble_inv_def talking_def)

theorem ble_step_inv:
  assumes env: "alloc_ok (bc_env cfg)" and s: "ble_step cfg dmc b b'" and inv: "ble_inv dmc n b"
  shows "ble_inv dmc n b'"
  using s inv
proof (cases rule: ble_step.cases)
  case (dm_report conn attr it ev di)
  have "dm_wf dmc di \<and> event_ok ev di"
    using callback_event [OF dm_report(2) _ dm_report(1)] inv by (simp add: ble_inv_def)
  then show ?thesis using inv_discovery_cb [OF inv _ _ dm_report(3)] by blast
next
  case (dm_work ans ev di)
  have w: "dm_wf dmc (b_dm b)" "\<not> di_release (b_dm b)" using inv by (simp_all add: ble_inv_def)
  have "dm_wf dmc di" using work_wf [OF w, of ans] dm_work(2) by simp
  moreover have "event_ok ev di \<or> ev = None \<and> \<not> di_release di"
    using dm_work(2) w by (auto simp: gatt_discover_work_def discovery_complete_error_def event_ok_def Let_def split: if_split_asm)
  ultimately show ?thesis using inv_discovery_cb [OF inv _ _ dm_work(3)] by blast
next
  case (notify stk stk' k data it sys)
  have "wf_sys (b_sys b)" using inv by (simp add: ble_inv_def)
  with notify show ?thesis using inv_sys [OF inv] link_notify [OF notify(4) env] by simp
next
  case (command w sent r sys)
  obtain c q where "sys_cmd_queue (b_sys b) = c # q" "link_ok ((b_sys b)\<lparr>sys_cmd_queue := q\<rparr>) sys"
    using link_command [OF command(2)] by blast
  with command(1) show ?thesis using inv_sys [OF inv_taken [OF inv]] by simp
next
  case (user c)
  then show ?thesis using inv_on_sys [OF inv] link_pub by (simp add: publish_def)
qed (auto intro: inv_start_work inv_finish inv_scan_work inv_advert inv_callbacks inv_scan inv_sys link_idle
       link_read_ssid link_read_pass)

lemma reachable_inv:
  assumes "alloc_ok (bc_env cfg)" and "ble_reachable cfg dmc b"
  shows "ble_inv dmc 1 b"
  using assms(2)
proof (induction rule: ble_reachable.induct)
  case (boot b hw auth info idc en r b')
  have "ble_inv dmc 1 b"
    using boot(1) by (auto simp: ble_initial_def ble_inv_def talking_def dm_wf_def)
  then have "ble_inv dmc 1 (on_sys gopro_leds_init b)"
    by (rule inv_on_sys) (simp add: gopro_leds_init_def link_led)
  then show ?case
    using boot(2) by (auto simp: gopro_bt_start_def bind_eq_Some_conv Let_def split: if_split_asm)
next
  case (step b b')
  then show ?case using ble_step_inv [OF assms(1)] by blast
qed

subsection \<open>What can be reached\<close>

text \<open>Commands for the camera are accepted only when all three services have been asked for.\<close>

lemma accepted_discovered:
  assumes "alloc_ok (bc_env cfg)" and "ble_reachable cfg dmc b"
    and "gopro_cmd_validator (sys_state (b_sys b)) c" and "cmd_type c \<noteq> 0xFF"
  shows "unat (b_uuid_index b) = 3"
  using reachable_inv [OF assms(1,2)] validator_ble [OF assms(3,4)] by (simp add: ble_inv_def talking_def)

lemma callback_continues:
  "discovery_callback cfg conn r di = Some (BT_GATT_ITER_CONTINUE, e, d) \<Longrightarrow> e = None"
  by (auto simp: discovery_callback_def discovery_process_service_def discovery_process_attribute_def
      discovery_process_characteristic_def stop_with_def bind_eq_Some_conv Let_def
      split: if_split_asm discover_type.splits option.splits attr_user.splits)

lemma dm_same [simp]: "b\<lparr>b_dm := b_dm b\<rparr> = b"
  by (cases b) simp

lemma reach_feed:
  assumes "ble_reachable cfg dmc b" and "dm_active (b_dm b)" and "dm_wf dmc (b_dm b)"
    and "feed dmc conn rs (b_dm b) = Some (ev, di)" and "discovery_cb ev (b\<lparr>b_dm := di\<rparr>) = Some b'"
  shows "ble_reachable cfg dmc b'"
  using assms
proof (induction rs arbitrary: b)
  case Nil
  then show ?case by (auto simp: discovery_cb_def)
next
  case (Cons r rs)
  then obtain it e d where c: "discovery_callback dmc conn r (b_dm b) = Some (it, e, d)"
    by (auto simp: bind_eq_Some_conv)
  show ?case
  proof (cases it)
    case BT_GATT_ITER_STOP
    then have "discovery_cb e (b\<lparr>b_dm := d\<rparr>) = Some b'" using Cons.prems(4,5) c by simp
    from ble_step.dm_report [OF Cons.prems(2) c this] Cons.prems(1) show ?thesis
      by (rule ble_reachable.step [rotated])
  next
    case BT_GATT_ITER_CONTINUE
    have e: "e = None" using callback_continues c BT_GATT_ITER_CONTINUE by blast
    then have "discovery_cb e (b\<lparr>b_dm := d\<rparr>) = Some (b\<lparr>b_dm := d\<rparr>)" by (simp add: discovery_cb_def)
    from ble_step.dm_report [OF Cons.prems(2) c this] Cons.prems(1) have r: "ble_reachable cfg dmc (b\<lparr>b_dm := d\<rparr>)"
      by (rule ble_reachable.step [rotated])
    have "dm_wf dmc d \<and> dm_active d" using callback_event [OF c Cons.prems(3,2)] e by (simp add: event_ok_def)
    then show ?thesis using Cons.IH [OF r] Cons.prems(4,5) c BT_GATT_ITER_CONTINUE by simp
  qed
qed

lemma reach_rounds:
  assumes "ble_reachable cfg dmc b" and "dm_active (b_dm b)" and "dm_wf dmc (b_dm b)"
    and "discover_rounds dmc conn srv n (b_dm b) = Some (ev, di)" and "discovery_cb ev (b\<lparr>b_dm := di\<rparr>) = Some b'"
  shows "ble_reachable cfg dmc b'"
  using assms
proof (induction n arbitrary: b)
  case 0
  then show ?case by (auto simp: discovery_cb_def)
next
  case (Suc n)
  then obtain e d where f: "feed dmc conn (stack_reports srv (di_params (b_dm b))) (b_dm b) = Some (e, d)"
    by (auto simp: bind_eq_Some_conv)
  show ?case
  proof (cases "e \<noteq> None \<or> \<not> di_work d")
    case True
    then have "ev = e" "di = d" using Suc.prems(4) f by auto
    then show ?thesis using reach_feed [OF Suc.prems(1-3) f] Suc.prems(5) by simp
  next
    case False
    let ?d = "d\<lparr>di_work := False\<rparr>"
    have r: "ble_reachable cfg dmc (b\<lparr>b_dm := d\<rparr>)"
      by (rule reach_feed [OF Suc.prems(1-3) f]) (use False in \<open>simp add: discovery_cb_def\<close>)
    have a: "dm_wf dmc d" "dm_active d" using feed_event [OF f Suc.prems(3,2)] False by (simp_all add: event_ok_def)
    have w: "gatt_discover_work OK (b_dm (b\<lparr>b_dm := d\<rparr>)) = (None, ?d)"
      by (simp add: gatt_discover_work_def Let_def)
    have "discovery_cb None (b\<lparr>b_dm := d\<rparr>\<lparr>b_dm := ?d\<rparr>) = Some (b\<lparr>b_dm := ?d\<rparr>)" by (simp add: discovery_cb_def)
    from ble_step.dm_work [OF _ w this] False r have "ble_reachable cfg dmc (b\<lparr>b_dm := ?d\<rparr>)"
      by (auto intro: ble_reachable.step)
    then show ?thesis
      using Suc.IH [of "b\<lparr>b_dm := ?d\<rparr>"] Suc.prems(4,5) f False a w by (simp add: params_ok)
  qed
qed

text \<open>
  A submitted discovery of a service the camera has can run to its end: the handles are
  assigned and the next discovery is submitted.
\<close>

lemma service_reached:
  assumes reach: "ble_reachable cfg dmc b" "b_start_work b" and env: "alloc_ok (bc_env cfg)"
    and m: "mem_ok dmc" and i: "unat (b_uuid_index b) < 3" and free: "\<not> di_locked (b_dm b)"
    and srv: "sorted_wrt (<) (map ga_handle srv)" "\<forall>a \<in> set srv. 0 < ga_handle a"
    and svc: "filter (service_with (Some (uuid_list ! unat (b_uuid_index b)))) srv = svc # others"
      "ga_user svc = Service_val (uuid_list ! unat (b_uuid_index b)) e" "ga_handle svc \<le> e"
    and body: "values_ok (service_body srv (ga_handle svc) e)"
      "Suc (length (service_body srv (ga_handle svc) e)) \<le> dc_max_attrs dmc"
  shows "\<exists>b' err gc. ble_reachable cfg dmc b' \<and>
    handles_assign (service_dm (b_default_conn b) srv svc e) (sys_client (b_sys b)) = Some (err, gc) \<and>
    b_sys b' = (b_sys b)\<lparr>sys_client := gc\<rparr> \<and> b_uuid_index b' = b_uuid_index b + 1 \<and> b_start_work b' \<and>
    \<not> di_locked (b_dm b') \<and> b_default_conn b' = b_default_conn b \<and> b_finish_pc b' = b_finish_pc b"
proof -
  let ?b = "discovery_start_work_handler OK b"
  obtain di b' err gc where d: "discover_rounds dmc (b_default_conn b) srv 3 (b_dm ?b) = Some (Some Dm_completed, di)"
    and b': "gopro_discovery_complete (?b\<lparr>b_dm := di\<rparr>) = Some b'"
    and k: "handles_assign (service_dm (b_default_conn b) srv svc e) (sys_client (b_sys b)) = Some (err, gc)"
      "b_sys b' = (b_sys b)\<lparr>sys_client := gc\<rparr>" "b_uuid_index b' = b_uuid_index b + 1" "b_start_work b'"
      "\<not> di_locked (b_dm b')" "b_default_conn b' = b_default_conn b" "b_finish_pc b' = b_finish_pc b"
    using discovery_round [OF m i free srv svc body] by blast
  have r: "ble_reachable cfg dmc ?b" using ble_step.start_work [OF reach(2)] reach(1) by (blast intro: ble_reachable.step)
  have inv: "ble_inv dmc 1 b" by (rule reachable_inv [OF env reach(1)])
  have "dm_wf dmc (b_dm ?b) \<and> dm_active (b_dm ?b)"
  proof -
    have u32: "\<not> (case Some (uuid_list ! unat (b_uuid_index b)) of Some (UUID32 u) \<Rightarrow> True | _ \<Rightarrow> False)"
      using i by (auto simp: uuid_list_def gopro_uuid_def nth_Cons split: nat.split)
    obtain dm where st: "bt_gatt_dm_start OK (b_default_conn b) (Some (uuid_list ! unat (b_uuid_index b))) True (b_dm b) = (OK, dm)"
      using free u32 by (simp add: bt_gatt_dm_start_def Let_def)
    then have "b_dm ?b = dm" using i by (simp add: discovery_start_work_handler_def uuid_list_def Let_def)
    then show ?thesis using start_wf [OF _ st] inv by (auto simp: ble_inv_def)
  qed
  then have "ble_reachable cfg dmc b'"
    using reach_rounds [OF r _ _ d] b' by (simp add: discovery_cb_def)
  then show ?thesis using k by blast
qed

text \<open>
  With the services discovered, the connected state can be reached, whatever the two Wi-Fi
  reads answer.
\<close>

lemma reach_sys:
  "ble_reachable cfg dmc b \<Longrightarrow> ble_step cfg dmc b b' \<Longrightarrow> ble_reachable cfg dmc b'"
  by (rule ble_reachable.step)

lemma read_error_ssid: "on_read_ssid 1 h src sys = Some (sys\<lparr>sys_read_sem := k_sem_give 1 (sys_read_sem sys)\<rparr>)"
  by (simp add: on_read_ssid_def read_wifi_string_def Let_def)

lemma read_error_pass: "on_read_pass 1 h src sys = Some (sys\<lparr>sys_read_sem := k_sem_give 1 (sys_read_sem sys)\<rparr>)"
  by (simp add: on_read_pass_def read_wifi_string_def Let_def)

lemma start_work_client: "sys_client (b_sys (discovery_start_work_handler ans b)) = sys_client (b_sys b)"
  by (simp add: discovery_start_work_handler_def Let_def split_beta)

lemma connected_reached:
  assumes r: "ble_reachable cfg dmc b" and i: "unat (b_uuid_index b) = 3" and w: "b_start_work b" "b_finish_pc b = F_idle"
  shows "\<exists>b'. ble_reachable cfg dmc b' \<and> gs_state (sys_state (b_sys b')) = GP_STATE_CONNECTED \<and>
    b_finish_pc b' = F_poll 0 \<and> same_camera (sys_client (b_sys b)) (sys_client (b_sys b'))"
proof -
  let ?give = "\<lambda>b. b\<lparr>b_sys := (b_sys b)\<lparr>sys_read_sem := k_sem_give 1 (sys_read_sem (b_sys b))\<rparr>\<rparr>"
  let ?ok = "\<lambda>p. OK"
  let ?stk = "replicate 20 0"
  define b1 where "b1 = discovery_start_work_handler OK b"
  have b1: "ble_reachable cfg dmc b1" "b_finish_work b1" "b_finish_pc b1 = F_idle"
    using reach_sys [OF r ble_step.start_work [OF w(1)], of OK] i w(2) by (simp_all add: b1_def discovery_skipped)
  define b2 where "b2 = finish_begin ?ok b1"
  have "finish_step (bc_env cfg) ?stk ?ok ?ok b1 = Some b2" using b1 by (simp add: finish_step_def b2_def)
  from reach_sys [OF b1(1) ble_step.finish [OF _ this]] have "ble_reachable cfg dmc b2" by simp
  from reach_sys [OF this ble_step.read_ssid [OF read_error_ssid]] have "ble_reachable cfg dmc (?give b2)" .
  moreover have "finish_step (bc_env cfg) ?stk ?ok ?ok (?give b2) = Some (finish_read_pass ?ok (?give b2))"
    by (simp add: finish_step_def b2_def finish_begin_def k_sem_give_def)
  ultimately have b3: "ble_reachable cfg dmc (finish_read_pass ?ok (?give b2))"
    using reach_sys [OF _ ble_step.finish, of cfg dmc "?give b2" ?stk] by simp
  define b3 where "b3 = finish_read_pass ?ok (?give b2)"
  from reach_sys [OF b3 ble_step.read_pass [OF read_error_pass]] have "ble_reachable cfg dmc (?give b3)"
    unfolding b3_def .
  moreover have "finish_step (bc_env cfg) ?stk ?ok ?ok (?give b3) = Some (finish_connected (bc_env cfg) ?ok (?give b3))"
    by (simp add: finish_step_def b3_def finish_read_pass_def k_sem_give_def)
  ultimately have "ble_reachable cfg dmc (finish_connected (bc_env cfg) ?ok (?give b3))"
    using reach_sys [OF _ ble_step.finish, of cfg dmc "?give b3" ?stk] by simp
  moreover have "gs_state (sys_state (b_sys (finish_connected (bc_env cfg) ?ok b))) = GP_STATE_CONNECTED" for b
    unfolding finish_connected_sys by (simp add: gp_simps)
  moreover have "sys_client (b_sys (finish_connected (bc_env cfg) ?ok b)) = subscribe_all ?ok (sys_client (b_sys b))" for b
    unfolding finish_connected_sys by (simp add: gp_simps gopro_led_mode_set_def)
  moreover have "same_camera (sys_client (b_sys b)) (sys_client (b_sys b3))"
    using same_trans [OF same_get same_get, of "sys_client (b_sys b)" ?ok "of_nat GP_WIFI_HANDLE_PASS" ?ok "of_nat GP_WIFI_HANDLE_SSID"]
    by (simp add: b3_def b2_def b1_def finish_read_pass_def finish_begin_def start_work_client)
  then have "same_camera (sys_client (b_sys b)) (subscribe_all ?ok (sys_client (b_sys (?give b3))))"
    using same_trans [OF _ same_subscribe_all] by simp
  moreover have "b_finish_pc (finish_connected (bc_env cfg) ?ok b) = F_poll 0" for b
    by (simp add: finish_connected_def Let_def del: set_sate_conn)
  ultimately show ?thesis
    by (intro exI [of _ "finish_connected (bc_env cfg) ?ok (?give b3)"] conjI) simp_all
qed

end
