(* ===== verification/Connect.thy ===== *)
theory Connect
  imports Ble_Steps
begin

section \<open>From the start to a connected camera\<close>

text \<open>
  A camera that advertises itself and has the three services can be found, connected to,
  discovered and talked to: the steps of the Bluetooth side are put together from
  \<^verbatim>\<open>gopro_bt_start\<close> to the start-up queries, for any attribute table.
\<close>

subsection \<open>The camera\<close>

text \<open>A service with its end handle is the first of its kind in the table and fits into the manager's table.\<close>

definition service_at :: "dm_cfg \<Rightarrow> gatt_attr list \<Rightarrow> bt_uuid \<Rightarrow> gatt_attr \<times> u16 \<Rightarrow> bool" where
  "service_at dmc srv u s \<longleftrightarrow>
     (case filter (service_with (Some u)) srv of [] \<Rightarrow> False | svc # _ \<Rightarrow> svc = fst s) \<and>
     ga_user (fst s) = Service_val u (snd s) \<and> ga_handle (fst s) \<le> snd s \<and>
     values_ok (service_body srv (ga_handle (fst s)) (snd s)) \<and>
     Suc (length (service_body srv (ga_handle (fst s)) (snd s))) \<le> dc_max_attrs dmc"

definition camera_ok :: "dm_cfg \<Rightarrow> gatt_attr list \<Rightarrow> (gatt_attr \<times> u16) list \<Rightarrow> bool" where
  "camera_ok dmc srv svcs \<longleftrightarrow>
     sorted_wrt (<) (map ga_handle srv) \<and> (\<forall>a \<in> set srv. 0 < ga_handle a) \<and>
     list_all2 (service_at dmc srv) uuid_list svcs"

text \<open>What the client has when the handles of these services have been assigned one after the other.\<close>

fun assign_services ::
    "nat option \<Rightarrow> gatt_attr list \<Rightarrow> (gatt_attr \<times> u16) list \<Rightarrow> bt_gopro_client \<Rightarrow> bt_gopro_client option" where
  "assign_services conn srv [] gc = Some gc"
| "assign_services conn srv ((svc, e) # ss) gc = do {
     (err, gc) \<leftarrow> handles_assign (service_dm conn srv svc e) gc;
     assign_services conn srv ss gc
   }"

lemma assign_services_snoc:
  "assign_services conn srv (ss @ [(svc, e)]) gc =
     Option.bind (assign_services conn srv ss gc)
       (\<lambda>gc. map_option snd (handles_assign (service_dm conn srv svc e) gc))"
proof (induction ss arbitrary: gc)
  case Nil
  show ?case by (cases "handles_assign (service_dm conn srv svc e) gc") (auto split: prod.split)
next
  case (Cons s ss)
  then show ?case by (cases s) (auto split: bind_split prod.split)
qed

text \<open>The advertisement: every structure lies in the received bytes, and one says that the camera is on or pairs.\<close>

definition ads_ok :: "bt_data list \<Rightarrow> bool" where
  "ads_ok = list_all (\<lambda>d. unat (bd_len d) \<le> length (bd_data d))"

definition announces_on :: "bt_data \<Rightarrow> bool" where
  "announces_on d \<longleftrightarrow> bd_type d = 255 \<and> bd_len d = 14 \<and> (bd_data d ! 3 = 1 \<or> bd_data d ! 3 = 5)"

subsection \<open>Finding it\<close>

definition keeps_idle :: "ble \<Rightarrow> ble \<Rightarrow> bool" where
  "keeps_idle b b' \<longleftrightarrow> sys_client (b_sys b') = sys_client (b_sys b) \<and> b_uuid_index b' = b_uuid_index b \<and>
     b_dm b' = b_dm b \<and> b_finish_pc b' = b_finish_pc b"

lemma keeps_idle_trans: "keeps_idle a b \<Longrightarrow> keeps_idle b c \<Longrightarrow> keeps_idle a c"
  by (simp add: keeps_idle_def)

lemma keeps_idle_sys: "sys_client (f (b_sys b)) = sys_client (b_sys b) \<Longrightarrow> keeps_idle b (on_sys f b)"
  by (simp add: keeps_idle_def)

lemma client_frames [simp]:
  "sys_client (gopro_led_mode_set n m sys) = sys_client sys" "sys_client (led_idle_timer_start e sys) = sys_client sys"
  "sys_client (upd_state g sys) = sys_client sys" "sys_client (gopro_leds_init sys) = sys_client sys"
  by (simp_all add: gopro_led_mode_set_def led_idle_timer_start_def upd_state_def gopro_leds_init_def)

lemma connect_made:
  "ble_connect OK (OK, Some conn) b = (OK, b\<lparr>b_default_conn := Some conn\<rparr>)"
  by (simp add: ble_connect_def bt_scan_stop_def)

lemma eir_found_connects:
  assumes inv: "ble_inv dmc n b" and d: "unat (bd_len d) \<le> length (bd_data d)"
  shows "\<exists>b'. eir_found OK (OK, Some conn) d b = Some b' \<and> keeps_idle b b' \<and> ble_inv dmc n b' \<and>
    (b_default_conn b' = Some conn \<or> \<not> announces_on d \<and> b_default_conn b' = b_default_conn b)"
proof -
  have "\<exists>b'. eir_found OK (OK, Some conn) d b = Some b' \<and> keeps_idle b b' \<and>
    (b_default_conn b' = Some conn \<or> \<not> announces_on d \<and> b_default_conn b' = b_default_conn b)"
  proof (cases "bd_type d = 9")
    case True
    obtain r s where "gopro_client_setname (Some (bd_data d)) (bd_len d) (sys_state (b_sys b)) = Some (r, s)"
      using setname_total [OF _ d, of "sys_state (b_sys b)"] inv unfolding ble_inv_def wf_sys_def by blast
    then show ?thesis using True by (simp add: eir_found_def announces_on_def keeps_idle_def)
  next
    case False
    show ?thesis
    proof (cases "bd_type d = 255 \<and> bd_len d = 14")
      case True
      then have "rd (bd_data d) 3 = Some (bd_data d ! 3)" using d by (simp add: rd_def)
      then show ?thesis
        using True
        by (simp add: eir_found_def announces_on_def connect_made keeps_idle_def Let_def)
    next
      case f: False
      then show ?thesis using False by (auto simp: eir_found_def announces_on_def keeps_idle_def)
    qed
  qed
  then show ?thesis using inv_eir [OF inv] by blast
qed

lemma eir_parse_connects:
  assumes "ble_inv dmc n b" and "ads_ok ads"
  shows "\<exists>b'. eir_parse (OK, OK, Some conn) ads b = Some b' \<and> keeps_idle b b' \<and>
    (b_default_conn b = Some conn \<or> list_ex announces_on ads \<longrightarrow> b_default_conn b' = Some conn)"
  using assms
proof (induction ads arbitrary: b)
  case Nil
  then show ?case by (simp add: keeps_idle_def)
next
  case (Cons d ads)
  obtain b1 where b1: "eir_found OK (OK, Some conn) d b = Some b1" "keeps_idle b b1" "ble_inv dmc n b1"
    "b_default_conn b1 = Some conn \<or> \<not> announces_on d \<and> b_default_conn b1 = b_default_conn b"
    using eir_found_connects [OF Cons.prems(1), of d conn] Cons.prems(2) by (auto simp: ads_ok_def)
  obtain b2 where "eir_parse (OK, OK, Some conn) ads b1 = Some b2" "keeps_idle b1 b2"
    "b_default_conn b1 = Some conn \<or> list_ex announces_on ads \<longrightarrow> b_default_conn b2 = Some conn"
    using Cons.IH [OF b1(3)] Cons.prems(2) by (auto simp: ads_ok_def)
  then show ?case using b1 keeps_idle_trans by auto
qed

text \<open>Up to the secured link: a scan, the advertisement, the connection.\<close>

lemma link_reached:
  assumes env: "alloc_ok (bc_env cfg)" and b0: "ble_initial dmc b0"
    and cnt: "sc_addr_cnt (bc_scan cfg) = 1" "0 < sc_uuid_cnt (bc_scan cfg)"
    and free: "scan_device_filter_check (bc_scan cfg) (b_scan b0) a"
    and ads: "list_all2 (\<lambda>d h. (case uuid_structure d of None \<Rightarrow> Some False
      | Some ty \<Rightarrow> find_uuid (bc_uuid cfg) (bd_data d) (bd_len d) ty BT_UUID_GOPRO_SERVICE) = Some h) ads hs"
      "True \<in> set hs" "ads_ok ads" "list_ex announces_on ads"
  shows "\<exists>b. ble_reachable cfg dmc b \<and> b_start_work b \<and> b_default_conn b = Some conn \<and> keeps_idle b0 b"
proof -
  define b1 where "b1 = (on_sys gopro_leds_init b0)
    \<lparr>b_scan := bt_scan_cb_register (Some scan_cb) (bt_scan_init (bc_scan cfg) (Some scan_init) (b_scan b0)), b_scan_work := Some 50\<rparr>"
  have "gopro_bt_start cfg (0, []) OK OK (\<lambda>a. 0) OK (on_sys gopro_leds_init b0) = Some (0, b1)"
    by (simp add: gopro_bt_start_def hw_static_addr_def b1_def)
  from ble_reachable.boot [OF b0 this] have r1: "ble_reachable cfg dmc b1" .
  have k1: "keeps_idle b0 b1" by (simp add: keeps_idle_def b1_def)
  define b2 where "b2 = scan_work_handler cfg OK OK [] b1"
  have r2: "ble_reachable cfg dmc b2"
    unfolding b2_def by (rule ble_reachable.step [OF r1 ble_step.scan_work]) (simp add: b1_def)
  have k2: "keeps_idle b1 b2" by (simp add: keeps_idle_def b2_def scan_work_handler_def Let_def split_beta)
  have l: "listens (length (bs_callbacks (b_scan b0))) (b_scan b1)"
    by (simp add: listens_def b1_def bt_scan_cb_register_def scan_cb_def)
  have "scan_device_filter_check (bc_scan cfg) (b_scan b1) a"
    using free
    by (auto simp: b1_def bt_scan_cb_register_def scan_device_filter_check_def blocklist_device_check_def split: if_split_asm)
  then obtain bs evs where p: "scan_prepare cfg [] (b_scan b1) = (OK, bs)"
    and evs: "scan_recv (bc_uuid cfg) (bc_scan cfg) OK a True ads bs = Some evs"
      "reports_match (length (bs_callbacks (b_scan b0))) evs"
    using scan_new_camera [OF cnt _ ads(1), of "[]" "b_scan b1" OK a True] ads(2) l by auto
  have "b_scan b2 = snd (bt_scan_start OK BT_SCAN_TYPE_SCAN_ACTIVE bs)"
    by (simp add: b2_def scan_work_handler_def Let_def p bt_scan_stop_def bt_scan_start_def)
  with evs(1) have recv: "scan_recv (bc_uuid cfg) (bc_scan cfg) OK a True ads (b_scan b2) = Some evs"
    by (simp only: scan_recv_start)
  define b2' where "b2' = on_sys (led_idle_timer_start 1) (on_sys (upd_state (\<lambda>s. snd (gopro_client_set_device_addr a s))) b2)"
  have "ble_inv dmc 1 b2'"
    unfolding b2'_def by (intro inv_on_sys reachable_inv [OF env r2] link_intros)
  then obtain b3 where b3: "eir_parse (OK, OK, Some conn) ads b2' = Some b3" "keeps_idle b2' b3" "b_default_conn b3 = Some conn"
    using eir_parse_connects [OF _ ads(3)] ads(4) by blast
  then have "scan_filter_match OK (OK, Some conn) a ads b2 = Some b3" by (simp add: scan_filter_match_def b2'_def)
  with evs(2) have r3: "ble_reachable cfg dmc b3"
    using ble_reachable.step [OF r2 ble_step.advert [OF recv]] by (auto simp: reports_match_def)
  have k3: "keeps_idle b2 b3" using b3(2) by (simp add: keeps_idle_def b2'_def)
  let ?b4 = "connected OK conn 0 b3"
  let ?b5 = "snd (security_changed conn SECURITY_ERR_SUCCESS ?b4)"
  from ble_reachable.step [OF r3 ble_step.connected_cb] have "ble_reachable cfg dmc ?b4" .
  from ble_reachable.step [OF this ble_step.security_cb] have r5: "ble_reachable cfg dmc ?b5" .
  have k5: "keeps_idle b3 ?b5" "b_start_work ?b5" "b_default_conn ?b5 = Some conn"
    using b3(3) by (simp_all add: keeps_idle_def connected_def security_changed_def gatt_discover_def Let_def)
  have "keeps_idle b0 ?b5" using k1 k2 k3 k5(1) keeps_idle_trans by blast
  with r5 k5 show ?thesis by blast
qed

subsection \<open>Its services\<close>

definition discovered ::
    "ble_cfg \<Rightarrow> dm_cfg \<Rightarrow> gatt_attr list \<Rightarrow> (gatt_attr \<times> u16) list \<Rightarrow> nat \<Rightarrow> bt_gopro_client \<Rightarrow> nat \<Rightarrow> ble \<Rightarrow> bool" where
  "discovered cfg dmc srv svcs conn gc0 i b \<longleftrightarrow> ble_reachable cfg dmc b \<and> b_start_work b \<and> unat (b_uuid_index b) = i \<and>
     \<not> di_locked (b_dm b) \<and> b_default_conn b = Some conn \<and> b_finish_pc b = F_idle \<and>
     assign_services (Some conn) srv (take i svcs) gc0 = Some (sys_client (b_sys b))"

lemma discovered_next:
  assumes env: "alloc_ok (bc_env cfg)" and m: "mem_ok dmc" and cam: "camera_ok dmc srv svcs"
    and b: "discovered cfg dmc srv svcs conn gc0 i b" and i: "i < 3"
  shows "\<exists>b'. discovered cfg dmc srv svcs conn gc0 (Suc i) b'"
proof -
  have k: "ble_reachable cfg dmc b" "b_start_work b" "unat (b_uuid_index b) = i" "\<not> di_locked (b_dm b)"
    "b_default_conn b = Some conn" "b_finish_pc b = F_idle"
    "assign_services (Some conn) srv (take i svcs) gc0 = Some (sys_client (b_sys b))"
    using b by (simp_all add: discovered_def)
  have srv: "sorted_wrt (<) (map ga_handle srv)" "\<forall>a \<in> set srv. 0 < ga_handle a"
    and len: "length svcs = 3" and at: "service_at dmc srv (uuid_list ! i) (svcs ! i)"
    using cam i by (auto simp: camera_ok_def list_all2_conv_all_nth uuid_list_def)
  obtain svc e where s: "svcs ! i = (svc, e)" by fastforce
  obtain others where f: "filter (service_with (Some (uuid_list ! i))) srv = svc # others"
    using at by (auto simp: service_at_def s split: list.split_asm)
  have a: "ga_user svc = Service_val (uuid_list ! i) e" "ga_handle svc \<le> e"
    "values_ok (service_body srv (ga_handle svc) e)" "Suc (length (service_body srv (ga_handle svc) e)) \<le> dc_max_attrs dmc"
    using at by (simp_all add: service_at_def s)
  obtain b' err gc where b': "ble_reachable cfg dmc b'" "b_sys b' = (b_sys b)\<lparr>sys_client := gc\<rparr>"
    "handles_assign (service_dm (Some conn) srv svc e) (sys_client (b_sys b)) = Some (err, gc)"
    "b_uuid_index b' = b_uuid_index b + 1" "b_start_work b'"
    "\<not> di_locked (b_dm b')" "b_default_conn b' = Some conn" "b_finish_pc b' = F_idle"
    using service_reached [OF k(1,2) env m, unfolded k(3), OF i k(4) srv f a] unfolding k(5,6) by blast
  have "unat (b_uuid_index b) + 1 < 256" using k(3) i by simp
  then have "unat (b_uuid_index b') = Suc i" using b'(4) k(3) by (simp add: unat_word_ariths)
  moreover have "assign_services (Some conn) srv (take (Suc i) svcs) gc0 = Some gc"
    using i len k(7) b'(3) by (simp add: take_Suc_conv_app_nth s assign_services_snoc)
  ultimately show ?thesis using b' by (auto simp: discovered_def)
qed

lemma all_discovered:
  assumes "alloc_ok (bc_env cfg)" and "mem_ok dmc" and "camera_ok dmc srv svcs"
    and "discovered cfg dmc srv svcs conn gc0 0 b" and "i \<le> 3"
  shows "\<exists>b'. discovered cfg dmc srv svcs conn gc0 i b'"
  using assms(5)
proof (induction i)
  case (Suc i)
  then show ?case using discovered_next [OF assms(1-3)] by auto
qed (use assms(4) in blast)

subsection \<open>Talking to it\<close>

lemma queries_reached:
  assumes chan: "\<And>c. env_cmd_chan (bc_env cfg) c = OK"
  shows "ble_reachable cfg dmc b \<Longrightarrow> b_finish_pc b = F_poll i \<Longrightarrow> i < 20 \<Longrightarrow>
    gs_state (sys_state (b_sys b)) = GP_STATE_CONNECTED \<Longrightarrow> \<not> test_flag GP_FLAG_JUST_PAIRED (b_sys b) \<Longrightarrow>
    \<exists>b' q. ble_reachable cfg dmc b' \<and> gs_state (sys_state (b_sys b')) = GP_STATE_CONNECTED \<and> b_finish_pc b' = F_idle \<and>
      same_camera (sys_client (b_sys b)) (sys_client (b_sys b')) \<and> sys_cmd_queue (b_sys b') = q @ startup_query_list"
proof (induction "20 - i" arbitrary: b i)
  case 0
  then show ?case by simp
next
  case (Suc n)
  let ?stk = "replicate 20 0 :: bytes"
  let ?ok = "\<lambda>p. OK"
  define b1 where "b1 = (if 0 < sys_hw_sem (b_sys b) then on_sys (\<lambda>sys. sys\<lparr>sys_hw_sem := sys_hw_sem sys - 1\<rparr>) b else b)"
  show ?case
  proof (cases "sys_hw_sem (b_sys b) = 0 \<and> Suc i < 20")
    case True
    let ?b = "b\<lparr>b_sys := (b_sys b)\<lparr>sys_cmd_queue := sys_cmd_queue (b_sys b) @ [gopro_get_hw_info]\<rparr>, b_finish_pc := F_poll (Suc i)\<rparr>"
    have "finish_step (bc_env cfg) ?stk ?ok ?ok b = Some ?b"
      using poll_round [of b i "bc_env cfg"] True Suc.prems chan by simp
    from ble_reachable.step [OF Suc.prems(1) ble_step.finish [OF _ this]] have "ble_reachable cfg dmc ?b" by simp
    moreover have "n = 20 - Suc i" using Suc.hyps(2) by simp
    ultimately show ?thesis using Suc.hyps(1) [of "Suc i" ?b] True Suc.prems by (simp add: test_flag_def)
  next
    case False
    have b1: "gs_state (sys_state (b_sys b1)) = GP_STATE_CONNECTED" "\<not> test_flag GP_FLAG_JUST_PAIRED (b_sys b1)"
      "sys_client (b_sys b1) = sys_client (b_sys b)"
      using Suc.prems by (simp_all add: b1_def test_flag_def)
    obtain b' where b': "finish_end (bc_env cfg) ?stk b1 = Some b'"
      "sys_cmd_queue (b_sys b') = sys_cmd_queue (b_sys b1) @ startup_query_list"
      "sys_state (b_sys b') = sys_state (b_sys b1)" "b_finish_pc b' = F_idle"
      "same_camera (sys_client (b_sys b1)) (sys_client (b_sys b'))"
      using finish_end_queries [OF b1(1) chan b1(2), of ?stk] by blast
    have "finish_step (bc_env cfg) ?stk ?ok ?ok b = Some b'"
      using False b'(1) Suc.prems(2,3) by (auto simp: finish_step_def finish_poll_def b1_def)
    from ble_reachable.step [OF Suc.prems(1) ble_step.finish [OF _ this]] have "ble_reachable cfg dmc b'" by simp
    then show ?thesis using b' b1 by auto
  qed
qed

text \<open>Discovering services leaves the flags of the client alone.\<close>

lemma assign_control_state [simp]: "gc_state (snd (assign_control dm k gc)) = gc_state gc"
  by (auto simp: assign_control_def set_handles_def Let_def split: option.split)

lemma assign_wifi_state [simp]: "gc_state (snd (assign_wifi dm k gc)) = gc_state gc"
  by (auto simp: assign_wifi_def split: option.split)

lemma assign_each_state:
  assumes "\<And>k gc. gc_state (snd (f k gc)) = gc_state gc"
  shows "gc_state (snd (assign_each f ks gc)) = gc_state gc"
proof (induction ks arbitrary: gc)
  case (Cons k ks)
  then show ?case using assms [of k gc] by (simp add: split_beta)
qed simp

lemma with_service_state:
  assumes "with_service dm u f gc = Some (err, gc')" and "gc_state (snd (f gc)) = gc_state gc"
  shows "gc_state gc' = gc_state gc"
  using assms by (auto simp: with_service_def bind_eq_Some_conv split_beta split: if_split_asm)

lemma handles_assign_state:
  assumes "handles_assign dm gc = Some (err, gc')"
  shows "gc_state gc' = gc_state gc"
proof -
  have c: "gc_state (snd (assign_each (assign_control dm) ks g)) = gc_state g"
    and w: "gc_state (snd (assign_each (assign_wifi dm) ks g)) = gc_state g" for ks g
    by (simp_all add: assign_each_state)
  show ?thesis
    using assms
    by (auto simp: handles_assign_def bt_gopro_handles_assign_def bt_gopro_wifi_handles_assign_def
        bt_gopro_net_handle_assign_def bind_eq_Some_conv c w set_handles_def simp del: assign_each.simps
        elim!: with_service_state split: if_split_asm)
qed

lemma assign_services_state: "assign_services conn srv ss gc = Some gc' \<Longrightarrow> gc_state gc' = gc_state gc"
  by (induction conn srv ss gc rule: assign_services.induct) (auto simp: bind_eq_Some_conv dest: handles_assign_state)

theorem camera_reached:
  assumes env: "alloc_ok (bc_env cfg)" "\<And>c. env_cmd_chan (bc_env cfg) c = OK" and m: "mem_ok dmc"
    and b0: "ble_initial dmc b0" "\<not> test_flag GP_FLAG_JUST_PAIRED (b_sys b0)"
    and cnt: "sc_addr_cnt (bc_scan cfg) = 1" "0 < sc_uuid_cnt (bc_scan cfg)"
    and free: "scan_device_filter_check (bc_scan cfg) (b_scan b0) a"
    and ads: "list_all2 (\<lambda>d h. (case uuid_structure d of None \<Rightarrow> Some False
      | Some ty \<Rightarrow> find_uuid (bc_uuid cfg) (bd_data d) (bd_len d) ty BT_UUID_GOPRO_SERVICE) = Some h) ads hs"
      "True \<in> set hs" "ads_ok ads" "list_ex announces_on ads"
    and cam: "camera_ok dmc srv svcs"
  shows "\<exists>b gc q. ble_reachable cfg dmc b \<and> gs_state (sys_state (b_sys b)) = GP_STATE_CONNECTED \<and>
    b_finish_pc b = F_idle \<and> sys_cmd_queue (b_sys b) = q @ startup_query_list \<and>
    assign_services (Some conn) srv svcs (sys_client (b_sys b0)) = Some gc \<and> same_camera gc (sys_client (b_sys b))"
proof -
  obtain b1 where b1: "ble_reachable cfg dmc b1" "b_start_work b1" "b_default_conn b1 = Some conn" "keeps_idle b0 b1"
    using link_reached [OF env(1) b0(1) cnt free ads] by blast
  have "discovered cfg dmc srv svcs conn (sys_client (b_sys b0)) 0 b1"
    using b1 b0(1) by (simp add: discovered_def keeps_idle_def ble_initial_def)
  then obtain b3 where b3: "discovered cfg dmc srv svcs conn (sys_client (b_sys b0)) 3 b3"
    using all_discovered [OF env(1) m cam, of conn "sys_client (b_sys b0)" b1 3] by auto
  have "length svcs = 3" using cam by (auto simp: camera_ok_def uuid_list_def dest: list_all2_lengthD)
  then have gc: "assign_services (Some conn) srv svcs (sys_client (b_sys b0)) = Some (sys_client (b_sys b3))"
    using b3 by (simp add: discovered_def)
  have flag: "\<not> atomic_test_bit (gc_state (sys_client (b_sys b3))) GP_FLAG_JUST_PAIRED"
    using b0(2) assign_services_state [OF gc] by (simp add: test_flag_def)
  obtain b4 where b4: "ble_reachable cfg dmc b4" "gs_state (sys_state (b_sys b4)) = GP_STATE_CONNECTED"
    "b_finish_pc b4 = F_poll 0" "same_camera (sys_client (b_sys b3)) (sys_client (b_sys b4))"
    using connected_reached [of cfg dmc b3] b3 by (auto simp: discovered_def)
  have "\<not> test_flag GP_FLAG_JUST_PAIRED (b_sys b4)"
    using flag b4(4) by (simp add: same_camera_def test_flag_def)
  then obtain b5 q where b5: "ble_reachable cfg dmc b5" "gs_state (sys_state (b_sys b5)) = GP_STATE_CONNECTED"
    "b_finish_pc b5 = F_idle" "same_camera (sys_client (b_sys b4)) (sys_client (b_sys b5))"
    "sys_cmd_queue (b_sys b5) = q @ startup_query_list"
    using queries_reached [OF env(2) b4(1,3) _ b4(2)] by auto
  then show ?thesis using gc same_trans [OF b4(4) b5(4)] by blast
qed

end
