(* ===== verification/Demo_Ble.thy ===== *)
theory Demo_Ble
  imports Demo Connect
begin

section \<open>A concrete camera\<close>

text \<open>
  A camera's attribute table, a configuration of the discovery manager and the scanning
  module, and what the Bluetooth side reaches with this camera, on which the theorems about
  the connection are evaluated.
\<close>

subsection \<open>The camera's services\<close>

definition demo_attr :: "nat \<Rightarrow> bt_uuid \<Rightarrow> attr_user \<Rightarrow> gatt_attr" where
  "demo_attr h u v = \<lparr>ga_uuid = u, ga_handle = of_nat h, ga_perm = 0, ga_user = v\<rparr>"

definition demo_wifi :: "gatt_attr list" where
  "demo_wifi = demo_attr 1 BT_UUID_GATT_PRIMARY (Service_val BT_UUID_GOPRO_WIFI_SERVICE 9) #
     concat (map (\<lambda>k. [demo_attr (2 * k + 2) BT_UUID_GATT_CHRC (Chrc_val (wifi_uuid k) 2),
                       demo_attr (2 * k + 3) (wifi_uuid k) No_user]) [0, 1, 2, 3])"

definition demo_control :: "nat \<Rightarrow> nat \<Rightarrow> gatt_attr list" where
  "demo_control h k =
     [demo_attr h BT_UUID_GATT_CHRC (Chrc_val (notify_uuid k) 0x10), demo_attr (h + 1) (notify_uuid k) No_user,
      demo_attr (h + 2) BT_UUID_GATT_CCC No_user,
      demo_attr (h + 3) BT_UUID_GATT_CHRC (Chrc_val (write_uuid k) 8), demo_attr (h + 4) (write_uuid k) No_user]"

definition demo_camera :: "gatt_attr list" where
  "demo_camera = demo_wifi @
     demo_attr 10 BT_UUID_GATT_PRIMARY (Service_val BT_UUID_GOPRO_SERVICE 25) #
       demo_control 11 0 @ demo_control 16 1 @ demo_control 21 2 @
     demo_attr 26 BT_UUID_GATT_PRIMARY (Service_val BT_UUID_GOPRO_NET_SERVICE 31) # demo_control 27 3"

definition demo_service :: "nat \<Rightarrow> gatt_attr" where
  "demo_service i =
     (if i = 0 then demo_attr 1 BT_UUID_GATT_PRIMARY (Service_val BT_UUID_GOPRO_WIFI_SERVICE 9)
      else if i = 1 then demo_attr 10 BT_UUID_GATT_PRIMARY (Service_val BT_UUID_GOPRO_SERVICE 25)
      else demo_attr 26 BT_UUID_GATT_PRIMARY (Service_val BT_UUID_GOPRO_NET_SERVICE 31))"

definition demo_end :: "nat \<Rightarrow> u16" where
  "demo_end i = (if i = 0 then 9 else if i = 1 then 25 else 31)"

lemmas demo_camera_defs = demo_camera_def demo_wifi_def demo_control_def demo_attr_def demo_service_def demo_end_def

definition demo_dmc :: dm_cfg where
  "demo_dmc = \<lparr>dc_max_attrs = 35, dc_chunk = 120, dc_service_val = 8, dc_chrc = 8, dc_alloc = (\<lambda>n. True)\<rparr>"

lemma demo_mem: "mem_ok demo_dmc" "dc_max_attrs demo_dmc = 35"
  by (simp_all add: mem_ok_def demo_dmc_def round_up4_def)

lemma demo_sorted: "sorted_wrt (<) (map ga_handle demo_camera)" "\<forall>a \<in> set demo_camera. 0 < ga_handle a"
  by (simp_all add: demo_camera_defs)

lemma gopro_uuid_inject [simp]: "gopro_uuid m = gopro_uuid n \<longleftrightarrow> m = n" "gopro_uuid m \<noteq> UUID16 w"
  "UUID16 w \<noteq> gopro_uuid m"
  by (simp_all add: gopro_uuid_def)

lemma demo_find:
  assumes "i < 3"
  shows "filter (service_with (Some (uuid_list ! i))) demo_camera = [demo_service i]"
    and "ga_user (demo_service i) = Service_val (uuid_list ! i) (demo_end i)"
    and "ga_handle (demo_service i) \<le> demo_end i"
proof -
  have i: "i \<in> {0, 1, 2}" using assms by auto
  show "filter (service_with (Some (uuid_list ! i))) demo_camera = [demo_service i]"
    using i by (auto simp: service_with_def uuid_list_def demo_camera_defs notify_uuid_def write_uuid_def wifi_uuid_def)
  show "ga_user (demo_service i) = Service_val (uuid_list ! i) (demo_end i)"
    using i by (auto simp: uuid_list_def demo_camera_defs)
  show "ga_handle (demo_service i) \<le> demo_end i" using i by (auto simp: demo_camera_defs)
qed

lemma demo_body:
  assumes "i < 3"
  shows "values_ok (service_body demo_camera (ga_handle (demo_service i)) (demo_end i))"
    and "Suc (length (service_body demo_camera (ga_handle (demo_service i)) (demo_end i))) \<le> dc_max_attrs demo_dmc"
proof -
  have i: "i \<in> {0, 1, 2}" using assms by auto
  show "values_ok (service_body demo_camera (ga_handle (demo_service i)) (demo_end i))"
    using i by (auto simp: values_ok_def service_body_def demo_camera_defs notify_uuid_def write_uuid_def wifi_uuid_def)
  have "length (service_body demo_camera h e) \<le> length demo_camera" for h e by (simp add: service_body_def)
  also have "length demo_camera = 31" by (simp add: demo_camera_defs)
  finally have "length (service_body demo_camera (ga_handle (demo_service i)) (demo_end i)) \<le> 31" .
  then show "Suc (length (service_body demo_camera (ga_handle (demo_service i)) (demo_end i))) \<le> dc_max_attrs demo_dmc"
    by (simp add: demo_mem)
qed

definition demo_services :: "(gatt_attr \<times> u16) list" where
  "demo_services = map (\<lambda>i. (demo_service i, demo_end i)) [0 ..< 3]"

lemma demo_camera_ok: "camera_ok demo_dmc demo_camera demo_services"
proof -
  have at: "service_at demo_dmc demo_camera (uuid_list ! i) (demo_service i, demo_end i)" if "i < 3" for i
    using demo_find [OF that] demo_body [OF that] by (simp add: service_at_def)
  have "length uuid_list = 3" by (simp add: uuid_list_def)
  then show ?thesis
    using at demo_sorted by (simp add: camera_ok_def list_all2_conv_all_nth demo_services_def)
qed

subsection \<open>A run\<close>

definition demo_scan_cfg :: scan_cfg where
  "demo_scan_cfg = \<lparr>sc_name_cnt = 0, sc_name_max_len = 32, sc_short_name_cnt = 0, sc_short_name_max_len = 32,
     sc_addr_cnt = 1, sc_uuid_cnt = 1, sc_appearance_cnt = 0, sc_md_cnt = 0, sc_md_max_len = 32, sc_blocklist_len = 1,
     sc_attempts_len = 1, sc_attempts_count = 1, sc_blocklist = False, sc_attempts = False,
     sc_scan_passive = \<lparr>sp_type = 0, sp_settings = [96, 48]\<rparr>, sc_conn_default = [24, 40]\<rparr>"

definition demo_uuid_env :: uuid_env where
  "demo_uuid_env = \<lparr>ue_create = (\<lambda>b. if length b = 2 then Some (UUID16 (ucast (b ! 0) OR push_bit 8 (ucast (b ! 1)))) else None),
     ue_same = (=)\<rparr>"

definition demo_cfg :: ble_cfg where
  "demo_cfg = \<lparr>bc_env = demo_env, bc_scan = demo_scan_cfg, bc_uuid = demo_uuid_env\<rparr>"

lemma demo_cfg_sel [simp]: "bc_env demo_cfg = demo_env" "bc_scan demo_cfg = demo_scan_cfg" "bc_uuid demo_cfg = demo_uuid_env"
  by (simp_all add: demo_cfg_def)

definition demo_dm_inst :: dm_inst where
  "demo_dm_inst = \<lparr>di_dm = \<lparr>dm_conn = None, dm_attrs = []\<rparr>, di_locked = False, di_release = False, di_chunks = 0,
     di_chunk_len = 0, di_params = \<lparr>dp_uuid = None, dp_start = 0, dp_end = 0, dp_type = BT_GATT_DISCOVER_PRIMARY\<rparr>,
     di_callback = False, di_search_uuid = None, di_work = False\<rparr>"

definition demo_scan :: bt_scan where
  "demo_scan = \<lparr>bs_filters = zero_filters demo_scan_cfg, bs_connect_if_match = False,
     bs_scan_param = sc_scan_passive demo_scan_cfg, bs_conn_param = sc_conn_default demo_scan_cfg,
     bs_attempts = \<lparr>caf_device = [], caf_oldest_idx = 0, caf_count = 0\<rparr>,
     bs_blocklist = \<lparr>bl_addr = [zero_addr], bl_count = 0\<rparr>, bs_callbacks = []\<rparr>"

definition demo_ble :: ble where
  "demo_ble = \<lparr>b_sys = demo_sys GP_STATE_UNKNOWN, b_default_conn = None, b_uuid_index = 0, b_dm = demo_dm_inst,
     b_scan = demo_scan, b_start_work = False, b_finish_work = False, b_scan_work = None, b_finish_pc = F_idle\<rparr>"

lemma demo_initial: "ble_initial demo_dmc demo_ble"
  by (simp add: ble_initial_def demo_ble_def demo_dm_inst_def dm_wf_def demo_dmc_def)

definition demo_boot :: ble where
  "demo_boot = (on_sys gopro_leds_init demo_ble)
     \<lparr>b_scan := bt_scan_cb_register (Some scan_cb) (bt_scan_init demo_scan_cfg (Some scan_init) demo_scan),
      b_scan_work := Some 50\<rparr>"

text \<open>The camera advertises its service and that it is switched on.\<close>

definition demo_ads :: "bt_data list" where
  "demo_ads = [\<lparr>bd_type = 3, bd_len = 2, bd_data = [0xA6, 0xFE]\<rparr>,
     \<lparr>bd_type = 255, bd_len = 14, bd_data = [0, 0, 0, 1, 0, 0, 0, 0, 0, 0, 0, 0, 0, 0]\<rparr>]"

definition demo_addr :: bt_addr_le_t where
  "demo_addr = \<lparr>addr_type = 1, addr_val = [1, 2, 3, 4, 5, 6]\<rparr>"

lemma demo_counts: "sc_addr_cnt (bc_scan demo_cfg) = 1" "0 < sc_uuid_cnt (bc_scan demo_cfg)"
  by (simp_all add: demo_scan_cfg_def)

lemma demo_free: "scan_device_filter_check (bc_scan demo_cfg) bs x"
  by (simp add: demo_scan_cfg_def scan_device_filter_check_def)

lemma demo_ads_hits:
  "list_all2 (\<lambda>d h. (case uuid_structure d of None \<Rightarrow> Some False
     | Some ty \<Rightarrow> find_uuid (bc_uuid demo_cfg) (bd_data d) (bd_len d) ty BT_UUID_GOPRO_SERVICE) = Some h) demo_ads [True, False]"
  by (simp add: demo_ads_def uuid_structure_def find_uuid_def find_uuid_loop.simps demo_uuid_env_def)

lemma demo_ads_ok: "ads_ok demo_ads" "list_ex announces_on demo_ads"
  by (simp_all add: ads_ok_def announces_on_def demo_ads_def)

lemma demo_listens: "listens i (b_scan demo_boot) \<longleftrightarrow> i = 0"
  by (auto simp: listens_def demo_boot_def bt_scan_cb_register_def scan_cb_def demo_scan_def)

abbreviation (input) demo_after :: "nat \<Rightarrow> ble \<Rightarrow> bool" where
  "demo_after \<equiv> discovered demo_cfg demo_dmc demo_camera demo_services 7 (sys_client (b_sys demo_ble))"

text \<open>It is connected to and the link is secured: the first discovery is submitted.\<close>

lemma demo_before: "\<exists>b. demo_after 0 b"
proof -
  have "alloc_ok (bc_env demo_cfg)" by simp
  from link_reached [OF this demo_initial demo_counts demo_free demo_ads_hits _ demo_ads_ok, of 7 for a]
  obtain b where "ble_reachable demo_cfg demo_dmc b" "b_start_work b" "b_default_conn b = Some 7" "keeps_idle demo_ble b"
    by auto
  then show ?thesis using demo_initial by (auto simp: discovered_def keeps_idle_def ble_initial_def)
qed

text \<open>Each of the three services is discovered in turn.\<close>

lemma demo_discovered: "\<exists>b. demo_after 3 b"
proof -
  obtain b where b: "demo_after 0 b" using demo_before by blast
  have "alloc_ok (bc_env demo_cfg)" by simp
  from all_discovered [OF this demo_mem(1) demo_camera_ok b, of 3] show ?thesis by simp
qed

lemma demo_talking:
  "\<exists>b. ble_reachable demo_cfg demo_dmc b \<and> gs_state (sys_state (b_sys b)) = GP_STATE_CONNECTED"
proof -
  obtain b where b: "demo_after 3 b" using demo_discovered by blast
  then show ?thesis using connected_reached [of demo_cfg demo_dmc b] by (auto simp: discovered_def)
qed

end
