(* ===== verification/Startup.thy ===== *)
theory Startup
  imports Ble_Steps Canbus
begin

section \<open>Start-up (\<^verbatim>\<open>main.c\<close>, \<^verbatim>\<open>buttons.c\<close>, \<^verbatim>\<open>led_simple.c\<close>)\<close>

text \<open>
  The initialisations \<^verbatim>\<open>main\<close> calls one after the other: the clock, the button, the LEDs,
  the CAN bus and Bluetooth. The answers of the drivers are arguments; what an
  initialisation does to the hardware is the list of its actions.
\<close>

subsection \<open>The clock\<close>

text \<open>
  The wait for the clock may never end: \<open>answers i\<close> is what \<^verbatim>\<open>sys_notify_fetch_result\<close>
  returns in round \<open>i\<close> with the result it stores, and not returning is \<open>None\<close>.
\<close>

partial_function (option) clock_wait :: "(nat \<Rightarrow> int \<times> int) \<Rightarrow> nat \<Rightarrow> int option" where
  "clock_wait answers i =
     (let (err, res) = answers i in
      if err = 0 \<and> res \<noteq> 0 then Some res
      else if err \<noteq> 0 then clock_wait answers (Suc i)
      else Some 0)"

definition clocks_start :: "bool \<Rightarrow> int \<Rightarrow> (nat \<Rightarrow> int \<times> int) \<Rightarrow> int option" where
  "clocks_start manager request answers =
     (if \<not> manager then Some (- 6)
      else if request < 0 then Some request
      else clock_wait answers 0)"

lemma clock_wait_step:
  "clock_wait a i = (if fst (a i) = 0 then Some (snd (a i)) else clock_wait a (Suc i))"
  by (subst clock_wait.simps) (simp add: split_beta Let_def)

lemma clock_wait_at:
  assumes "\<forall>j < n. fst (a (i + j)) \<noteq> 0" and "fst (a (i + n)) = 0"
  shows "clock_wait a i = Some (snd (a (i + n)))"
  using assms
proof (induction n arbitrary: i)
  case 0
  then show ?case by (subst clock_wait_step) simp
next
  case (Suc n)
  have "fst (a i) \<noteq> 0" using Suc.prems(1) by force
  moreover have "clock_wait a (Suc i) = Some (snd (a (Suc i + n)))"
    using Suc.prems by (intro Suc.IH) auto
  ultimately show ?case by (subst clock_wait_step) simp
qed

lemma clock_wait_result: "clock_wait a i = Some r \<Longrightarrow> \<exists>n. fst (a (i + n)) = 0 \<and> snd (a (i + n)) = r"
proof (rule clock_wait.raw_induct [of "\<lambda>a i r. \<exists>n. fst (a (i + n)) = 0 \<and> snd (a (i + n)) = r"], goal_cases)
  case IH: (1 cw a i r)
  show ?case
  proof (cases "fst (a i) = 0")
    case True
    then have "snd (a i) = r" using IH(3) by (auto simp: split_beta Let_def split: if_splits)
    then show ?thesis using True by (intro exI [of _ 0]) simp
  next
    case False
    then have "cw a (Suc i) = Some r" using IH(3) by (auto simp: split_beta Let_def split: if_splits)
    from IH(2) [OF this] obtain n where "fst (a (Suc i + n)) = 0" "snd (a (Suc i + n)) = r" by blast
    then show ?thesis by (intro exI [of _ "Suc n"]) simp
  qed
qed simp

text \<open>The wait returns exactly when the request is ever completed.\<close>

lemma clock_wait_returns: "(\<exists>r. clock_wait a 0 = Some r) \<longleftrightarrow> (\<exists>n. fst (a n) = 0)"
proof
  assume "\<exists>r. clock_wait a 0 = Some r"
  then show "\<exists>n. fst (a n) = 0" using clock_wait_result [of a 0] by auto
next
  assume e: "\<exists>n. fst (a n) = 0"
  let ?n = "LEAST n. fst (a n) = 0"
  have "fst (a ?n) = 0" using e by (rule LeastI_ex)
  moreover have "\<forall>j < ?n. fst (a j) \<noteq> 0" using not_less_Least by blast
  ultimately show "\<exists>r. clock_wait a 0 = Some r" using clock_wait_at [of ?n a 0] by (metis add_0)
qed

subsection \<open>The button\<close>

record gpio_driver =
  gd_ready :: bool
  gd_configure :: cret
  gd_interrupt :: cret

datatype button_action = Pin_configure | Pin_interrupt | Callback_init | Callback_add

definition gopro_gpio_init :: "gpio_driver \<Rightarrow> button_action list" where
  "gopro_gpio_init d =
     (if \<not> gd_ready d then []
      else if gd_configure d \<noteq> OK then [Pin_configure]
      else if gd_interrupt d \<noteq> OK then [Pin_configure, Pin_interrupt]
      else [Pin_configure, Pin_interrupt, Callback_init, Callback_add])"

lemma button_attached:
  "Callback_add \<in> set (gopro_gpio_init d) \<longleftrightarrow> gd_ready d \<and> gd_configure d = OK \<and> gd_interrupt d = OK"
  by (simp add: gopro_gpio_init_def)

subsection \<open>The LED pins\<close>

text \<open>
  A pin: whether its port pointer is set, and the answers of its driver. Only the pins
  the board has take part. The task of a LED is started whatever happens to its pin.
\<close>

record led_pin =
  lp_port :: bool
  lp_ready :: bool
  lp_configure :: cret

definition led_pin_init :: "led_pin \<Rightarrow> led_pin" where
  "led_pin_init p =
     (let p = (if lp_port p \<and> \<not> lp_ready p then p\<lparr>lp_port := False\<rparr> else p) in
      if lp_port p then (if lp_configure p \<noteq> OK then p\<lparr>lp_port := False\<rparr> else p) else p)"

definition led_hw_init :: "led_pin option \<times> led_pin option \<Rightarrow> cret \<times> (led_pin option \<times> led_pin option) \<times> led_number_t list" where
  "led_hw_init pins =
     (case pins of (rec_pin, bt) \<Rightarrow>
        (OK, (map_option led_pin_init rec_pin, map_option led_pin_init bt),
         (if rec_pin = None then [] else [LED_NUM_REC]) @ (if bt = None then [] else [LED_NUM_BT])))"

text \<open>\<^verbatim>\<open>gpio_pin_set_dt\<close> goes through the port pointer: \<open>None\<close> when it is null.\<close>

definition led_set :: "led_pin \<Rightarrow> bool \<Rightarrow> bool option" where
  "led_set p v = (if lp_port p then Some v else None)"

text \<open>A round of a LED task drives the pin to each level in turn.\<close>

fun led_drive :: "led_pin \<Rightarrow> (bool \<times> nat) list \<Rightarrow> (bool \<times> nat) list option" where
  "led_drive p [] = Some []"
| "led_drive p ((v, ms) # es) = do {
     v \<leftarrow> led_set p v;
     es \<leftarrow> led_drive p es;
     Some ((v, ms) # es)
   }"

lemma led_drive_port: "lp_port p \<Longrightarrow> led_drive p es = Some es"
  by (induction p es rule: led_drive.induct) (simp_all add: led_set_def)

text \<open>A LED whose pin is not ready has a task all the same, which writes through the null pointer at once.\<close>

lemma failed_led_faults:
  assumes "led_hw_init (rec_pin, Some p) = (r, (rec', Some p'), tasks)"
    and "lp_port p" and "\<not> lp_ready p \<or> lp_configure p \<noteq> OK" and "mode \<noteq> LED_MODE_END"
  shows "LED_NUM_BT \<in> set tasks \<and> led_drive p' (led_round mode) = None"
proof -
  have t: "LED_NUM_BT \<in> set tasks" "p' = led_pin_init p" using assms(1) by (auto simp: led_hw_init_def)
  have "\<not> lp_port p'" using assms(2,3) by (auto simp: t(2) led_pin_init_def Let_def)
  moreover have "led_round mode \<noteq> []" using led_round_sleeps [OF assms(4)] by auto
  ultimately have "led_drive p' (led_round mode) = None"
    by (cases "led_round mode") (auto simp: led_set_def)
  with t show ?thesis by blast
qed

lemma working_led_driven:
  assumes "lp_port p" and "lp_ready p" and "lp_configure p = OK"
  shows "led_drive (led_pin_init p) es = Some es"
  using assms by (intro led_drive_port) (simp add: led_pin_init_def)

subsection \<open>All together\<close>

text \<open>
  The results of the initialisations are not looked at. The button, the LED pins and the CAN
  controller only leave their actions; Bluetooth is started on the state in which the LED
  mode has been set. \<open>ha_clock\<close> is \<open>None\<close> where the clock is not configured; a clock that never
  answers holds \<^verbatim>\<open>main\<close> for ever, which is the result \<open>None\<close> too.
\<close>

record hw_answers =
  ha_clock :: "(bool \<times> int \<times> (nat \<Rightarrow> int \<times> int)) option"
  ha_button :: gpio_driver
  ha_pins :: "led_pin option \<times> led_pin option"
  ha_can :: can_driver

record hw_actions =
  hw_button :: "button_action list"
  hw_led_tasks :: "led_number_t list"
  hw_can :: "can_action list"

definition gopro_main ::
    "ble_cfg \<Rightarrow> hw_answers \<Rightarrow> int \<times> bytes \<Rightarrow> cret \<Rightarrow> cret \<Rightarrow> (bt_addr_le_t \<Rightarrow> int) \<Rightarrow> cret \<Rightarrow> ble \<Rightarrow>
     (hw_actions \<times> ble) option" where
  "gopro_main cfg hw hwid auth info idc en b = do {
     clk \<leftarrow> (case ha_clock hw of None \<Rightarrow> Some 0 | Some (manager, request, answers) \<Rightarrow> clocks_start manager request answers);
     let button = gopro_gpio_init (ha_button hw);
     let (led_err, pins, tasks) = led_hw_init (ha_pins hw);
     let b = on_sys gopro_leds_init b;
     let (can_err, can) = canbus_init (ha_can hw);
     (r, b) \<leftarrow> gopro_bt_start cfg hwid auth info idc en b;
     Some (\<lparr>hw_button = button, hw_led_tasks = tasks, hw_can = can\<rparr>, b)
   }"

lemma clock_runs:
  assumes "\<And>m r a. ha_clock hw = Some (m, r, a) \<Longrightarrow> \<exists>n. fst (a n) = 0"
  shows "\<exists>clk. (case ha_clock hw of None \<Rightarrow> Some 0
    | Some (manager, request, answers) \<Rightarrow> clocks_start manager request answers) = Some clk"
  using assms clock_wait_returns by (auto simp: clocks_start_def split: option.split)

text \<open>
  Whatever becomes of the button, the LEDs and the CAN bus, Bluetooth starts, and every state
  it starts from is covered by the invariant of the Bluetooth side.
\<close>

lemma main_reaches:
  assumes i: "ble_initial dmc b" and hw_id: "length (snd hwid) = 10" "unat (word_of_int (fst hwid) :: u8) \<le> 10"
    and clk: "\<And>m r a. ha_clock hw = Some (m, r, a) \<Longrightarrow> \<exists>n. fst (a n) = 0"
  shows "\<exists>acts b'. gopro_main cfg hw hwid auth info idc en b = Some (acts, b') \<and>
    ble_reachable cfg dmc b' \<and>
    sys_leds (b_sys b') = (sys_leds (b_sys b))[1 := LED_MODE_BLINK_5S] \<and>
    (Callback_add \<in> set (hw_button acts) \<longleftrightarrow>
       gd_ready (ha_button hw) \<and> gd_configure (ha_button hw) = OK \<and> gd_interrupt (ha_button hw) = OK) \<and>
    (Isotp_init \<in> set (hw_can acts) \<longleftrightarrow> fst (canbus_init (ha_can hw)) = OK)"
proof -
  let ?b = "on_sys gopro_leds_init b"
  have "hw_static_addr (fst hwid) (snd hwid) \<noteq> None"
    using hw_addr_defined [OF hw_id(1), of "fst hwid"] hw_id(2) by simp
  then obtain a where "hw_static_addr (fst hwid) (snd hwid) = Some a" by blast
  then have "\<exists>r b'. gopro_bt_start cfg hwid auth info idc en ?b = Some (r, b') \<and> b_sys b' = b_sys ?b"
    by (simp add: gopro_bt_start_def Let_def)
  then obtain r b' where s: "gopro_bt_start cfg hwid auth info idc en ?b = Some (r, b')" "b_sys b' = b_sys ?b"
    by blast
  have "ble_reachable cfg dmc b'" by (rule ble_reachable.boot [OF i s(1)])
  moreover have "sys_leds (b_sys b') = (sys_leds (b_sys b))[1 := LED_MODE_BLINK_5S]"
    by (simp add: s(2) gopro_leds_init_def gopro_led_mode_set_def led_mode_set_bt)
  moreover have "Isotp_init \<in> set (snd (canbus_init (ha_can hw))) \<longleftrightarrow> fst (canbus_init (ha_can hw)) = OK"
    using canbus_init_result [of "ha_can hw"] by (cases "canbus_init (ha_can hw)") auto
  moreover obtain c where "(case ha_clock hw of None \<Rightarrow> Some 0
      | Some (manager, request, answers) \<Rightarrow> clocks_start manager request answers) = Some c"
    using clock_runs [of hw] clk by metis
  ultimately show ?thesis
    using s(1) by (simp add: gopro_main_def split_beta Let_def button_attached)
qed

end
