(* ===== verification/Isotp_Rx.thy ===== *)
theory Isotp_Rx
  imports Can_Bridge
begin

section \<open>Receiving from the CAN bus (\<^verbatim>\<open>canbus_isotp.c\<close>)\<close>

text \<open>
  The thread that puts an ISO-TP message together. \<^verbatim>\<open>isotp_recv_net\<close> answers with the
  number of bytes still to come and the fragments of the bytes received, or with a negative
  error. The thread takes a semaphore before a message and gives the message to the channel
  of \<^verbatim>\<open>can_rx_ble_subscriber_task\<close>, which gives the semaphore back.
\<close>

subsection \<open>State\<close>

datatype isotp_answer = Recv nat "bytes list" | Recv_error int

text \<open>
  The pointer \<^verbatim>\<open>buf\<close>: \<open>None\<close> as long as nothing has been stored in it, \<open>Some []\<close> for the
  null pointer. An answer comes with whether \<^verbatim>\<open>k_malloc\<close> would give memory then.
\<close>

record isotp_rx =
  ir_pkt :: mem_pkt_t
  ir_buf :: "bytes list option"
  ir_sem :: nat
  ir_running :: bool

definition zero_pkt :: mem_pkt_t where
  "zero_pkt = \<lparr>mp_index = 0, mp_len = 0, mp_data = None\<rparr>"

definition canbus_isotp_init :: isotp_rx where
  "canbus_isotp_init = \<lparr>ir_pkt = zero_pkt, ir_buf = None, ir_sem = 1, ir_running = True\<rparr>"

subsection \<open>One answer\<close>

definition rx_alloc ::
    "bool \<Rightarrow> int \<Rightarrow> bytes list option \<Rightarrow> mem_pkt_t \<Rightarrow> mem_pkt_t option" where
  "rx_alloc mem rem_len buf pkt =
     (if mp_data pkt \<noteq> None then Some pkt
      else case buf of
        Some (f # fs) \<Rightarrow>
          let alloc_size = word_of_int (rem_len + int (length f)) :: u32 in
          Some (if mem
                then pkt\<lparr>mp_data := Some (replicate (unat alloc_size) 0), mp_len := sint alloc_size\<rparr>
                else pkt)
      | _ \<Rightarrow> None)"

lemma rx_alloc_have [simp]: "mp_data pkt = Some d \<Longrightarrow> rx_alloc mem r buf pkt = Some pkt"
  by (simp add: rx_alloc_def)

text \<open>The loop over the fragments, each freed once it is copied.\<close>

fun rx_copy :: "bytes list \<Rightarrow> mem_pkt_t \<Rightarrow> bytes \<Rightarrow> mem_pkt_t option" where
  "rx_copy [] pkt d = Some (pkt\<lparr>mp_data := Some d\<rparr>)"
| "rx_copy (f # fs) pkt d = do {
     d \<leftarrow> wr_block d (mp_index pkt) f;
     rx_copy fs (pkt\<lparr>mp_index := mp_index pkt + length f\<rparr>) d
   }"

datatype rx_status = Rx_more | Rx_done | Rx_failed

definition rx_answer ::
    "bool \<Rightarrow> isotp_answer \<Rightarrow> bytes list option \<times> mem_pkt_t \<Rightarrow>
     (rx_status \<times> bytes list option \<times> mem_pkt_t) option" where
  "rx_answer mem r st =
     (let (rem_len, buf) = (case r of Recv n fs \<Rightarrow> (int n, Some fs) | Recv_error e \<Rightarrow> (e, fst st)) in do {
        pkt \<leftarrow> rx_alloc mem rem_len buf (snd st);
        if rem_len < 0 then Some (Rx_failed, buf, pkt\<lparr>mp_len := - 1\<rparr>)
        else do {
          (buf, pkt) \<leftarrow> (case mp_data pkt of
             None \<Rightarrow> Some (buf, pkt)
           | Some d \<Rightarrow> (case buf of None \<Rightarrow> None
                        | Some fs \<Rightarrow> map_option (Pair (Some [])) (rx_copy fs pkt d)));
          Some (if rem_len = 0 then Rx_done else Rx_more, buf, pkt)
        }
      })"

text \<open>The answers of one message; \<open>Rx_more\<close> while the thread waits for the next.\<close>

fun rx_message ::
    "(isotp_answer \<times> bool) list \<Rightarrow> bytes list option \<times> mem_pkt_t \<Rightarrow>
     (rx_status \<times> bytes list option \<times> mem_pkt_t) option" where
  "rx_message [] st = Some (Rx_more, st)"
| "rx_message ((r, mem) # rs) st = do {
     (status, st) \<leftarrow> rx_answer mem r st;
     if status = Rx_more then rx_message rs st else Some (status, st)
   }"

subsection \<open>A round of the thread\<close>

text \<open>
  \<open>pub\<close> is the channel's answer; the packet it takes is the first component. A round needs
  the semaphore; a failure gives it back and ends the thread.
\<close>

definition isotp_rx_round ::
    "cret \<Rightarrow> (isotp_answer \<times> bool) list \<Rightarrow> isotp_rx \<Rightarrow> (mem_pkt_t option \<times> isotp_rx) option" where
  "isotp_rx_round pub rs ir =
     (if \<not> ir_running ir \<or> ir_sem ir = 0 then Some (None, ir)
      else
        let ir = ir\<lparr>ir_sem := ir_sem ir - 1, ir_pkt := zero_pkt\<rparr> in do {
          (status, buf, pkt) \<leftarrow> rx_message rs (ir_buf ir, ir_pkt ir);
          let ir = ir\<lparr>ir_buf := buf, ir_pkt := pkt\<rparr>;
              failed = ir\<lparr>ir_sem := k_sem_give 1 (ir_sem ir), ir_running := False\<rparr> in
          if status = Rx_more then Some (None, ir)
          else if mp_len pkt < 0 then Some (None, failed)
          else if pub \<noteq> OK then Some (None, failed)
          else Some (Some pkt, ir)
        })"

subsection \<open>A message in blocks\<close>

text \<open>The answers for the blocks of a message: each tells how much is still to come.\<close>

fun answers :: "bytes list \<Rightarrow> (isotp_answer \<times> bool) list" where
  "answers [] = []"
| "answers (f # fs) = (Recv (length (concat fs)) [f], True) # answers fs"

lemma alloc_size:
  assumes "m + n < 2 ^ 31"
  shows "unat (word_of_int (int m + int n) :: u32) = m + n"
    and "sint (word_of_int (int m + int n) :: u32) = int m + int n"
proof -
  have e: "(word_of_int (int m + int n) :: u32) = of_nat (m + n)" by simp
  show "unat (word_of_int (int m + int n) :: u32) = m + n"
    using assms unfolding e by (simp only: unat_of_nat) simp
  have "sint (word_of_int (int m + int n) :: u32) = signed_take_bit 31 (int m + int n)"
    by (simp only: signed_of_int) simp
  also have "\<dots> = int m + int n"
    using assms by (intro signed_take_bit_int_eq_self) simp_all
  finally show "sint (word_of_int (int m + int n) :: u32) = int m + int n" .
qed

lemma wr_block_fits:
  "i + length f \<le> length d \<Longrightarrow> wr_block d i f = Some (take i d @ f @ drop (i + length f) d)"
  by (simp add: wr_block_def)

text \<open>With \<open>pre\<close> received, the rest of the blocks fill the buffer up.\<close>

lemma rx_message_rest:
  assumes "fs \<noteq> []" and "\<forall>f \<in> set fs. f \<noteq> []"
    and "mp_data pkt = Some (pre @ replicate (length (concat fs)) 0)" and "mp_index pkt = length pre"
  shows "rx_message (answers fs) (buf, pkt) =
    Some (Rx_done, Some [], pkt\<lparr>mp_data := Some (pre @ concat fs), mp_index := length pre + length (concat fs)\<rparr>)"
  using assms
proof (induction fs arbitrary: buf pkt pre)
  case Nil
  then show ?case by simp
next
  case (Cons f fs)
  let ?pkt = "pkt\<lparr>mp_index := length pre + length f, mp_data := Some ((pre @ f) @ replicate (length (concat fs)) 0)\<rparr>"
  have w: "wr_block (pre @ replicate (length f + length (concat fs)) 0) (length pre) f =
      Some (pre @ f @ replicate (length (concat fs)) 0)"
    by (simp add: wr_block_fits)
  have a: "rx_answer True (Recv (length (concat fs)) [f]) (buf, pkt) =
      Some (if fs = [] then Rx_done else Rx_more, Some [], ?pkt)"
    using Cons.prems w by (auto simp: rx_answer_def rx_alloc_def concat_eq_Nil_conv)
  show ?case
  proof (cases "fs = []")
    case True
    then show ?thesis using a by simp
  next
    case False
    have "rx_message (answers fs) (Some [], ?pkt) =
      Some (Rx_done, Some [], ?pkt\<lparr>mp_data := Some ((pre @ f) @ concat fs), mp_index := length (pre @ f) + length (concat fs)\<rparr>)"
      using False Cons.prems by (intro Cons.IH) simp_all
    then show ?thesis using a False by (simp add: add.assoc)
  qed
qed

lemma rx_message_blocks:
  assumes "fs \<noteq> []" and "\<forall>f \<in> set fs. f \<noteq> []" and "length (concat fs) < 2 ^ 31"
  shows "rx_message (answers fs) (buf, zero_pkt) =
    Some (Rx_done, Some [], \<lparr>mp_index = length (concat fs), mp_len = int (length (concat fs)), mp_data = Some (concat fs)\<rparr>)"
proof -
  obtain f gs where fs: "fs = f # gs" using assms(1) by (cases fs) auto
  let ?n = "length (concat fs)"
  let ?pkt = "\<lparr>mp_index = 0, mp_len = int ?n, mp_data = Some (replicate ?n 0)\<rparr>"
  have "length (concat gs) + length f < 2 ^ 31" using assms(3) by (simp add: fs)
  note u = alloc_size [OF this]
  have al: "rx_alloc True (int (length (concat gs))) (Some [f]) zero_pkt = Some ?pkt"
    unfolding rx_alloc_def zero_pkt_def Let_def list.case option.case u by (simp add: fs add.commute)
  have "rx_message (answers fs) (buf, zero_pkt) = rx_message (answers fs) (buf, ?pkt)"
    by (simp add: fs rx_answer_def al [unfolded fs, simplified])
  then show ?thesis
    using rx_message_rest [of fs ?pkt "[]" buf] assms(1,2) by simp
qed

lemma isotp_round_message:
  assumes "fs \<noteq> []" and "\<forall>f \<in> set fs. f \<noteq> []" and "length (concat fs) < 2 ^ 31"
    and "ir_running ir" and "0 < ir_sem ir"
  shows "\<exists>ir' p. isotp_rx_round OK (answers fs) ir = Some (Some p, ir') \<and>
    mem_pkt_input p = Some (concat fs) \<and> wf_mem_pkt p \<and> ir_running ir' \<and> ir_sem ir' = ir_sem ir - 1"
  using assms(4,5) rx_message_blocks [OF assms(1-3), of "ir_buf ir"]
  by (simp add: isotp_rx_round_def Let_def mem_pkt_input_def wf_mem_pkt_def)

subsection \<open>Any answers\<close>

text \<open>Whatever the bus answers, a packet that is published has the length of its block.\<close>

definition rx_pkt_ok :: "mem_pkt_t \<Rightarrow> bool" where
  "rx_pkt_ok p \<longleftrightarrow>
     (case mp_data p of None \<Rightarrow> mp_len p = 0
      | Some d \<Rightarrow> \<exists>n :: u32. length d = unat n \<and> mp_len p = sint n)"

lemma rx_alloc_ok: "rx_alloc mem r buf p = Some p' \<Longrightarrow> rx_pkt_ok p \<Longrightarrow> rx_pkt_ok p'"
  unfolding rx_pkt_ok_def
  by (auto simp: rx_alloc_def Let_def split: if_split_asm option.splits list.splits) blast

lemma sint_nonneg:
  fixes n :: u32
  assumes "0 \<le> sint n"
  shows "sint n = uint n"
proof -
  have "sint n < 2 ^ 31" using sint_less [of n] by simp
  then have "take_bit 32 (sint n) = sint n" using assms by (simp add: take_bit_int_eq_self)
  then show ?thesis using uint_sint [of n] by simp
qed

lemma rx_copy_ok:
  "rx_copy fs p d = Some p' \<Longrightarrow> mp_len p' = mp_len p \<and> (\<exists>d'. mp_data p' = Some d' \<and> length d' = length d)"
proof (induction fs p d rule: rx_copy.induct)
  case (2 f fs p d)
  then obtain e where e: "wr_block d (mp_index p) f = Some e"
    "rx_copy fs (p\<lparr>mp_index := mp_index p + length f\<rparr>) e = Some p'"
    by (auto simp: bind_eq_Some_conv)
  with "2.IH" [OF e] length_wr_block [OF e(1)] show ?case by simp
qed auto

lemma rx_answer_ok:
  assumes "rx_answer mem r (buf, p) = Some (st, buf', p')" and "rx_pkt_ok p"
  shows "rx_pkt_ok p' \<or> mp_len p' = - 1 \<and> st = Rx_failed"
proof -
  obtain rem b where rb: "(case r of Recv n fs \<Rightarrow> (int n, Some fs) | Recv_error e \<Rightarrow> (e, fst (buf, p))) = (rem, b)" by force
  obtain q where q: "rx_alloc mem rem b p = Some q"
    and p': "p' = q\<lparr>mp_len := - 1\<rparr> \<and> st = Rx_failed \<or> p' = q \<or> (\<exists>d fs. mp_data q = Some d \<and> rx_copy fs q d = Some p')"
    using assms(1)
    by (simp add: rx_answer_def rb bind_eq_Some_conv split: if_split_asm option.splits) blast+
  have "rx_pkt_ok q" by (rule rx_alloc_ok [OF q assms(2)])
  with p' show ?thesis by (auto simp: rx_pkt_ok_def dest!: rx_copy_ok)
qed

lemma rx_message_ok:
  "rx_message rs (buf, p) = Some (st, buf', p') \<Longrightarrow> rx_pkt_ok p \<Longrightarrow> rx_pkt_ok p' \<or> mp_len p' = - 1"
proof (induction rs arbitrary: buf p)
  case (Cons a rs)
  obtain r mem where a: "a = (r, mem)" by force
  obtain st1 buf1 p1 where 1: "rx_answer mem r (buf, p) = Some (st1, buf1, p1)"
    "(if st1 = Rx_more then rx_message rs (buf1, p1) else Some (st1, buf1, p1)) = Some (st, buf', p')"
    using Cons.prems(1) by (auto simp: a bind_eq_Some_conv)
  show ?case
    using rx_answer_ok [OF 1(1) Cons.prems(2)] 1(2) Cons.IH by (cases "st1 = Rx_more") auto
qed simp

lemma isotp_round_pkt:
  assumes "isotp_rx_round pub rs ir = Some (p, ir')" and "ir_sem ir \<le> 1"
  shows "case p of None \<Rightarrow> ir_sem ir' \<le> ir_sem ir
    | Some q \<Rightarrow> wf_mem_pkt q \<and> ir_sem ir = 1 \<and> ir_sem ir' = 0"
proof (cases "\<not> ir_running ir \<or> ir_sem ir = 0")
  case True
  then show ?thesis using assms(1) by (auto simp: isotp_rx_round_def)
next
  case False
  then have s: "ir_running ir" "ir_sem ir = 1" using assms(2) by auto
  obtain st buf q where m: "rx_message rs (ir_buf ir, zero_pkt) = Some (st, buf, q)"
    using assms(1) s by (auto simp: isotp_rx_round_def bind_eq_Some_conv Let_def)
  have ok: "rx_pkt_ok q \<or> mp_len q = - 1"
    by (rule rx_message_ok [OF m]) (simp add: rx_pkt_ok_def zero_pkt_def)
  have "0 \<le> mp_len q \<Longrightarrow> wf_mem_pkt q"
    using ok by (auto simp: rx_pkt_ok_def wf_mem_pkt_def sint_nonneg split: option.splits)
  then show ?thesis
    using assms(1) s m
    by (auto simp: isotp_rx_round_def Let_def k_sem_give_def split: if_split_asm)
qed

subsection \<open>Failures\<close>

text \<open>An error at the start of the first message goes through the pointer that was never set.\<close>

lemma first_error_reads_unset:
  "e < 0 \<Longrightarrow> isotp_rx_round pub ((Recv_error e, mem) # rs) canbus_isotp_init = None"
  by (simp add: isotp_rx_round_def canbus_isotp_init_def rx_answer_def rx_alloc_def zero_pkt_def Let_def)

text \<open>An error later in a message ends the thread.\<close>

lemma later_error_ends_thread:
  assumes "ir_running ir" and "0 < ir_sem ir" and "e < 0" and f: "f \<noteq> []" "0 < n" "n + length f < 2 ^ 31"
  shows "\<exists>ir'. isotp_rx_round pub ((Recv n [f], True) # (Recv_error e, mem) # rs) ir = Some (None, ir') \<and>
    \<not> ir_running ir'"
proof -
  have a: "rx_alloc True (int n) (Some [f]) zero_pkt =
      Some \<lparr>mp_index = 0, mp_len = int n + int (length f), mp_data = Some (replicate (n + length f) 0)\<rparr>"
    unfolding rx_alloc_def zero_pkt_def Let_def list.case option.case alloc_size [OF f(3)] by simp
  show ?thesis
    using assms
    by (simp add: isotp_rx_round_def rx_answer_def a wr_block_fits Let_def)
qed

lemma ended_thread_idle: "\<not> ir_running ir \<Longrightarrow> isotp_rx_round pub rs ir = Some (None, ir)"
  by (simp add: isotp_rx_round_def)

text \<open>
  When there is no memory at the first block and there is at the second, the message is
  published without its first block.
\<close>

lemma tail_published:
  assumes "ir_running ir" and "0 < ir_sem ir" and "fs \<noteq> []" and "\<forall>f \<in> set fs. f \<noteq> []"
    and "length (concat fs) < 2 ^ 31"
  shows "\<exists>ir' p. isotp_rx_round OK ((Recv (length (concat fs)) [f], False) # answers fs) ir = Some (Some p, ir') \<and>
    mem_pkt_input p = Some (concat fs)"
proof -
  have "0 < length (concat fs)" using assms(3,4) by (cases fs) auto
  then have "rx_answer False (Recv (length (concat fs)) [f]) (ir_buf ir, zero_pkt) = Some (Rx_more, Some [f], zero_pkt)"
    by (simp add: rx_answer_def rx_alloc_def zero_pkt_def Let_def)
  then show ?thesis
    using assms rx_message_blocks [OF assms(3-5), of "Some [f]"]
    by (simp add: isotp_rx_round_def Let_def mem_pkt_input_def)
qed

text \<open>The buffer counts the first fragment of the first block only.\<close>

lemma chained_block_overflows:
  assumes "ir_running ir" and "0 < ir_sem ir" and "g \<noteq> []" and "n + length f < 2 ^ 31" and "n < length g"
  shows "isotp_rx_round pub ((Recv n [f, g], True) # rs) ir = None"
proof -
  have a: "rx_alloc True (int n) (Some [f, g]) zero_pkt =
      Some \<lparr>mp_index = 0, mp_len = int n + int (length f), mp_data = Some (replicate (n + length f) 0)\<rparr>"
    unfolding rx_alloc_def zero_pkt_def Let_def list.case option.case alloc_size [OF assms(4)] by simp
  show ?thesis
    using assms by (simp add: isotp_rx_round_def rx_answer_def a Let_def wr_block_def)
qed

subsection \<open>From the bus to the camera\<close>

lemma isotp_to_camera:
  assumes fs: "fs \<noteq> []" "\<forall>f \<in> set fs. f \<noteq> []" "length (concat fs) < 2 ^ 31"
    and ir: "ir_running ir" "0 < ir_sem ir"
    and r: "dec_bledata env (concat fs) = \<lparr>pb_fields = addr, pb_subs = [(2, msg)], pb_ok = True\<rparr>"
    and a: "0 \<le> addr" "addr < 4" and l: "length msg \<le> 20"
    and rx: "wf_can_rx rx" and stk: "length stk = 20" and st: "gs_state (sys_state sys) = GP_STATE_CONNECTED"
    and ch: "\<And>c. env_cmd_chan env c = OK"
  shows "\<exists>ir' p rx' sys' f. isotp_rx_round OK (answers fs) ir = Some (Some p, ir') \<and>
    can_rx_ble_step env stk p (rx, sys) = Some (rx', sys') \<and>
    sys_cmd_queue sys' = sys_cmd_queue sys @ [f] \<and> cmd_type f = word_of_int addr \<and> frame_bytes f = msg"
proof -
  obtain ir' p where p: "isotp_rx_round OK (answers fs) ir = Some (Some p, ir')"
    "mem_pkt_input p = Some (concat fs)" "wf_mem_pkt p"
    using isotp_round_message [OF fs ir] by blast
  then show ?thesis using can_rx_ble_raw [OF p(3,2) r a l rx stk st ch] by blast
qed

end
