(* ===== verification/Firmware.thy ===== *)
theory Firmware
  imports Startup Isotp_Rx
begin

section \<open>The whole firmware\<close>

text \<open>
  The Bluetooth side and the CAN side together: every thread, work item, timer and callback
  of the firmware is a step, in any order and with any answers of the Bluetooth stack, the
  drivers and the bus. The states that can be reached are those from \<^verbatim>\<open>main\<close> on. The two
  sides share the globals in \<open>b_sys\<close>.
\<close>

subsection \<open>State\<close>

text \<open>
  \<open>fw_messages\<close> are the messages from the bus that wait for \<^verbatim>\<open>can_rx_ble_subscriber_task\<close>,
  \<open>fw_rx_buf\<close> is its buffer, and \<open>fw_flight\<close> are the replies the ISO-TP sender is sending. The
  semaphore \<^verbatim>\<open>can_isotp_rx_sem\<close>, which that task gives, is the field of \<open>fw_isotp\<close>.
\<close>

record firmware =
  fw_ble :: ble
  fw_tx_queue :: "can_frame list"
  fw_data_queue :: "gopro_cmd_t list"
  fw_tx_sem :: nat
  fw_tx_thread :: can_tx_thread
  fw_bus :: "can_frame list"
  fw_isotp :: isotp_rx
  fw_messages :: "mem_pkt_t list"
  fw_rx_buf :: bytes
  fw_flight :: "mem_pkt_t list"

abbreviation (input) fw_sys :: "firmware \<Rightarrow> gopro_sys" where
  "fw_sys fw \<equiv> b_sys (fw_ble fw)"

text \<open>The part of the state the functions of \<^verbatim>\<open>canbus.c\<close> work on.\<close>

definition fw_node :: "firmware \<Rightarrow> can_node" where
  "fw_node fw =
     \<lparr>cn_sys = fw_sys fw, cn_tx_queue = fw_tx_queue fw, cn_data_queue = fw_data_queue fw, cn_tx_sem = fw_tx_sem fw\<rparr>"

definition put_sys :: "gopro_sys \<Rightarrow> firmware \<Rightarrow> firmware" where
  "put_sys sys fw = fw\<lparr>fw_ble := (fw_ble fw)\<lparr>b_sys := sys\<rparr>\<rparr>"

definition put_node :: "can_node \<Rightarrow> firmware \<Rightarrow> firmware" where
  "put_node n fw = put_sys (cn_sys n)
     (fw\<lparr>fw_tx_queue := cn_tx_queue n, fw_data_queue := cn_data_queue n, fw_tx_sem := cn_tx_sem n\<rparr>)"

definition rx_task :: "firmware \<Rightarrow> can_rx_t" where
  "rx_task fw = \<lparr>crx_buf = fw_rx_buf fw, crx_sem = ir_sem (fw_isotp fw)\<rparr>"

definition fw_boot :: "hw_actions \<Rightarrow> ble \<Rightarrow> firmware" where
  "fw_boot acts b =
     \<lparr>fw_ble = b, fw_tx_queue = [], fw_data_queue = [], fw_tx_sem = 0,
      fw_tx_thread = \<lparr>tx_error_flag = 0, tx_timeout_flag = 0, tx_log = []\<rparr>, fw_bus = [],
      fw_isotp = canbus_isotp_init\<lparr>ir_running := Isotp_init \<in> set (hw_can acts)\<rparr>, fw_messages = [],
      fw_rx_buf = replicate BLEDATA_BUFF_SIZE 0, fw_flight = []\<rparr>"

subsection \<open>Steps\<close>

inductive fw_step :: "ble_cfg \<Rightarrow> dm_cfg \<Rightarrow> firmware \<Rightarrow> firmware \<Rightarrow> bool" for cfg dmc where
  bluetooth: "ble_step cfg dmc (fw_ble fw) b \<Longrightarrow> fw_step cfg dmc fw (fw\<lparr>fw_ble := b\<rparr>)"
| button: "fw_step cfg dmc fw (put_sys (button_pressed (bc_env cfg) (fw_sys fw)) fw)"
| can_receive: "rx_callback_function (bc_env cfg) deliver f (fw_node fw) = Some n \<Longrightarrow>
    fw_step cfg dmc fw (put_node n fw)"
| can_data: "can_data_subscriber_step deliver (fw_node fw) = Some n \<Longrightarrow> fw_step cfg dmc fw (put_node n fw)"
| can_heartbeat: "fw_step cfg dmc fw (put_node (can_tx_work_handler deliver (fw_node fw)) fw)"
| can_transmit: "can_tx_subscriber_step send arrived (fw_node fw, fw_tx_thread fw, fw_bus fw) = Some (n, th, bus) \<Longrightarrow>
    fw_step cfg dmc fw ((put_node n fw)\<lparr>fw_tx_thread := th, fw_bus := bus\<rparr>)"
| can_sent: "fw_step cfg dmc fw (put_node (can_tx_callback (fw_node fw)) fw)"
| isotp_receive: "isotp_rx_round pub rs (fw_isotp fw) = Some (p, ir) \<Longrightarrow>
    fw_step cfg dmc fw (fw\<lparr>fw_isotp := ir, fw_messages := fw_messages fw @ (case p of None \<Rightarrow> [] | Some q \<Rightarrow> [q])\<rparr>)"
| forward: "fw_messages fw = p # ps \<Longrightarrow> length stk = 20 \<Longrightarrow>
    can_rx_ble_step (bc_env cfg) stk p (rx_task fw, fw_sys fw) = Some (rx, sys) \<Longrightarrow>
    fw_step cfg dmc fw (put_sys sys
      (fw\<lparr>fw_messages := ps, fw_rx_buf := crx_buf rx, fw_isotp := (fw_isotp fw)\<lparr>ir_sem := crx_sem rx\<rparr>\<rparr>))"
| isotp_transmit: "isotp_tx_step started (fw_sys fw, fw_flight fw) = Some (sys, fl) \<Longrightarrow>
    fw_step cfg dmc fw (put_sys sys (fw\<lparr>fw_flight := fl\<rparr>))"
| isotp_sent: "isotpsend_callback (fw_sys fw, fw_flight fw) = Some (sys, fl) \<Longrightarrow>
    fw_step cfg dmc fw (put_sys sys (fw\<lparr>fw_flight := fl\<rparr>))"

inductive fw_reachable :: "ble_cfg \<Rightarrow> dm_cfg \<Rightarrow> firmware \<Rightarrow> bool" for cfg dmc where
  main: "ble_initial dmc b \<Longrightarrow> gopro_main cfg hw hwid auth info idc en b = Some (acts, b') \<Longrightarrow>
    fw_reachable cfg dmc (fw_boot acts b')"
| step: "fw_reachable cfg dmc fw \<Longrightarrow> fw_step cfg dmc fw fw' \<Longrightarrow> fw_reachable cfg dmc fw'"

subsection \<open>The invariant\<close>

text \<open>
  The Bluetooth side keeps its invariant and has what is left of \<open>m\<close> reply slots, at most one, when
  those under way are taken away; every
  frame that waits or is on the bus is valid; at most one message from the bus waits, and it is
  well-formed.
\<close>

definition fw_inv :: "dm_cfg \<Rightarrow> nat \<Rightarrow> firmware \<Rightarrow> bool" where
  "fw_inv dmc m fw \<longleftrightarrow>
     ble_inv dmc (m - length (fw_flight fw)) (fw_ble fw) \<and> length (fw_flight fw) \<le> m \<and> m \<le> 1 \<and>
     tx_thread_ok (fw_tx_thread fw) \<and> list_all can_msg_validator (fw_tx_queue fw @ fw_bus fw) \<and>
     length (fw_rx_buf fw) = BLEDATA_BUFF_SIZE \<and> list_all wf_mem_pkt (fw_messages fw) \<and>
     ir_sem (fw_isotp fw) + length (fw_messages fw) \<le> 1"

lemma fw_node_sel [simp]:
  "cn_sys (fw_node fw) = fw_sys fw" "cn_tx_queue (fw_node fw) = fw_tx_queue fw"
  "cn_data_queue (fw_node fw) = fw_data_queue fw" "cn_tx_sem (fw_node fw) = fw_tx_sem fw"
  by (simp_all add: fw_node_def)

lemma put_sel [simp]:
  "fw_ble (put_sys sys fw) = (fw_ble fw)\<lparr>b_sys := sys\<rparr>" "fw_tx_queue (put_sys sys fw) = fw_tx_queue fw"
  "fw_tx_thread (put_sys sys fw) = fw_tx_thread fw" "fw_bus (put_sys sys fw) = fw_bus fw"
  "fw_isotp (put_sys sys fw) = fw_isotp fw" "fw_messages (put_sys sys fw) = fw_messages fw"
  "fw_rx_buf (put_sys sys fw) = fw_rx_buf fw" "fw_flight (put_sys sys fw) = fw_flight fw"
  "fw_ble (put_node n fw) = (fw_ble fw)\<lparr>b_sys := cn_sys n\<rparr>" "fw_tx_queue (put_node n fw) = cn_tx_queue n"
  "fw_tx_thread (put_node n fw) = fw_tx_thread fw" "fw_bus (put_node n fw) = fw_bus fw"
  "fw_isotp (put_node n fw) = fw_isotp fw" "fw_messages (put_node n fw) = fw_messages fw"
  "fw_rx_buf (put_node n fw) = fw_rx_buf fw" "fw_flight (put_node n fw) = fw_flight fw"
  by (simp_all add: put_sys_def put_node_def)

text \<open>What the CAN functions may do to the state.\<close>

definition can_ok :: "can_node \<Rightarrow> can_node \<Rightarrow> bool" where
  "can_ok n n' \<longleftrightarrow> link_ok (cn_sys n) (cn_sys n') \<and>
     (list_all can_msg_validator (cn_tx_queue n) \<longrightarrow> list_all can_msg_validator (cn_tx_queue n'))"

lemma can_ok_pub: "can_ok n (snd (can_tx_pub deliver f n))"
  by (simp add: can_ok_def can_tx_pub_def)

lemma can_ok_receive:
  assumes "rx_callback_function env deliver f n = Some n'"
  shows "can_ok n n'"
proof (cases "rx_cmd_type (cf_id f)")
  case None
  then show ?thesis using assms by (simp add: rx_callback_function_def can_ok_def)
next
  case (Some ty)
  show ?thesis
  proof (cases "0 < cf_dlc f \<and> unat (cf_dlc f) \<le> GOPRO_CMD_DATA_LEN")
    case False
    then show ?thesis using assms Some by (auto simp: rx_callback_function_def can_ok_def split: if_split_asm)
  next
    case True
    let ?m = "\<lambda>c. n\<lparr>cn_sys := snd (cmd_chan_pub env c (cn_sys n))\<rparr>"
    obtain d data c where d: "wr_block (replicate GOPRO_CMD_DATA_LEN 0) 0 d = Some data"
      and c: "c = \<lparr>cmd_len = ucast (cf_dlc f), cmd_type = ty, cmd_data = data\<rparr>"
      and n': "(if fst (cmd_chan_pub env c (cn_sys n)) = Neg ENOMSG then snd (can_tx_pub deliver err_state_frame (?m c)) else ?m c) = n'"
      using assms True by (simp add: rx_callback_function_def Some bind_eq_Some_conv split_beta Let_def) blast
    have "wf_cmd c" using length_wr_block [OF d] by (simp add: c wf_cmd_def)
    then have "can_ok n (?m c)" using link_pub by (simp add: can_ok_def)
    moreover have "can_ok (?m c) n'"
      unfolding n' [symmetric] using can_ok_pub [of "?m c"] by (simp add: can_ok_def)
    ultimately show ?thesis using link_trans by (auto simp: can_ok_def)
  qed
qed

lemma can_ok_data: "can_data_subscriber_step deliver n = Some n' \<Longrightarrow> can_ok n n'"
  using can_ok_pub [of "n\<lparr>cn_data_queue := q\<rparr>" for q]
  by (auto simp: can_data_subscriber_step_def can_data_round_def bind_eq_Some_conv can_ok_def Let_def
      split: list.splits if_split_asm option.splits)

lemma can_ok_heartbeat: "can_ok n (can_tx_work_handler deliver n)"
  unfolding can_tx_work_handler_def by (rule can_ok_pub)

lemma can_ok_callback: "can_ok n (can_tx_callback n)"
  by (simp add: can_ok_def can_tx_callback_def)

lemma inv_node: "fw_inv dmc m fw \<Longrightarrow> can_ok (fw_node fw) n \<Longrightarrow> fw_inv dmc m (put_node n fw)"
  by (simp add: fw_inv_def can_ok_def inv_sys)

lemma inv_put_sys: "fw_inv dmc m fw \<Longrightarrow> link_ok (fw_sys fw) sys \<Longrightarrow> fw_inv dmc m (put_sys sys fw)"
  by (simp add: fw_inv_def inv_sys)

lemma inv_transmit:
  assumes inv: "fw_inv dmc m fw"
    and s: "can_tx_subscriber_step send arrived (fw_node fw, fw_tx_thread fw, fw_bus fw) = Some (n, th, bus)"
  shows "fw_inv dmc m ((put_node n fw)\<lparr>fw_tx_thread := th, fw_bus := bus\<rparr>)"
proof -
  obtain f q where q: "cn_tx_queue (fw_node fw) = f # q"
    using s by (auto simp: can_tx_subscriber_step_def split: list.splits)
  have "cn_sys n = fw_sys fw" "cn_tx_queue n = q" "bus = fw_bus fw @ (if send f = OK then [f] else [])"
    using s [unfolded tx_step_cons [OF q]] by auto
  then show ?thesis
    using inv q tx_step_ok [OF s] by (simp add: fw_inv_def inv_sys)
qed

lemma inv_slots:
  assumes "ble_inv dmc n b" and "s \<le> 1" and "s + length q \<le> m"
  shows "ble_inv dmc m (b\<lparr>b_sys := (b_sys b)\<lparr>sys_can_reply_sem := s, sys_can_tx := q\<rparr>\<rparr>)"
  using assms by (simp add: ble_inv_def talking_def wf_sys_def)

lemma inv_isotp_transmit:
  assumes inv: "fw_inv dmc m fw" and s: "isotp_tx_step started (fw_sys fw, fw_flight fw) = Some (sys, fl)"
  shows "fw_inv dmc m (put_sys sys (fw\<lparr>fw_flight := fl\<rparr>))"
proof -
  obtain p q where q: "sys_can_tx (fw_sys fw) = p # q" and fl: "fl = (if started then fw_flight fw @ [p] else fw_flight fw)"
    and sys: "sys = (fw_sys fw)\<lparr>sys_can_tx := q\<rparr>"
    using s by (auto simp: isotp_tx_step_def split: list.splits)
  have b: "ble_inv dmc (m - length (fw_flight fw)) (fw_ble fw)" using inv by (simp add: fw_inv_def)
  then have r: "sys_can_reply_sem (fw_sys fw) + Suc (length q) \<le> m - length (fw_flight fw)" "m \<le> 1"
    using inv by (simp_all add: ble_inv_def fw_inv_def q)
  then have "fw_flight fw = []" "m = 1" by (cases "fw_flight fw", simp_all)
  with r have z: "sys_can_reply_sem (fw_sys fw) = 0" "q = []" "fw_flight fw = []" "m = 1" by simp_all
  have "sys = (fw_sys fw)\<lparr>sys_can_reply_sem := 0, sys_can_tx := []\<rparr>" using sys z by simp
  then have "ble_inv dmc (m - length fl) ((fw_ble fw)\<lparr>b_sys := sys\<rparr>)"
    using inv_slots [OF b, of 0 "[]"] z(4) by simp
  then show ?thesis using inv z(3,4) fl by (simp add: fw_inv_def)
qed

lemma inv_isotp_sent:
  assumes inv: "fw_inv dmc m fw" and s: "isotpsend_callback (fw_sys fw, fw_flight fw) = Some (sys, fl)"
  shows "fw_inv dmc m (put_sys sys (fw\<lparr>fw_flight := fl\<rparr>))"
proof -
  obtain p where f: "fw_flight fw = p # fl"
    and sys: "sys = (fw_sys fw)\<lparr>sys_can_reply_sem := k_sem_give 1 (sys_can_reply_sem (fw_sys fw))\<rparr>"
    using s by (auto simp: isotpsend_callback_def split: list.splits)
  have b: "ble_inv dmc (m - length (fw_flight fw)) (fw_ble fw)" using inv by (simp add: fw_inv_def)
  have "length (fw_flight fw) \<le> m" "m \<le> 1" using inv by (simp_all add: fw_inv_def)
  then have m: "m = 1" "fl = []" using f by (simp, cases fl) auto
  with b have z: "sys_can_tx (fw_sys fw) = []" "sys_can_reply_sem (fw_sys fw) = 0" using f by (simp_all add: ble_inv_def)
  have "sys = (fw_sys fw)\<lparr>sys_can_reply_sem := 1, sys_can_tx := []\<rparr>" using sys z by (simp add: k_sem_give_def)
  then have "ble_inv dmc 1 ((fw_ble fw)\<lparr>b_sys := sys\<rparr>)" using inv_slots [OF b, of 1 "[]"] by simp
  then show ?thesis using inv m by (simp add: fw_inv_def)
qed

lemma inv_isotp_receive:
  assumes inv: "fw_inv dmc m fw" and s: "isotp_rx_round pub rs (fw_isotp fw) = Some (p, ir)"
  shows "fw_inv dmc m (fw\<lparr>fw_isotp := ir, fw_messages := fw_messages fw @ (case p of None \<Rightarrow> [] | Some q \<Rightarrow> [q])\<rparr>)"
proof -
  have "ir_sem (fw_isotp fw) \<le> 1" using inv by (simp add: fw_inv_def)
  from isotp_round_pkt [OF s this] inv show ?thesis
    by (cases p) (auto simp: fw_inv_def)
qed

text \<open>A message that waits can be forwarded: the task makes no access outside its memory.\<close>

lemma forward_defined:
  assumes inv: "fw_inv dmc m fw" and m: "fw_messages fw = p # ps" and stk: "length stk = 20"
  shows "\<exists>rx sys. can_rx_ble_step env stk p (rx_task fw, fw_sys fw) = Some (rx, sys) \<and>
    length (crx_buf rx) = BLEDATA_BUFF_SIZE \<and> crx_sem rx = 1 \<and> link_ok (fw_sys fw) sys \<and> ps = []"
proof -
  have "wf_mem_pkt p" "wf_can_rx (rx_task fw)" "wf_sys (fw_sys fw)" "ps = []"
    using inv m by (auto simp: fw_inv_def wf_can_rx_def rx_task_def ble_inv_def)
  from can_rx_ble_total [OF this(1-3) stk, of env] this(4) show ?thesis
    by (auto simp: wf_can_rx_def intro: link_handler)
qed

lemma inv_forward:
  assumes inv: "fw_inv dmc m fw" and m: "fw_messages fw = p # ps" and stk: "length stk = 20"
    and s: "can_rx_ble_step env stk p (rx_task fw, fw_sys fw) = Some (rx, sys)"
  shows "fw_inv dmc m (put_sys sys
      (fw\<lparr>fw_messages := ps, fw_rx_buf := crx_buf rx, fw_isotp := (fw_isotp fw)\<lparr>ir_sem := crx_sem rx\<rparr>\<rparr>))"
proof -
  have "length (crx_buf rx) = BLEDATA_BUFF_SIZE" "crx_sem rx = 1" "link_ok (fw_sys fw) sys" "ps = []"
    using forward_defined [OF inv m stk, of env] s by auto
  then show ?thesis using inv by (simp add: fw_inv_def inv_sys)
qed

lemma fw_step_inv:
  assumes env: "alloc_ok (bc_env cfg)" and s: "fw_step cfg dmc fw fw'" and inv: "fw_inv dmc m fw"
  shows "fw_inv dmc m fw'"
  using s inv
proof (cases rule: fw_step.cases)
  case (bluetooth b)
  then show ?thesis using inv ble_step_inv [OF env] by (auto simp: fw_inv_def)
next
  case button
  have "wf_cmd gopro_start_rec_msg" "wf_cmd gopro_stop_rec_msg" by (simp_all add: wf_cmd_def command_defs)
  then have "link_ok (fw_sys fw) (button_pressed (bc_env cfg) (fw_sys fw))"
    unfolding button_pressed_def by (cases "gs_record (sys_state (fw_sys fw)) = 1") (auto intro: link_pub)
  then show ?thesis using inv button by (auto intro: inv_put_sys)
qed (auto intro: inv_node can_ok_receive can_ok_data can_ok_heartbeat can_ok_callback inv_transmit inv_isotp_receive
       inv_forward inv_isotp_transmit inv_isotp_sent)

theorem fw_reachable_inv:
  assumes env: "alloc_ok (bc_env cfg)" and "fw_reachable cfg dmc fw"
  shows "fw_inv dmc 1 fw"
  using assms(2)
proof (induction rule: fw_reachable.induct)
  case (main b hw hwid auth info idc en acts b')
  obtain r where "gopro_bt_start cfg hwid auth info idc en (on_sys gopro_leds_init b) = Some (r, b')"
    using main(2) by (auto simp: gopro_main_def bind_eq_Some_conv Let_def split_beta)
  from ble_reachable.boot [OF main(1) this] have "ble_inv dmc 1 b'"
    by (rule reachable_inv [OF env])
  then show ?case
    by (simp add: fw_inv_def fw_boot_def tx_thread_ok_def timeout_events_def canbus_isotp_init_def)
next
  case (step fw fw')
  then show ?case using fw_step_inv [OF env] by blast
qed

text \<open>The runs of the Bluetooth side are runs of the firmware.\<close>

lemma ble_in_firmware:
  assumes "ble_reachable cfg dmc b"
  shows "\<exists>fw. fw_reachable cfg dmc fw \<and> fw_ble fw = b"
  using assms
proof (induction rule: ble_reachable.induct)
  case (boot b hw auth info idc en r b')
  have "\<exists>acts. gopro_main cfg \<lparr>ha_clock = None, ha_button = g, ha_pins = p, ha_can = c\<rparr> hw auth info idc en b =
      Some (acts, b')" for g p c
    using boot(2) by (simp add: gopro_main_def Let_def split_beta)
  then obtain h acts where "gopro_main cfg h hw auth info idc en b = Some (acts, b')" by blast
  from fw_reachable.main [OF boot(1) this] show ?case by (auto simp: fw_boot_def)
next
  case (step b b')
  then obtain fw where fw: "fw_reachable cfg dmc fw" "fw_ble fw = b" by blast
  have "ble_step cfg dmc (fw_ble fw) b'" using fw(2) step(2) by simp
  from fw_reachable.step [OF fw(1) fw_step.bluetooth [OF this]] show ?case by force
qed

subsection \<open>What the invariant says\<close>

lemma pending_discovered:
  assumes "alloc_ok (bc_env cfg)" and "fw_reachable cfg dmc fw"
    and "c \<in> set (sys_cmd_queue (fw_sys fw))" and "cmd_type c \<noteq> 0xFF"
  shows "unat (b_uuid_index (fw_ble fw)) = 3"
  using fw_reachable_inv [OF assms(1,2)] assms(3,4) by (auto simp: fw_inv_def ble_inv_def talking_def)

definition fw_slots :: "firmware \<Rightarrow> nat" where
  "fw_slots fw = sys_can_reply_sem (fw_sys fw) + length (sys_can_tx (fw_sys fw)) + length (fw_flight fw)"

lemma inv_fw_slots: "fw_inv dmc m fw \<Longrightarrow> fw_slots fw \<le> m"
  by (auto simp: fw_inv_def ble_inv_def fw_slots_def)

lemma inv_at_slots: "fw_inv dmc m fw \<Longrightarrow> fw_inv dmc (fw_slots fw) fw"
  by (auto simp: fw_inv_def ble_inv_def fw_slots_def)

lemma slots_of_run:
  assumes env: "alloc_ok (bc_env cfg)" and run: "(fw_step cfg dmc)\<^sup>*\<^sup>* fw fw'" and inv: "fw_inv dmc m fw"
  shows "fw_inv dmc m fw'"
  using run by (induction rule: rtranclp_induct) (auto intro: inv fw_step_inv [OF env])

text \<open>There is one slot for a reply to the bus, and no run of the firmware brings a lost one back.\<close>

lemma reply_slot_lost:
  assumes env: "alloc_ok (bc_env cfg)" and r: "fw_reachable cfg dmc fw" and run: "(fw_step cfg dmc)\<^sup>*\<^sup>* fw fw'"
  shows "fw_slots fw' \<le> fw_slots fw \<and> fw_slots fw \<le> 1"
  using inv_fw_slots [OF slots_of_run [OF env run inv_at_slots [OF fw_reachable_inv [OF env r]]]]
    inv_fw_slots [OF fw_reachable_inv [OF env r]] by blast

lemma message_forwarded:
  assumes env: "alloc_ok (bc_env cfg)" and r: "fw_reachable cfg dmc fw" and m: "fw_messages fw \<noteq> []"
  shows "\<exists>fw'. fw_step cfg dmc fw fw' \<and> fw_messages fw' = [] \<and> ir_sem (fw_isotp fw') = 1"
proof -
  obtain p ps where p: "fw_messages fw = p # ps" using m by (cases "fw_messages fw") auto
  have stk: "length (replicate 20 (0 :: u8)) = 20" by simp
  from forward_defined [OF fw_reachable_inv [OF env r] p stk, of "bc_env cfg"]
  obtain rx sys where f: "can_rx_ble_step (bc_env cfg) (replicate 20 0) p (rx_task fw, fw_sys fw) = Some (rx, sys)"
    "crx_sem rx = 1" "ps = []" by blast
  from fw_step.forward [OF p stk f(1)] f(2,3) show ?thesis by fastforce
qed

lemma bus_frames_valid:
  assumes "alloc_ok (bc_env cfg)" and "fw_reachable cfg dmc fw" and "f \<in> set (fw_bus fw)"
  shows "unat (cf_dlc f) \<in> {1..8} \<and> unat (cf_id f) \<le> 0x7FF \<and> cf_flags f = 0"
  using fw_reachable_inv [OF assms(1,2)] assms(3)
  by (auto simp: fw_inv_def list_all_iff can_msg_validator_iff)

end
