(* ===== verification/Command_Gate.thy ===== *)
theory Command_Gate
  imports Firmware
begin

section \<open>The command gate\<close>

text \<open>
  What the firmware promises about commands, without its details: the services of the camera
  are taken up one after the other; only then the gate is opened, and it may be closed at any
  time; a command for the camera enters the queue only while the gate is open, a command for
  the firmware itself at any time; commands leave the queue in the order they have entered it.
  Every step of the firmware is a sequence of steps of this system.
\<close>

record gate =
  g_services :: nat
  g_open :: bool
  g_queue :: "gopro_cmd_t list"

inductive gate_step :: "gate \<Rightarrow> gate \<Rightarrow> bool" where
  service: "g_services g < 3 \<Longrightarrow> gate_step g (g\<lparr>g_services := Suc (g_services g)\<rparr>)"
| open_gate: "g_services g = 3 \<Longrightarrow> gate_step g (g\<lparr>g_open := True\<rparr>)"
| close_gate: "gate_step g (g\<lparr>g_open := False\<rparr>)"
| enter: "g_open g \<or> cmd_type c = 0xFF \<Longrightarrow> gate_step g (g\<lparr>g_queue := g_queue g @ [c]\<rparr>)"
| leave: "g_queue g = c # q \<Longrightarrow> gate_step g (g\<lparr>g_queue := q\<rparr>)"

abbreviation gate_steps :: "gate \<Rightarrow> gate \<Rightarrow> bool" where
  "gate_steps \<equiv> gate_step\<^sup>*\<^sup>*"

definition gate_initial :: gate where
  "gate_initial = \<lparr>g_services = 0, g_open = False, g_queue = []\<rparr>"

definition gate_safe :: "gate \<Rightarrow> bool" where
  "gate_safe g \<longleftrightarrow> g_services g \<le> 3 \<and>
     (g_open g \<or> (\<exists>c \<in> set (g_queue g). cmd_type c \<noteq> 0xFF) \<longrightarrow> g_services g = 3)"

lemma gate_step_safe: "gate_step g g' \<Longrightarrow> gate_safe g \<Longrightarrow> gate_safe g'"
  by (induction rule: gate_step.induct) (auto simp: gate_safe_def)

lemma gate_steps_safe: "gate_steps g g' \<Longrightarrow> gate_safe g \<Longrightarrow> gate_safe g'"
  by (induction rule: rtranclp_induct) (auto intro: gate_step_safe)

text \<open>The services are never given back.\<close>

lemma gate_services_grow: "gate_steps g g' \<Longrightarrow> g_services g \<le> g_services g'"
  by (induction rule: rtranclp_induct) (auto elim!: gate_step.cases)

subsection \<open>The firmware through the gate\<close>

definition ble_gate :: "ble \<Rightarrow> gate" where
  "ble_gate b =
     \<lparr>g_services = unat (b_uuid_index b), g_open = (gs_state (sys_state (b_sys b)) = GP_STATE_CONNECTED),
      g_queue = sys_cmd_queue (b_sys b)\<rparr>"

lemma enter_all:
  "\<forall>c \<in> set cs. g_open g \<or> cmd_type c = 0xFF \<Longrightarrow> gate_steps g (g\<lparr>g_queue := g_queue g @ cs\<rparr>)"
proof (induction cs arbitrary: g)
  case (Cons c cs)
  have "gate_step g (g\<lparr>g_queue := g_queue g @ [c]\<rparr>)" using Cons.prems by (intro gate_step.enter) auto
  moreover have "gate_steps (g\<lparr>g_queue := g_queue g @ [c]\<rparr>) (g\<lparr>g_queue := g_queue g @ c # cs\<rparr>)"
    using Cons.IH [of "g\<lparr>g_queue := g_queue g @ [c]\<rparr>"] Cons.prems by simp
  ultimately show ?case by (rule converse_rtranclp_into_rtranclp)
qed simp

text \<open>A handler that only lets commands in while the gate is open, and may close it.\<close>

lemma link_gate:
  assumes l: "link_ok (b_sys b) (b_sys b')" and i: "b_uuid_index b' = b_uuid_index b"
  shows "gate_steps (ble_gate b) (ble_gate b')"
proof -
  obtain cs where q: "sys_cmd_queue (b_sys b') = sys_cmd_queue (b_sys b) @ cs"
    "\<forall>c \<in> set cs. cmd_type c = 0xFF \<or> gs_state (sys_state (b_sys b)) = GP_STATE_CONNECTED"
    and st: "gs_state (sys_state (b_sys b')) = GP_STATE_CONNECTED \<longrightarrow> gs_state (sys_state (b_sys b)) = GP_STATE_CONNECTED"
    using l by (auto simp: link_ok_def pending_from_def)
  let ?g = "(ble_gate b)\<lparr>g_queue := sys_cmd_queue (b_sys b')\<rparr>"
  have "gate_steps (ble_gate b) ?g"
    using enter_all [of cs "ble_gate b"] q by (auto simp: ble_gate_def)
  moreover have "gate_steps ?g (ble_gate b')"
  proof (cases "g_open ?g = g_open (ble_gate b')")
    case True
    then have "?g = ble_gate b'" using i by (simp add: ble_gate_def)
    then show ?thesis by simp
  next
    case False
    then have "ble_gate b' = ?g\<lparr>g_open := False\<rparr>" using st i by (auto simp: ble_gate_def)
    then show ?thesis using gate_step.close_gate [of ?g] by auto
  qed
  ultimately show ?thesis by simp
qed

text \<open>Steps of the Bluetooth side that are such handlers.\<close>

definition keeps_gate :: "ble \<Rightarrow> ble \<Rightarrow> bool" where
  "keeps_gate b b' \<longleftrightarrow> link_ok (b_sys b) (b_sys b') \<and> b_uuid_index b' = b_uuid_index b"

named_theorems gate_intros

lemma keeps_refl [simp, gate_intros]: "keeps_gate b b"
  by (simp add: keeps_gate_def)

lemma keeps_trans: "keeps_gate a b \<Longrightarrow> keeps_gate b c \<Longrightarrow> keeps_gate a c"
  using link_trans by (auto simp: keeps_gate_def)

lemma keeps_on_sys: "(\<And>sys. link_ok sys (f sys)) \<Longrightarrow> keeps_gate b b' \<Longrightarrow> keeps_gate b (on_sys f b')"
  using link_trans by (auto simp: keeps_gate_def)

lemma keeps_sys: "link_ok (b_sys b) sys \<Longrightarrow> keeps_gate b (b\<lparr>b_sys := sys\<rparr>)"
  by (simp add: keeps_gate_def)

lemma keeps_other [simp]:
  "keeps_gate b (b'\<lparr>b_default_conn := c\<rparr>) = keeps_gate b b'" "keeps_gate b (b'\<lparr>b_scan_work := w\<rparr>) = keeps_gate b b'"
  "keeps_gate b (b'\<lparr>b_start_work := s\<rparr>) = keeps_gate b b'" "keeps_gate b (b'\<lparr>b_scan := bs\<rparr>) = keeps_gate b b'"
  "keeps_gate b (b'\<lparr>b_dm := dm\<rparr>) = keeps_gate b b'" "keeps_gate b (b'\<lparr>b_finish_work := fi\<rparr>) = keeps_gate b b'"
  "keeps_gate b (b'\<lparr>b_finish_pc := pc\<rparr>) = keeps_gate b b'"
  by (simp_all add: keeps_gate_def)

lemma keeps_scan_work: "keeps_gate b (scan_work_handler cfg stop start bonds b)"
  by (auto simp: scan_work_handler_def Let_def split_beta intro!: keeps_on_sys link_intros)

lemma keeps_connect: "keeps_gate b b' \<Longrightarrow> keeps_gate b (snd (ble_connect stop create b'))"
  by (simp add: ble_connect_def split_beta)

lemma keeps_eir:
  assumes "eir_found stop create d b = Some b'"
  shows "keeps_gate b b'"
proof (cases "bd_type d = 9")
  case True
  then obtain r s where n: "gopro_client_setname (Some (bd_data d)) (bd_len d) (sys_state (b_sys b)) = Some (r, s)"
    and b': "b' = on_sys (\<lambda>sys. sys\<lparr>sys_state := s\<rparr>) b"
    using assms by (auto simp: eir_found_def bind_eq_Some_conv)
  show ?thesis using link_setname [OF n] by (simp add: b' keeps_gate_def)
next
  case False
  have sg: "keeps_gate b (on_sys (set_sate st) (on_sys (gopro_led_mode_set LED_NUM_BT m) b))"
    if "st \<noteq> GP_STATE_CONNECTED" "st \<noteq> GP_STATE_END" for st m
    by (intro keeps_on_sys keeps_refl link_led link_sate that)
  show ?thesis
    using False assms sg [of GP_STATE_OFFLINE] sg [of GP_STATE_ONLINE] sg [of GP_STATE_PAIRING]
    by (auto simp: eir_found_def bind_eq_Some_conv Let_def simp del: set_sate_conn split: if_split_asm intro: keeps_connect)
qed

lemma keeps_eir_parse: "eir_parse ans ads b = Some b' \<Longrightarrow> keeps_gate b b'"
  by (induction ans ads b rule: eir_parse.induct) (auto simp: bind_eq_Some_conv dest: keeps_eir intro: keeps_trans)

lemma keeps_advert:
  assumes "scan_filter_match stop create a ads b = Some b'"
  shows "keeps_gate b b'"
proof -
  let ?b = "on_sys (led_idle_timer_start 1) (on_sys (upd_state (\<lambda>s. snd (gopro_client_set_device_addr a s))) b)"
  have "keeps_gate ?b b'" using assms keeps_eir_parse by (auto simp: scan_filter_match_def Let_def)
  moreover have "keeps_gate b ?b" by (intro keeps_on_sys keeps_refl link_intros)
  ultimately show ?thesis using keeps_trans by blast
qed

lemma keeps_callbacks:
  "keeps_gate b (connected ans conn err b)" "keeps_gate b (disconnected conn b)"
  "keeps_gate b (snd (security_changed conn serr b))" "keeps_gate b (pairing_complete b)"
  "keeps_gate b (scan_connecting conn b)" "keeps_gate b (scan_connecting_error b)"
  by (auto simp: connected_def scan_connecting_def scan_connecting_error_def disconnected_def security_changed_def pairing_complete_def gatt_discover_def Let_def
      simp del: set_sate_conn intro!: keeps_on_sys link_intros)

lemma keeps_client:
  "(wf_client (sys_client (b_sys b)) \<Longrightarrow> wf_client gc) \<Longrightarrow> keeps_gate b (on_sys (\<lambda>sys. sys\<lparr>sys_client := gc\<rparr>) b)"
  using link_client by (simp add: keeps_gate_def)

lemma keeps_discovery_cb:
  assumes "discovery_cb ev b = Some b'"
  shows "keeps_gate b b'"
proof -
  have "keeps_gate b b'" if c: "gopro_discovery_complete b = Some b'"
  proof -
    obtain err gc where a: "handles_assign (di_dm (b_dm b)) (sys_client (b_sys b)) = Some (err, gc)"
      and b': "b' = (on_sys (\<lambda>sys. sys\<lparr>sys_client := gc\<rparr>) b)
        \<lparr>b_dm := snd (bt_gatt_dm_data_release (b_dm b)), b_start_work := True\<rparr>"
      using c by (auto simp: gopro_discovery_complete_def bind_eq_Some_conv)
    show ?thesis unfolding b' using keeps_client [of b gc] handles_assign_wf [OF a] by simp
  qed
  then show ?thesis
    using assms
    by (auto simp: discovery_cb_def discovery_service_not_found_def discovery_error_def
        split: option.splits dm_event.splits)
qed

lemma keeps_steps: "keeps_gate b b' \<Longrightarrow> gate_steps (ble_gate b) (ble_gate b')"
  unfolding keeps_gate_def by (blast intro: link_gate)

lemma keeps_finish_end: "finish_end env stk b = Some b' \<Longrightarrow> length stk = 20 \<Longrightarrow> keeps_gate b b'"
  using finish_end_link by (simp add: keeps_gate_def)

text \<open>The state becomes connected in one place, behind the last service.\<close>

lemma gate_connected:
  assumes i: "unat (b_uuid_index b) = 3"
  shows "gate_steps (ble_gate b) (ble_gate (finish_connected env s b))"
proof -
  let ?s0 = "(b_sys b)\<lparr>sys_read_sem := sys_read_sem (b_sys b) - 1, sys_client := subscribe_all s (sys_client (b_sys b))\<rparr>"
  define s1 where "s1 = gopro_led_mode_set LED_NUM_BT LED_MODE_ON ?s0"
  have "link_ok ((b_sys b)\<lparr>sys_read_sem := sys_read_sem (b_sys b) - 1\<rparr>) ?s0"
    using link_client [of "(b_sys b)\<lparr>sys_read_sem := sys_read_sem (b_sys b) - 1\<rparr>" "subscribe_all s (sys_client (b_sys b))"]
      subscribe_all_wf by simp
  then have "link_ok (b_sys b) s1"
    unfolding s1_def using link_trans link_sems(1) link_led by metis
  then have "gate_steps (ble_gate b) (ble_gate (b\<lparr>b_sys := s1\<rparr>))" by (intro link_gate) simp_all
  also have "gate_step (ble_gate (b\<lparr>b_sys := s1\<rparr>)) (ble_gate (b\<lparr>b_sys := set_sate GP_STATE_CONNECTED s1\<rparr>))"
    using gate_step.open_gate [of "ble_gate (b\<lparr>b_sys := s1\<rparr>)"] i by (simp add: ble_gate_def upd_state_def)
  also have "gate_steps (ble_gate (b\<lparr>b_sys := set_sate GP_STATE_CONNECTED s1\<rparr>)) (ble_gate (finish_connected env s b))"
    using link_pub [OF command_wf(1)]
    by (intro link_gate) (simp_all add: finish_connected_sys finish_connected_sel s1_def del: set_sate_conn)
  finally show ?thesis .
qed

lemma gate_finish:
  assumes inv: "ble_inv dmc n b" and f: "finish_step env stk r s b = Some b'" and stk: "length stk = 20"
  shows "gate_steps (ble_gate b) (ble_gate b')"
proof (cases "b_finish_pc b")
  case F_idle
  have "keeps_gate b (finish_begin r b)"
    using keeps_client [of b "snd (bt_gopro_client_get r (of_nat 0) (sys_client (b_sys b)))"] get_wf
    by (auto simp: finish_begin_def on_sys_def)
  then show ?thesis using f F_idle keeps_steps by (auto simp: finish_step_def split: if_split_asm)
next
  case F_ssid
  have "link_ok (b_sys b) ((b_sys b)\<lparr>sys_read_sem := m, sys_client := snd (bt_gopro_client_get r h (sys_client (b_sys b)))\<rparr>)" for m h
    using link_client [of "(b_sys b)\<lparr>sys_read_sem := m\<rparr>" "snd (bt_gopro_client_get r h (sys_client (b_sys b)))"]
      get_wf link_trans [OF link_sems(1)] by simp
  then have "keeps_gate b (finish_read_pass r b)" by (simp add: finish_read_pass_def keeps_gate_def)
  then show ?thesis using f F_ssid keeps_steps by (auto simp: finish_step_def split: if_split_asm)
next
  case F_pass
  then have "unat (b_uuid_index b) = 3" using inv by (auto simp: ble_inv_def talking_def)
  from gate_connected [OF this] show ?thesis using f F_pass by (auto simp: finish_step_def split: if_split_asm)
next
  case (F_poll k)
  let ?b = "on_sys (\<lambda>sys. sys\<lparr>sys_hw_sem := sys_hw_sem sys - 1\<rparr>) b"
  have sem: "keeps_gate b ?b" using link_sems(3) by (simp add: keeps_gate_def)
  consider "finish_end env stk ?b = Some b'"
    | "finish_end env stk b = Some b'" | "b' = (publish env gopro_get_hw_info b)\<lparr>b_finish_pc := F_poll (Suc k)\<rparr>"
    using f unfolding finish_step_def finish_poll_def F_poll finish_pc.case by (metis option.inject)
  then have "keeps_gate b b'"
  proof cases
    case 1
    then show ?thesis using keeps_trans [OF sem keeps_finish_end [OF _ stk]] by blast
  next
    case 3
    then show ?thesis using link_pub [OF command_wf(1)] by (simp add: keeps_gate_def)
  qed (use keeps_finish_end [OF _ stk] in blast)
  then show ?thesis by (rule keeps_steps)
qed

lemma gate_start_work: "gate_steps (ble_gate b) (ble_gate (discovery_start_work_handler ans b))"
proof (cases "3 \<le> unat (b_uuid_index b)")
  case True
  then show ?thesis by (simp add: discovery_skipped ble_gate_def)
next
  case False
  then have "unat (b_uuid_index b) + 1 < 256" by simp
  then have "unat (b_uuid_index b + 1) = Suc (unat (b_uuid_index b))" by (simp add: unat_word_ariths)
  then have "gate_step (ble_gate b) (ble_gate (discovery_start_work_handler ans b))"
    using gate_step.service [of "ble_gate b"] False
    by (simp add: ble_gate_def discovery_start_work_handler_def uuid_list_def Let_def split_beta)
  then show ?thesis by simp
qed

lemma gate_ble_step:
  assumes env: "alloc_ok (bc_env cfg)" and inv: "ble_inv dmc n b" and s: "ble_step cfg dmc b b'"
  shows "gate_steps (ble_gate b) (ble_gate b')"
  using s
proof (cases rule: ble_step.cases)
  case (start_work ans)
  then show ?thesis using gate_start_work by simp
next
  case (dm_report conn attr it ev di)
  then show ?thesis using keeps_discovery_cb [OF dm_report(3)] keeps_steps by (simp add: keeps_gate_def ble_gate_def)
next
  case (dm_work ans ev di)
  then show ?thesis using keeps_discovery_cb [OF dm_work(3)] keeps_steps by (simp add: keeps_gate_def ble_gate_def)
next
  case (finish stk r s)
  then show ?thesis using gate_finish [OF inv] by blast
next
  case (command w sent r sys)
  obtain c q where q: "sys_cmd_queue (b_sys b) = c # q" "link_ok ((b_sys b)\<lparr>sys_cmd_queue := q\<rparr>) sys"
    using link_command [OF command(2)] by blast
  let ?b = "b\<lparr>b_sys := (b_sys b)\<lparr>sys_cmd_queue := q\<rparr>\<rparr>"
  have "gate_step (ble_gate b) (ble_gate ?b)"
    using gate_step.leave [of "ble_gate b" c q] q(1) by (simp add: ble_gate_def)
  moreover have "gate_steps (ble_gate ?b) (ble_gate b')" using q(2) command(1) by (intro link_gate) simp_all
  ultimately show ?thesis by (rule converse_rtranclp_into_rtranclp)
next
  case (notify stk stk' k data it sys)
  have "wf_sys (b_sys b)" using inv by (simp add: ble_inv_def)
  then show ?thesis using notify link_notify [OF notify(4) env] keeps_steps [OF keeps_sys] by simp
next
  case (user c)
  then show ?thesis using link_pub keeps_steps by (simp add: publish_def keeps_gate_def)
qed (auto intro!: keeps_steps intro: keeps_scan_work keeps_advert keeps_callbacks keeps_sys link_idle link_read_ssid link_read_pass)

abbreviation (input) fw_gate :: "firmware \<Rightarrow> gate" where
  "fw_gate fw \<equiv> ble_gate (fw_ble fw)"

lemma gate_fw_step:
  assumes env: "alloc_ok (bc_env cfg)" and inv: "fw_inv dmc m fw" and s: "fw_step cfg dmc fw fw'"
  shows "gate_steps (fw_gate fw) (fw_gate fw')"
proof -
  have put: "gate_steps (fw_gate fw) (ble_gate ((fw_ble fw)\<lparr>b_sys := sys\<rparr>))" if "link_ok (fw_sys fw) sys" for sys
    using that by (intro link_gate) simp_all
  have node: "gate_steps (fw_gate fw) (fw_gate (put_node n fw))" if "can_ok (fw_node fw) n" for n
    using that put by (simp add: can_ok_def)
  have same: "gate_steps (fw_gate fw) (ble_gate ((fw_ble fw)\<lparr>b_sys := sys\<rparr>))"
    if "sys_state sys = sys_state (fw_sys fw)" "sys_cmd_queue sys = sys_cmd_queue (fw_sys fw)" for sys
    using that by (simp add: ble_gate_def)
  from s show ?thesis
  proof (cases rule: fw_step.cases)
    case (bluetooth b)
    then show ?thesis using inv gate_ble_step [OF env] by (auto simp: fw_inv_def)
  next
    case button
    have "wf_cmd gopro_start_rec_msg" "wf_cmd gopro_stop_rec_msg" by (simp_all add: wf_cmd_def command_defs)
    then have "link_ok (fw_sys fw) (button_pressed (bc_env cfg) (fw_sys fw))"
      unfolding button_pressed_def by (cases "gs_record (sys_state (fw_sys fw)) = 1") (auto intro: link_pub)
    then show ?thesis using put button by simp
  next
    case (can_receive deliver f n)
    then show ?thesis using node can_ok_receive by blast
  next
    case (can_data deliver n)
    then show ?thesis using node can_ok_data by blast
  next
    case (can_heartbeat deliver)
    then show ?thesis using node can_ok_heartbeat by blast
  next
    case (can_transmit send arrived n th bus)
    obtain f q where q: "cn_tx_queue (fw_node fw) = f # q"
      using can_transmit(2) by (auto simp: can_tx_subscriber_step_def split: list.splits)
    have "cn_sys n = fw_sys fw" using can_transmit(2) [unfolded tx_step_cons [OF q]] by auto
    then show ?thesis using can_transmit(1) by simp
  next
    case can_sent
    then show ?thesis using node can_ok_callback by blast
  next
    case (isotp_receive pub rs p ir)
    then show ?thesis by simp
  next
    case (forward p ps stk rx sys)
    then have "link_ok (fw_sys fw) sys" using forward_defined [OF inv forward(2,3), of "bc_env cfg"] by auto
    then show ?thesis using put forward(1) by simp
  next
    case (isotp_transmit started sys fl)
    then show ?thesis using same by (auto simp: isotp_tx_step_def split: list.splits)
  next
    case (isotp_sent sys fl)
    then show ?thesis using same by (auto simp: isotpsend_callback_def split: list.splits)
  qed
qed

text \<open>The firmware refines the gate.\<close>

theorem fw_refines_gate:
  assumes env: "alloc_ok (bc_env cfg)" and r: "fw_reachable cfg dmc fw"
  shows "gate_steps gate_initial (fw_gate fw)"
  using r
proof (induction rule: fw_reachable.induct)
  case (main b hw hwid auth info idc en acts b')
  obtain r where "gopro_bt_start cfg hwid auth info idc en (on_sys gopro_leds_init b) = Some (r, b')"
    using main(2) by (auto simp: gopro_main_def bind_eq_Some_conv Let_def split_beta)
  then have "ble_gate b' = ble_gate (on_sys gopro_leds_init b)"
    by (auto simp: gopro_bt_start_def bind_eq_Some_conv Let_def ble_gate_def split: if_split_asm)
  also have "\<dots> = gate_initial"
    using main(1) by (simp add: ble_initial_def ble_gate_def gate_initial_def gopro_leds_init_def gp_simps)
  finally show ?case by (simp add: fw_boot_def)
next
  case (step fw fw')
  from gate_fw_step [OF env fw_reachable_inv [OF env step(1)] step(2)] step.IH show ?case by (rule rtranclp_trans [rotated])
qed

end
