(* ===== verification/Dm_Print.thy ===== *)
theory Dm_Print
  imports Dm_Procedure
begin

section \<open>Printing the discovered attributes (\<^verbatim>\<open>nrf_hal/gatt_dm.c\<close>)\<close>

text \<open>
  The listing of the attributes of a discovered service, which the application prints in a
  debug build. A printed line is a value of \<open>dm_line\<close> with what its format string shows;
  turning a UUID into text is left to the Bluetooth stack. \<open>None\<close> is a UUID read through
  the null pointer.
\<close>

datatype dm_line =
    Line_attr nat bt_uuid u16
  | Line_service bt_uuid u16
  | Line_chrc bt_uuid u8
  | Line_cccd

definition svc_attr_data_print :: "bt_uuid option \<Rightarrow> u16 \<Rightarrow> dm_line list option" where
  "svc_attr_data_print uuid end_handle = do { u \<leftarrow> uuid; Some [Line_service u end_handle] }"

definition chrc_attr_data_print :: "bt_uuid option \<Rightarrow> u8 \<Rightarrow> dm_line list option" where
  "chrc_attr_data_print uuid properties = do { u \<leftarrow> uuid; Some [Line_chrc u properties] }"

definition attr_print :: "bt_gatt_dm \<Rightarrow> nat \<Rightarrow> dm_line list option" where
  "attr_print dm i = do {
     let attr = dm_attrs dm ! i;
     rest \<leftarrow>
       (if at_uuid attr = BT_UUID_GATT_PRIMARY \<or> at_uuid attr = BT_UUID_GATT_SECONDARY
        then svc_attr_data_print (bt_gatt_dm_attr_service_val attr) (at_end_handle attr)
        else if at_uuid attr = BT_UUID_GATT_CHRC
        then chrc_attr_data_print (bt_gatt_dm_attr_chrc_val attr) (at_properties attr)
        else if at_uuid attr = BT_UUID_GATT_CCC then Some [Line_cccd]
        else Some []);
     Some (Line_attr i (at_uuid attr) (at_handle attr) # rest)
   }"

lemma attr_next_bounds:
  "bt_gatt_dm_attr_next dm prev = Some j \<longleftrightarrow>
   j = Suc (case prev of None \<Rightarrow> 0 | Some i \<Rightarrow> i) \<and> j < length (dm_attrs dm)"
  by (auto simp: bt_gatt_dm_attr_next_def Let_def)

function data_print_loop :: "bt_gatt_dm \<Rightarrow> nat option \<Rightarrow> dm_line list option" where
  "data_print_loop dm prev =
     (case bt_gatt_dm_attr_next dm prev of
        None \<Rightarrow> Some []
      | Some i \<Rightarrow> do {
          l \<leftarrow> attr_print dm i;
          rest \<leftarrow> data_print_loop dm (Some i);
          Some (l @ rest)
        })"
  by pat_completeness auto
termination
  by (relation "measure (\<lambda>(dm, prev). length (dm_attrs dm) - (case prev of None \<Rightarrow> 0 | Some i \<Rightarrow> i))")
     (auto simp: attr_next_bounds)

declare data_print_loop.simps [simp del]

definition bt_gatt_dm_data_print :: "bt_gatt_dm \<Rightarrow> dm_line list option" where
  "bt_gatt_dm_data_print dm = data_print_loop dm None"

subsection \<open>What is printed\<close>

text \<open>The lines of a reported attribute at index \<open>i\<close>: those of its declaration and of its value.\<close>

definition attr_lines :: "nat \<Rightarrow> gatt_attr \<Rightarrow> dm_line list" where
  "attr_lines i a = Line_attr i (ga_uuid a) (ga_handle a) #
     (case ga_user a of
        Chrc_val u p \<Rightarrow> [Line_chrc u p]
      | _ \<Rightarrow> if ga_uuid a = BT_UUID_GATT_CCC then [Line_cccd] else [])"

lemma attr_print_lines:
  assumes "i < length l" and "dm_attrs dm = map stored_attr l" and "values_ok [l ! i]"
    and "ga_uuid (l ! i) \<noteq> BT_UUID_GATT_PRIMARY" "ga_uuid (l ! i) \<noteq> BT_UUID_GATT_SECONDARY"
  shows "attr_print dm i = Some (attr_lines i (l ! i))"
proof -
  have "at_val_uuid (stored_attr a) = Some u" "at_properties (stored_attr a) = p"
    if "ga_user a = Chrc_val u p" for a u p
    using that by (simp_all add: stored_attr_def)
  then show ?thesis
    using assms
    by (auto simp: attr_print_def attr_lines_def values_ok_def Let_def chrc_attr_data_print_def
        bt_gatt_dm_attr_chrc_val_def split: if_split_asm)
qed

lemma data_print_loop_lines:
  assumes "dm_attrs dm = map stored_attr l" and "values_ok (drop (Suc i) l)" and "i < length l"
    and "\<forall>a \<in> set (drop (Suc i) l). ga_uuid a \<noteq> BT_UUID_GATT_PRIMARY \<and> ga_uuid a \<noteq> BT_UUID_GATT_SECONDARY"
  shows "data_print_loop dm (Some i) = Some (concat (map (\<lambda>j. attr_lines j (l ! j)) [Suc i ..< length l]))"
  using assms
proof (induction "length l - i" arbitrary: i)
  case 0
  then show ?case by simp
next
  case (Suc n)
  show ?case
  proof (cases "Suc i < length l")
    case False
    then show ?thesis using Suc.prems(1) by (simp add: data_print_loop.simps [of dm "Some i"] bt_gatt_dm_attr_next_def)
  next
    case True
    then have d: "drop (Suc i) l = l ! Suc i # drop (Suc (Suc i)) l" by (simp add: Cons_nth_drop_Suc)
    have p: "attr_print dm (Suc i) = Some (attr_lines (Suc i) (l ! Suc i))"
      using True Suc.prems by (intro attr_print_lines) (simp_all add: d values_ok_def)
    have "data_print_loop dm (Some (Suc i)) =
        Some (concat (map (\<lambda>j. attr_lines j (l ! j)) [Suc (Suc i) ..< length l]))"
      using True Suc.prems Suc.hyps(2) by (intro Suc.hyps(1)) (simp_all add: d values_ok_def)
    then show ?thesis
      using True Suc.prems(1) p
      by (simp add: data_print_loop.simps [of dm "Some i"] bt_gatt_dm_attr_next_def upt_rec [of "Suc i"])
  qed
qed

text \<open>
  Of a discovered service everything but the service declaration itself is listed, in the
  order of the handles: the walk starts behind it, so the branch for a service value is not
  reached.
\<close>

lemma discovered_service_printed:
  assumes "dm_attrs dm = map stored_attr (svc # body)" and "values_ok body"
    and "\<forall>a \<in> set body. ga_uuid a \<noteq> BT_UUID_GATT_PRIMARY \<and> ga_uuid a \<noteq> BT_UUID_GATT_SECONDARY"
  shows "bt_gatt_dm_data_print dm = Some (concat (map (\<lambda>j. attr_lines (Suc j) (body ! j)) [0 ..< length body]))"
proof -
  have "bt_gatt_dm_data_print dm = data_print_loop dm (Some 0)"
    by (simp add: bt_gatt_dm_data_print_def data_print_loop.simps [of dm] bt_gatt_dm_attr_next_def)
  also have "\<dots> = Some (concat (map (\<lambda>j. attr_lines j ((svc # body) ! j)) [Suc 0 ..< length (svc # body)]))"
    using assms by (intro data_print_loop_lines) simp_all
  finally show ?thesis by (simp add: map_Suc_upt [symmetric] comp_def del: upt_Suc)
qed

lemma declaration_not_printed:
  assumes "bt_gatt_dm_data_print dm = Some ls"
  shows "Line_attr 0 u h \<notin> set ls"
proof -
  have "data_print_loop dm prev = Some ls \<Longrightarrow> Line_attr 0 u h \<notin> set ls" for prev ls
  proof (induction dm prev arbitrary: ls rule: data_print_loop.induct)
    case (1 dm prev)
    show ?case
    proof (cases "bt_gatt_dm_attr_next dm prev")
      case None
      then show ?thesis using "1.prems" by (simp add: data_print_loop.simps [of dm prev])
    next
      case (Some i)
      then obtain l r where lr: "attr_print dm i = Some l" "data_print_loop dm (Some i) = Some r" "ls = l @ r"
        using "1.prems" by (auto simp: data_print_loop.simps [of dm prev] bind_eq_Some_conv)
      have "Line_attr 0 u h \<notin> set l"
        using Some lr(1)
        by (auto simp: attr_print_def attr_next_bounds bind_eq_Some_conv Let_def svc_attr_data_print_def
            chrc_attr_data_print_def split: if_split_asm)
      then show ?thesis using lr "1.IH" [OF Some lr(1,2)] by simp
    qed
  qed
  then show ?thesis using assms by (simp add: bt_gatt_dm_data_print_def)
qed

end
