(* ===== verification/Shell.thy ===== *)
theory Shell
  imports Prelude
begin

section \<open>Shell commands (\<^verbatim>\<open>shell.c\<close>)\<close>

text \<open>
  The demonstration commands of the debug shell. A handler gets its arguments as memory
  blocks that hold C strings and answers with what it has printed and its return value;
  \<open>None\<close> is a read behind the arguments or behind a block without a terminator. The shell
  itself, which splits a line into arguments and finds the handler, is part of Zephyr.
\<close>

datatype shell_out = Shell_print string | Shell_hexdump bytes

text \<open>The conversion \<^verbatim>\<open>%zd\<close> of an index.\<close>

fun dec_digits :: "nat \<Rightarrow> string" where
  "dec_digits n =
     (if n < 10 then [char_of (48 + n)] else dec_digits (n div 10) @ [char_of (48 + n mod 10)])"

declare dec_digits.simps [simp del]

definition gopro_cmd_handler :: "nat \<Rightarrow> bytes list \<Rightarrow> (int \<times> shell_out list) option" where
  "gopro_cmd_handler argc argv = Some (0, [Shell_print ''gopro cmd executed''])"

fun print_args :: "bytes list \<Rightarrow> nat \<Rightarrow> nat \<Rightarrow> shell_out list option" where
  "print_args argv cnt 0 = Some []"
| "print_args argv cnt (Suc left) = do {
     arg \<leftarrow> (if cnt < length argv then Some (argv ! cnt) else None);
     len \<leftarrow> c_strlen arg;
     rest \<leftarrow> print_args argv (Suc cnt) left;
     Some (Shell_print (''argv['' @ dec_digits cnt @ '']'') # Shell_hexdump (take len arg) # rest)
   }"

definition cmd_gopro_params :: "nat \<Rightarrow> bytes list \<Rightarrow> (int \<times> shell_out list) option" where
  "cmd_gopro_params argc argv = do {
     out \<leftarrow> print_args argv 0 argc;
     Some (0, Shell_print (''argc = '' @ dec_digits argc) # out)
   }"

definition cmd_gopro_ping :: "nat \<Rightarrow> bytes list \<Rightarrow> (int \<times> shell_out list) option" where
  "cmd_gopro_ping argc argv = do {
     out \<leftarrow> print_args argv 0 argc;
     Some (0, Shell_print (''argc = '' @ dec_digits argc) # out)
   }"

text \<open>The table of the subcommands of \<^verbatim>\<open>gopro\<close>, with their help texts.\<close>

definition sub_demo :: "(string \<times> string \<times> (nat \<Rightarrow> bytes list \<Rightarrow> (int \<times> shell_out list) option)) list" where
  "sub_demo =
     [(''params'', ''Print params command.'', cmd_gopro_params),
      (''ping'', ''Ping command.'', cmd_gopro_ping)]"

subsection \<open>What is printed\<close>

text \<open>The decimal form of a number can be read back, so different indices print differently.\<close>

definition digits_value :: "string \<Rightarrow> nat" where
  "digits_value s = foldl (\<lambda>n c. 10 * n + (of_char c - 48)) 0 s"

lemma value_dec_digits: "digits_value (dec_digits n) = n"
proof (induction n rule: dec_digits.induct)
  case (1 n)
  show ?case
  proof (cases "n < 10")
    case True
    then show ?thesis by (simp add: dec_digits.simps [of n] digits_value_def)
  next
    case False
    then show ?thesis using 1 by (simp add: dec_digits.simps [of n] digits_value_def)
  qed
qed

lemma dec_digits_inject: "dec_digits m = dec_digits n \<longleftrightarrow> m = n"
  by (metis value_dec_digits)

lemma print_args_eq:
  assumes "cnt + left \<le> length argv" and "\<forall>a \<in> set (take left (drop cnt argv)). 0 \<in> set a"
  shows "print_args argv cnt left = Some (concat (map (\<lambda>i.
    [Shell_print (''argv['' @ dec_digits i @ '']''), Shell_hexdump (c_string (argv ! i))]) [cnt ..< cnt + left]))"
  using assms
proof (induction left arbitrary: cnt)
  case 0
  then show ?case by simp
next
  case (Suc left)
  have d: "drop cnt argv = argv ! cnt # drop (Suc cnt) argv"
    using Suc.prems(1) by (intro Cons_nth_drop_Suc [symmetric]) simp
  have t: "0 \<in> set (argv ! cnt)" using Suc.prems(2) by (simp add: d)
  have "\<forall>a \<in> set (take left (drop (Suc cnt) argv)). 0 \<in> set a" using Suc.prems(2) by (simp add: d)
  note ih = Suc.IH [of "Suc cnt", OF _ this]
  have "take (length (c_string (argv ! cnt))) (argv ! cnt) = c_string (argv ! cnt)"
    by (simp add: take_c_string)
  then show ?case
    using ih Suc.prems(1) t by (simp add: c_strlen_eq upt_rec [of cnt])
qed

lemma print_args_None:
  "print_args argv cnt left = None \<longleftrightarrow>
   length argv < cnt + left \<and> left \<noteq> 0 \<or> (\<exists>a \<in> set (take left (drop cnt argv)). 0 \<notin> set a)"
proof (induction left arbitrary: cnt)
  case 0
  then show ?case by simp
next
  case (Suc left)
  show ?case
  proof (cases "cnt < length argv")
    case True
    then have d: "drop cnt argv = argv ! cnt # drop (Suc cnt) argv" by (simp add: Cons_nth_drop_Suc)
    show ?thesis using True by (auto simp: Suc.IH bind_eq_None_conv c_strlen_eq d)
  qed simp
qed

text \<open>A command prints its arguments and nothing else: they can be read off its hexdumps.\<close>

definition dumps :: "shell_out list \<Rightarrow> bytes list" where
  "dumps out = concat (map (\<lambda>l. case l of Shell_hexdump b \<Rightarrow> [b] | _ \<Rightarrow> []) out)"

lemma dumps_args:
  "dumps (concat (map (\<lambda>i. [Shell_print (f i), Shell_hexdump (g i)]) is)) = map g is"
  by (induction "is") (simp_all add: dumps_def)

lemma params_printed:
  assumes "argc \<le> length argv" and "\<forall>a \<in> set (take argc argv). 0 \<in> set a"
  shows "\<exists>out. cmd_gopro_params argc argv = Some (0, out) \<and> length out = 2 * argc + 1 \<and>
    dumps out = map c_string (take argc argv)"
proof -
  have p: "print_args argv 0 argc = Some (concat (map (\<lambda>i.
      [Shell_print (''argv['' @ dec_digits i @ '']''), Shell_hexdump (c_string (argv ! i))]) [0 ..< argc]))"
    using print_args_eq [of 0 argc argv] assms by simp
  have l: "length (concat (map (\<lambda>i. [Shell_print (f i), Shell_hexdump (g i)]) is)) = 2 * length is" for f g "is"
    by (induction "is") simp_all
  have m: "map (\<lambda>i. c_string (argv ! i)) [0 ..< argc] = map c_string (take argc argv)"
    using assms(1) by (intro nth_equalityI) simp_all
  have "dumps (Shell_print s # out) = dumps out" for s out by (simp add: dumps_def)
  then show ?thesis by (simp add: cmd_gopro_params_def p l dumps_args m)
qed

lemma params_overread:
  "cmd_gopro_params argc argv = None \<longleftrightarrow>
   length argv < argc \<or> (\<exists>a \<in> set (take argc argv). 0 \<notin> set a)"
  using print_args_None [of argv 0 argc] by (auto simp: cmd_gopro_params_def bind_eq_None_conv)

text \<open>\<^verbatim>\<open>ping\<close> does what \<^verbatim>\<open>params\<close> does: it sends nothing to the camera.\<close>

lemma ping_is_params: "cmd_gopro_ping argc argv = cmd_gopro_params argc argv"
  by (simp add: cmd_gopro_ping_def cmd_gopro_params_def)

end
