(* ===== verification/Spec2Isabelle.thy ===== *)
theory Spec2Isabelle
  imports Demo Demo_Ble Command_Gate Dm_Print Shell
begin

text \<open>
  The firmware of a remote control for GoPro cameras (Zephyr, C). A board talks to a camera
  over Bluetooth LE and to a vehicle over a CAN bus; it finds and pairs with the camera,
  discovers its services, sends commands and queries to it, parses what it answers, shows
  the state on LEDs and forwards messages between the bus and the camera.

  Parts and theories. Paths are relative to \<^verbatim>\<open>src/src\<close>.

  \<^item> \<^bold>\<open>Prelude\<close>: memory reads and writes that fail outside a block (\<open>rd\<close>, \<open>wr\<close>, \<open>rd_block\<close>,
    \<open>wr_block\<close>, \<open>memcpy\<close>), C strings, atomic flags, semaphores, the result type \<open>cret\<close> and the
    collections of rules the component proofs share.
  \<^item> \<^bold>\<open>Gopro_Types\<close> (\<^verbatim>\<open>gopro_client.h\<close>, \<^verbatim>\<open>gopro_packet.h\<close>, \<^verbatim>\<open>gopro_protobuf.h\<close>, \<^verbatim>\<open>leds.h\<close>): the
    structures and enumerations, the record \<open>gopro_sys\<close> of the globals the handlers share, the
    record \<open>gopro_env\<close> of the functions outside the source, and the well-formedness of a state
    (declared array sizes). The locale \<open>char_field\<close> is the contract of a character array of the
    camera state; it is interpreted for each of the seven arrays.
  \<^item> \<^bold>\<open>Client_State\<close>, \<^bold>\<open>Client_Gatt\<close>, \<^bold>\<open>Gatt_Dm\<close>, \<^bold>\<open>Handles\<close> (\<^verbatim>\<open>gopro_client.c\<close>, the lookup functions of
    \<^verbatim>\<open>nrf_hal/gatt_dm.c\<close>): setters and getters, read callbacks, writes with their pending flags,
    completions, subscriptions and notifications, and the assignment of handles. The locale
    \<open>attribute_lookup\<close> is what the assignment needs of the discovery manager.
  \<^item> \<^bold>\<open>Channels\<close>, \<^bold>\<open>Segmentation\<close>, \<^bold>\<open>Packet_Header\<close>, \<^bold>\<open>Reassembly\<close> (\<^verbatim>\<open>gopro_packet.c\<close>,
    \<^verbatim>\<open>gopro_protobuf.c\<close>): cutting a message into frames of 20 bytes, the three kinds of header,
    and putting frames together again. The abstract assembler \<open>asm_step\<close> is the specification;
    \<open>implements\<close> relates the code to it. The locale \<open>validated_channel\<close> is the contract of a zbus
    channel with a validator, interpreted for the command channel and the two CAN channels.
  \<^item> \<^bold>\<open>Status_Parse\<close>, \<^bold>\<open>Hw_Info\<close>, \<^bold>\<open>Names\<close>, \<^bold>\<open>Protobuf\<close>, \<^bold>\<open>Access_Points\<close>, \<^bold>\<open>Dispatch\<close> (\<^verbatim>\<open>gopro_packet.c\<close>,
    \<^verbatim>\<open>gopro_protobuf.c\<close>): the parsers of complete messages and their dispatch, the name tables,
    the access point list and the Wi-Fi credentials. \<open>handler_ok\<close> is what every handler keeps.
  \<^item> \<^bold>\<open>Can_Bridge\<close>, \<^bold>\<open>Isotp_Rx\<close>, \<^bold>\<open>Canbus\<close> (\<^verbatim>\<open>gopro_protobuf.c\<close>, \<^verbatim>\<open>canbus_isotp.c\<close>, \<^verbatim>\<open>canbus.c\<close>): the
    replies to the bus with their single slot, the ISO-TP sender and receiver, the receive filter
    of the controller, the transmit and reply threads, the error reports and the heartbeat.
  \<^item> \<^bold>\<open>Control\<close> (\<^verbatim>\<open>gopro_control.c\<close>, \<^verbatim>\<open>buttons.c\<close>, the command thread of \<^verbatim>\<open>gopro_ble_discovery.c\<close>) and
    \<^bold>\<open>Leds\<close> (\<^verbatim>\<open>leds.c\<close>, \<^verbatim>\<open>led_simple.c\<close>, \<^verbatim>\<open>led_rgb.c\<close>): the two back ends, the pins of the simple
    one and the pixels of the RGB one. \<^bold>\<open>Shell\<close> (\<^verbatim>\<open>shell.c\<close>): its commands, with the text they print.
  \<^item> \<^bold>\<open>Scan\<close>, \<^bold>\<open>Scan_Match\<close> (\<^verbatim>\<open>nrf_hal/scan.c\<close>): the filters, the blocklist, the connection attempts and
    the matching of an advertisement. The locale \<open>filter_table\<close> is the contract of the tables of
    addresses, appearances and manufacturer data.
  \<^item> \<^bold>\<open>Dm_Procedure\<close> (\<^verbatim>\<open>nrf_hal/gatt_dm.c\<close>): the discovery procedure with its memory;
    \<^bold>\<open>Dm_Print\<close>: the listing of the attributes found.
  \<^item> \<^bold>\<open>Discovery\<close>, \<^bold>\<open>Ble_Steps\<close> (\<^verbatim>\<open>gopro_ble_discovery.c\<close>): every work item and callback as a function
    on the record \<open>ble\<close>, and the step relation \<open>ble_step\<close> that runs them in any order with any
    answers of the Bluetooth stack; \<open>ble_reachable\<close> are the states from \<^verbatim>\<open>gopro_bt_start\<close> on.
  \<^item> \<^bold>\<open>Connect\<close>: the steps from \<^verbatim>\<open>gopro_bt_start\<close> over the scan, the link and the three discoveries to
    the start-up queries, put together for any attribute table with the three services.
  \<^item> \<^bold>\<open>Startup\<close> (\<^verbatim>\<open>main.c\<close>, \<^verbatim>\<open>buttons.c\<close>, \<^verbatim>\<open>led_simple.c\<close>): \<^verbatim>\<open>main\<close> and the initialisations it calls,
    with the simple LED back end.
  \<^item> \<^bold>\<open>Firmware\<close>: the whole board. The record \<open>firmware\<close> joins the Bluetooth side, the CAN node,
    the ISO-TP receiver with the messages it has published, and the replies under way; \<open>fw_step\<close>
    interleaves the threads, work items, timers and callbacks of both sides (all but the tasks that
    blink the LEDs and the shell, which change nothing the others read), and \<open>fw_reachable\<close> are
    the states from \<^verbatim>\<open>main\<close> on. \<open>fw_inv\<close> is the invariant of both sides together.
  \<^item> \<^bold>\<open>Command_Gate\<close>: the specification of what the firmware lets through to the camera, a record
    of three fields (services taken up, gate open, commands waiting) with five kinds of step. Each
    step of the firmware is one or more steps of it, or none.
  \<^item> \<^bold>\<open>Demo\<close>, \<^bold>\<open>Demo_Ble\<close>: concrete values and a run from the start to a connected camera, for the
    witnesses.

  How they interact. A frame from the camera enters at \<open>on_notify_received\<close>, goes through
  \<open>gopro_packet_build\<close> to the parser and changes the camera state, the LEDs or the reply slot. A
  command enters the command channel from the button, the bus or the start-up queries, passes
  \<open>gopro_cmd_validator\<close> and is written by \<open>gopro_cmd_subscriber_step\<close>, which waits for
  \<open>on_sent_data\<close>. A message from the bus enters at \<open>isotp_rx_round\<close> and reaches the camera through
  \<open>can_rx_ble_step\<close>; a reply leaves through \<open>can_reply\<close> and \<open>isotp_tx_step\<close>. The two sides share
  \<open>gopro_sys\<close>, and \<open>fw_step\<close> runs them in any order.

  Conventions. A result \<open>None\<close> is an access outside a block or through a null pointer, a failed
  assertion, or a wait that never ends (\<^verbatim>\<open>clocks_start\<close> only); that an operation returns is
  always proved as an equation with \<open>Some\<close>. Machine integers keep their width. A function that
  waits is cut at the wait: \<open>finish_step\<close> runs \<^verbatim>\<open>discovery_finish_work_handler\<close> from one
  semaphore to the next, a round of a thread is one function, and the order of rounds is a list
  or a step relation. Loops need no fuel: each recursion is structural or has a measure, but for
  the wait for the clock.

  Outside the source, and parameters here: the answers of the Bluetooth stack, the drivers and
  the kernel (arguments of the handler that asks), \<^verbatim>\<open>k_malloc\<close> (\<open>env_alloc\<close>, with \<open>alloc_ok\<close>: a block
  has the size asked for), the encoders and decoders generated from the \<^verbatim>\<open>.proto\<close> files (\<open>dec_\<close> and
  \<open>enc_\<close> fields of \<open>gopro_env\<close>), the delivery of a zbus message (\<open>env_cmd_chan\<close>), \<^verbatim>\<open>bt_uuid_create\<close> and
  \<^verbatim>\<open>bt_uuid_cmp\<close> of a scanned UUID (\<open>uuid_env\<close>), and the build configuration (\<open>scan_cfg\<close>, \<open>dm_cfg\<close>).
  \<open>mem_ok\<close> states that the heap gives every chunk and that a chunk holds a declaration with a
  128-bit UUID; three requests to the stack (\<open>discover_rounds 3\<close>) are enough for a service: the
  service, its attributes, its characteristics.

  What is shown. Reassembly implements the abstract assembler, and what is segmented is put
  together again, also over notifications and over ISO-TP. Every handler keeps the declared sizes
  and every state of the whole firmware that can be reached satisfies the invariant of both sides;
  every run of it is a run of the abstract command gate, so that no command waits for the camera
  before all services have been taken up; no run brings back a lost reply slot, and a message
  from the bus that waits can always be taken. A camera that advertises itself and has the three
  services can be reached from \<^verbatim>\<open>main\<close>, with the handles of exactly these services. A discovery finds exactly the
  attributes of the service and ends unlocked or with its data; the scanner reports exactly what
  its filters say; commands are written in order, one completion for each; the poll for the
  hardware information ends; the parsers invert the encoders of status and hardware messages. The
  error theorems state what the code does where it goes wrong: each is a finding of the manifest.

  Not modelled: \<^verbatim>\<open>heap_usage\<close> and logging (they only print), the text form of a UUID,
  \<^verbatim>\<open>can_print_timing\<close>, the value handle stored with a characteristic, the mutex of the scanning
  module (each operation is one step), the fields of the scan and connection parameters of the
  stack but for the type of the scan (they are only copied), the message descriptions and the code
  generated from them, and the start of threads beyond the fact of it.
\<close>

subsection \<open>Values for the witnesses\<close>









definition demo_writer :: bt_gopro_client where
  "demo_writer = demo_client\<lparr>gc_write_params := map (\<lambda>i. \<lparr>wp_handle = 10 + i, wp_offset = 0, wp_data = [],
     wp_length = 0\<rparr>) [0, 1, 2, 3]\<rparr>"

lemma demo_writer: "wf_client demo_writer" "gc_state demo_writer = 0"
  by (simp_all add: demo_writer_def demo_client_def wf_client_def)

lemma demo_writer_send:
  "\<exists>gc'. bt_gopro_client_send (\<lambda>p. OK) gopro_start_rec_msg demo_writer = (OK, gc') \<and> distinct_write_handles gc'"
  by (simp add: bt_gopro_client_send_def demo_writer_def demo_client_def gopro_start_rec_msg_def
      distinct_write_handles_def write_pending_flag_def atomic_test_bit_def Let_def)

lemma demo_queries:
  "map (\<lambda>c. Some (0 :: u8, unat (cmd_type c))) startup_query_list = [Some (0, 2), Some (0, 2), Some (0, 2), Some (0, 2)]"
  "length startup_query_list = 4" "\<forall>c \<in> set startup_query_list. unat (cmd_type c) < 4"
  by (simp_all add: startup_query_list_def command_defs)

definition demo_node :: can_node where
  "demo_node = \<lparr>cn_sys = demo_sys GP_STATE_CONNECTED, cn_tx_queue = [], cn_data_queue = [], cn_tx_sem = 0\<rparr>"

text \<open>The control service of a camera: for each characteristic its notifying and its writable part.\<close>

definition demo_dm :: bt_gatt_dm where
  "demo_dm =
     \<lparr>dm_conn = Some 0, dm_attrs =
        \<lparr>at_uuid = UUID16 0x2800, at_handle = 1, at_perm = 0, at_val_uuid = Some (UUID16 0xFEA6),
         at_end_handle = 16, at_properties = 0\<rparr> #
        concat (map (\<lambda>k.
          [\<lparr>at_uuid = UUID16 0x2803, at_handle = of_nat (5 * k + 2), at_perm = 0, at_val_uuid = Some (notify_uuid k),
            at_end_handle = 0, at_properties = 0x10\<rparr>,
           \<lparr>at_uuid = notify_uuid k, at_handle = of_nat (5 * k + 3), at_perm = 0, at_val_uuid = None,
            at_end_handle = 0, at_properties = 0\<rparr>,
           \<lparr>at_uuid = UUID16 0x2902, at_handle = of_nat (5 * k + 4), at_perm = 0, at_val_uuid = None,
            at_end_handle = 0, at_properties = 0\<rparr>,
           \<lparr>at_uuid = UUID16 0x2803, at_handle = of_nat (5 * k + 5), at_perm = 0, at_val_uuid = Some (write_uuid k),
            at_end_handle = 0, at_properties = 8\<rparr>,
           \<lparr>at_uuid = write_uuid k, at_handle = of_nat (5 * k + 6), at_perm = 0, at_val_uuid = None,
            at_end_handle = 0, at_properties = 0\<rparr>]) [0, 1, 2])\<rparr>"

lemma demo_dm_sorted: "handles_sorted (dm_attrs demo_dm)"
  by (simp add: demo_dm_def handles_sorted_def)

lemma demo_uuids:
  "gopro_uuid m = gopro_uuid n \<longleftrightarrow> m = n" "gopro_uuid m \<noteq> UUID16 w" "UUID16 w \<noteq> gopro_uuid m"
  by (simp_all add: gopro_uuid_def)

lemma char_next_loop_numeral:
  "char_next_loop attrs i (numeral k) =
     (if at_uuid (attrs ! Suc i) = UUID16 0x2803 then Some (Suc i)
      else char_next_loop attrs (Suc i) (pred_numeral k))"
  by (simp only: numeral_eq_Suc char_next_loop.simps)

lemmas demo_dm_eval =
  with_service_def service_uuid_def Let_def bt_gatt_dm_attr_service_val_def bt_gatt_dm_char_by_uuid_def
  char_by_uuid_loop.simps bt_gatt_dm_char_next_def bt_gatt_dm_attr_chrc_val_def bt_gatt_dm_desc_by_uuid.simps
  bt_gatt_dm_desc_next_def bt_gatt_dm_attr_next_def char_next_loop_numeral bt_gatt_dm_conn_get_def

lemma demo_dm_assigned:
  "case bt_gopro_handles_assign demo_dm demo_client of None \<Rightarrow> False | Some (r, gc) \<Rightarrow> r = OK"
  by (simp add: bt_gopro_handles_assign_def assign_control_def demo_dm_def notify_uuid_def write_uuid_def demo_uuids
      demo_dm_eval)

text \<open>The tables the discovery makes of the three services of the camera, and the handles in them.\<close>

abbreviation (input) demo_at :: "u16 \<Rightarrow> bt_uuid \<Rightarrow> bt_gatt_dm_attr" where
  "demo_at h u \<equiv> \<lparr>at_uuid = u, at_handle = h, at_perm = 0, at_val_uuid = None, at_end_handle = 0, at_properties = 0\<rparr>"

abbreviation (input) demo_chrc :: "u16 \<Rightarrow> bt_uuid \<Rightarrow> u8 \<Rightarrow> bt_gatt_dm_attr" where
  "demo_chrc h u p \<equiv> (demo_at h BT_UUID_GATT_CHRC)\<lparr>at_val_uuid := Some u, at_properties := p\<rparr>"

abbreviation (input) demo_svc :: "u16 \<Rightarrow> bt_uuid \<Rightarrow> u16 \<Rightarrow> bt_gatt_dm_attr" where
  "demo_svc h u e \<equiv> (demo_at h BT_UUID_GATT_PRIMARY)\<lparr>at_val_uuid := Some u, at_end_handle := e\<rparr>"

lemma demo_tables:
  "service_dm c demo_camera (demo_service 0) 9 = \<lparr>dm_conn = c, dm_attrs =
     [demo_svc 1 (gopro_uuid 0x01) 9,
      demo_chrc 2 (gopro_uuid 2) 2, demo_at 3 (gopro_uuid 2),
      demo_chrc 4 (gopro_uuid 3) 2, demo_at 5 (gopro_uuid 3),
      demo_chrc 6 (gopro_uuid 4) 2, demo_at 7 (gopro_uuid 4),
      demo_chrc 8 (gopro_uuid 5) 2, demo_at 9 (gopro_uuid 5)]\<rparr>"
  "service_dm c demo_camera (demo_service (Suc 0)) 25 = \<lparr>dm_conn = c, dm_attrs =
     [demo_svc 10 BT_UUID_GOPRO_SERVICE 25,
      demo_chrc 11 (gopro_uuid 0x73) 0x10, demo_at 12 (gopro_uuid 0x73),
      demo_at 13 BT_UUID_GATT_CCC,
      demo_chrc 14 (gopro_uuid 0x72) 8, demo_at 15 (gopro_uuid 0x72),
      demo_chrc 16 (gopro_uuid 0x75) 0x10, demo_at 17 (gopro_uuid 0x75),
      demo_at 18 BT_UUID_GATT_CCC,
      demo_chrc 19 (gopro_uuid 0x74) 8, demo_at 20 (gopro_uuid 0x74),
      demo_chrc 21 (gopro_uuid 0x77) 0x10, demo_at 22 (gopro_uuid 0x77),
      demo_at 23 BT_UUID_GATT_CCC,
      demo_chrc 24 (gopro_uuid 0x76) 8, demo_at 25 (gopro_uuid 0x76)]\<rparr>"
  "service_dm c demo_camera (demo_service 2) 31 = \<lparr>dm_conn = c, dm_attrs =
     [demo_svc 26 (gopro_uuid 0x90) 31,
      demo_chrc 27 (gopro_uuid 0x92) 0x10, demo_at 28 (gopro_uuid 0x92),
      demo_at 29 BT_UUID_GATT_CCC,
      demo_chrc 30 (gopro_uuid 0x91) 8, demo_at 31 (gopro_uuid 0x91)]\<rparr>"
  by (simp_all add: service_dm_def service_body_def demo_camera_defs stored_attr_def raw_attr_def wifi_uuid_def
      notify_uuid_def write_uuid_def)

lemma replicate_4: "replicate 4 x = [x, x, x, x]"
  by (simp add: numeral_eq_Suc)

lemma demo_each_assigned:
  "handles_assign (service_dm c demo_camera (demo_service 0) 9) gc =
     Some (OK, gc\<lparr>gc_wifihandles := [3, 5, 7, 9], gc_conn := c\<rparr>)"
  "handles_assign (service_dm c demo_camera (demo_service (Suc 0)) 25) gc =
     Some (OK, gc\<lparr>gc_handles := [\<lparr>h_write = 15, h_notify = 12, h_notify_ccc = 13\<rparr>,
       \<lparr>h_write = 20, h_notify = 17, h_notify_ccc = 18\<rparr>, \<lparr>h_write = 25, h_notify = 22, h_notify_ccc = 23\<rparr>, no_handles],
       gc_conn := c\<rparr>)"
  "length (gc_handles gc) = 4 \<Longrightarrow> handles_assign (service_dm c demo_camera (demo_service 2) 31) gc =
     Some (OK, gc\<lparr>gc_handles := (gc_handles gc)[3 := \<lparr>h_write = 31, h_notify = 28, h_notify_ccc = 29\<rparr>], gc_conn := c\<rparr>)"
  unfolding demo_tables
  by (simp_all add: handles_assign_def bt_gopro_wifi_handles_assign_def assign_wifi_def demo_dm_eval wifi_uuid_def
      bt_gopro_handles_assign_def bt_gopro_net_handle_assign_def assign_control_def notify_uuid_def write_uuid_def
      set_handles_def no_handles_def replicate_4)

lemma demo_assigned:
  assumes "assign_services (Some 7) demo_camera demo_services gc0 = Some gc"
  shows "map h_write (gc_handles gc) = [15, 20, 25, 31] \<and> gc_wifihandles gc = [3, 5, 7, 9] \<and> gc_conn gc = Some 7"
proof -
  have "demo_services = [(demo_service 0, 9), (demo_service (Suc 0), 25), (demo_service 2, 31)]"
    by (simp add: demo_services_def demo_end_def upt_rec numeral_2_eq_2)
  with assms have "assign_services (Some 7) demo_camera [(demo_service 0, 9), (demo_service (Suc 0), 25), (demo_service 2, 31)] gc0 =
      Some gc"
    by (simp only:)
  then show ?thesis by (auto simp: demo_each_assigned)
qed
definition demo_hw :: hw_info where
  "demo_hw = \<lparr>hw_model = [0, 0, 0, 62], hw_name = [72, 49, 51], hw_deprecated = [48], hw_firmware = [50, 46, 48],
     hw_serial = [67, 51, 53], hw_ssid = [71, 80, 49], hw_mac = [48, 54, 52]\<rparr>"

lemma demo_hw: "wf_hw_info demo_hw" "length (enc_hw_info demo_hw) = 27"
  by (simp_all add: demo_hw_def wf_hw_info_def c_text_def enc_hw_info_def lstr_def)

lemma demo_name: "gs_name (demo_state st) = replicate 20 0"
  by (simp add: demo_state_def)

lemma demo_idle_flags:
  "sys_hw_sem (demo_sys st) = 0" "\<not> test_flag GP_FLAG_JUST_PAIRED (demo_sys st)"
  by (simp_all add: demo_sys_def test_flag_def demo_client_def atomic_test_bit_def)

definition demo_passing :: ble where
  "demo_passing = demo_ble\<lparr>b_sys := (demo_sys GP_STATE_ONLINE)\<lparr>sys_read_sem := 1\<rparr>, b_finish_pc := F_pass\<rparr>"




text \<open>
  Two filters enabled together, for a name and for an appearance, and an advertisement that
  holds the appearance twice and no name.
\<close>

definition demo_all_cfg :: scan_cfg where
  "demo_all_cfg = demo_scan_cfg\<lparr>sc_name_cnt := 1, sc_appearance_cnt := 1\<rparr>"

definition demo_all_filters :: bt_scan_filters where
  "demo_all_filters = (zero_filters demo_all_cfg)\<lparr>sf_name_cnt := 1, sf_name_enabled := True,
     sf_appearance := [0x340], sf_appearance_enabled := True, sf_all_mode := True\<rparr>"

definition demo_twice :: "bt_data list" where
  "demo_twice =
     [\<lparr>bd_type = 0x19, bd_len = 2, bd_data = [0x40, 0x03]\<rparr>, \<lparr>bd_type = 0x19, bd_len = 2, bd_data = [0x40, 0x03]\<rparr>]"

lemma demo_twice_hits:
  "list_all2 (\<lambda>d h. adv_hit demo_uuid_env demo_all_cfg demo_all_filters d = Some h) demo_twice [True, True]"
  by (simp add: demo_twice_def adv_hit_def demo_all_filters_def demo_all_cfg_def demo_scan_cfg_def
      is_appearance_filter_enabled_def find_appearance_def Let_def)

lemma demo_all_cfg:
  "scan_device_filter_check demo_all_cfg bs a" "check_enabled_filters demo_all_cfg demo_all_filters = 2"
  "\<not> addr_hit demo_all_cfg demo_all_filters a" "sf_all_mode demo_all_filters"
  by (simp_all add: scan_device_filter_check_def demo_all_cfg_def demo_scan_cfg_def check_enabled_filters_def
      demo_all_filters_def zero_filters_def addr_hit_def is_addr_filter_enabled_def is_name_filter_enabled_def
      is_short_name_filter_enabled_def is_uuid_filter_enabled_def is_appearance_filter_enabled_def
      is_manufacturer_data_filter_enabled_def)

text \<open>Drivers that all answer without an error, with a clock that comes up in the third round.\<close>

definition demo_hw_answers :: hw_answers where
  "demo_hw_answers =
     \<lparr>ha_clock = Some (True, 0, \<lambda>i. if i < 2 then (- 11, 0) else (0, 0)),
      ha_button = \<lparr>gd_ready = True, gd_configure = OK, gd_interrupt = OK\<rparr>, ha_pins = (None, None),
      ha_can = \<lparr>drv_rst = None, drv_ready = True, drv_set_mode = OK, drv_calc_timing = 0, drv_set_timing = OK,
                drv_add_filter = 0, drv_start = OK\<rparr>\<rparr>"

subsection \<open>Runs of the whole firmware\<close>

lemma demo_firmware:
  "\<exists>fw. fw_reachable demo_cfg demo_dmc fw \<and> gs_state (sys_state (b_sys (fw_ble fw))) = GP_STATE_CONNECTED \<and>
     unat (b_uuid_index (fw_ble fw)) = 3"
proof -
  obtain b where b: "ble_reachable demo_cfg demo_dmc b" "gs_state (sys_state (b_sys b)) = GP_STATE_CONNECTED"
    using demo_talking by blast
  have "unat (b_uuid_index b) = 3" using reachable_inv [OF _ b(1)] b(2) by (simp add: ble_inv_def talking_def)
  then show ?thesis using ble_in_firmware [OF b(1)] b(2) by blast
qed

text \<open>The button is pressed while a camera is connected.\<close>

lemma demo_button:
  "\<exists>fw c. fw_reachable demo_cfg demo_dmc fw \<and> c \<in> set (sys_cmd_queue (b_sys (fw_ble fw))) \<and> cmd_type c = 0"
proof -
  obtain fw where fw: "fw_reachable demo_cfg demo_dmc fw" "gs_state (sys_state (b_sys (fw_ble fw))) = GP_STATE_CONNECTED"
    using demo_firmware by blast
  let ?fw = "put_sys (button_pressed (bc_env demo_cfg) (b_sys (fw_ble fw))) fw"
  have "\<exists>c. c \<in> set (sys_cmd_queue (b_sys (fw_ble ?fw))) \<and> cmd_type c = 0"
    using fw(2) by (auto simp: button_pressed_result gopro_stop_rec_msg_def gopro_start_rec_msg_def)
  moreover have "fw_reachable demo_cfg demo_dmc ?fw" by (rule fw_reachable.step [OF fw(1) fw_step.button])
  ultimately show ?thesis by blast
qed

text \<open>A message comes from the bus.\<close>

lemma demo_message: "\<exists>fw. fw_reachable demo_cfg demo_dmc fw \<and> length (fw_messages fw) = 1"
proof -
  have h: "length (snd (10 :: int, replicate 10 (1 :: u8))) = 10"
    "unat (word_of_int (fst (10 :: int, replicate 10 (1 :: u8))) :: u8) \<le> 10"
    by simp_all
  have c: "\<exists>n. fst (a n) = 0" if "ha_clock demo_hw_answers = Some (m, r, a)" for m r and a :: "nat \<Rightarrow> int \<times> int"
    using that by (auto simp: demo_hw_answers_def intro: exI [of _ 2])
  have i: "fst (canbus_init (ha_can demo_hw_answers)) = OK" by (simp add: demo_hw_answers_def canbus_init_def)
  obtain acts b where m: "gopro_main demo_cfg demo_hw_answers (10, replicate 10 1) OK OK (\<lambda>a. 0) OK demo_ble = Some (acts, b)"
    "Isotp_init \<in> set (hw_can acts)"
    using main_reaches [OF demo_initial h, of demo_hw_answers demo_cfg OK OK "\<lambda>a. 0" OK] c i by blast
  from fw_reachable.main [OF demo_initial m(1)] have r: "fw_reachable demo_cfg demo_dmc (fw_boot acts b)" .
  have "fw_isotp (fw_boot acts b) = canbus_isotp_init"
    using m(2) by (simp add: fw_boot_def canbus_isotp_init_def)
  moreover obtain ir p where "isotp_rx_round OK (answers [[1, 2]]) canbus_isotp_init = Some (Some p, ir)"
    using isotp_round_message [of "[[1, 2]]" canbus_isotp_init] by (auto simp: canbus_isotp_init_def)
  ultimately have "isotp_rx_round OK (answers [[1, 2]]) (fw_isotp (fw_boot acts b)) = Some (Some p, ir)" by simp
  from fw_reachable.step [OF r fw_step.isotp_receive [OF this]] show ?thesis by (force simp: fw_boot_def)
qed





text \<open>
  C3. In every state of the whole firmware that can be reached, all fields keep their
  declared sizes, the discovery manager is consistent and waits for no release, every frame
  on the bus is valid, at most one message from the bus waits and it is well-formed, and
  there is at most one slot for a reply.
\<close>

theorem firmware_invariant:
  assumes "alloc_ok (bc_env cfg)" and "fw_reachable cfg dmc fw"
  shows "wf_sys (b_sys (fw_ble fw)) \<and> wf_client (sys_client (b_sys (fw_ble fw))) \<and>
    dm_wf dmc (b_dm (fw_ble fw)) \<and> \<not> di_release (b_dm (fw_ble fw)) \<and>
    (\<forall>f \<in> set (fw_bus fw). unat (cf_dlc f) \<in> {1..8} \<and> unat (cf_id f) \<le> 0x7FF \<and> cf_flags f = 0) \<and>
    list_all wf_mem_pkt (fw_messages fw) \<and> ir_sem (fw_isotp fw) + length (fw_messages fw) \<le> 1 \<and>
    length (fw_rx_buf fw) = 2048 \<and> fw_slots fw \<le> 1"
  using fw_reachable_inv [OF assms] bus_frames_valid [OF assms] inv_fw_slots
  by (fastforce simp: fw_inv_def ble_inv_def)

theorem firmware_invariant_witness:
  "\<exists>fw. fw_reachable demo_cfg demo_dmc fw \<and> gs_state (sys_state (b_sys (fw_ble fw))) = GP_STATE_CONNECTED \<and>
     wf_sys (b_sys (fw_ble fw)) \<and> fw_slots fw \<le> 1"
proof -
  obtain fw where fw: "fw_reachable demo_cfg demo_dmc fw" "gs_state (sys_state (b_sys (fw_ble fw))) = GP_STATE_CONNECTED"
    using demo_firmware by blast
  from firmware_invariant [OF _ fw(1)] fw show ?thesis by auto
qed

text \<open>
  C4. In every state the firmware can reach, a command for the camera waits in the queue
  only when all three services have been taken up, wherever it came from: the button, the
  bus, an ISO-TP message or the start-up queries.
\<close>

theorem commands_need_discovery:
  assumes "alloc_ok (bc_env cfg)" and "fw_reachable cfg dmc fw"
    and "c \<in> set (sys_cmd_queue (b_sys (fw_ble fw)))" and "cmd_type c \<noteq> 0xFF"
  shows "unat (b_uuid_index (fw_ble fw)) = 3"
  using assms by (rule pending_discovered)

theorem commands_need_discovery_witness:
  "\<exists>fw c. fw_reachable demo_cfg demo_dmc fw \<and> c \<in> set (sys_cmd_queue (b_sys (fw_ble fw))) \<and>
     cmd_type c = 0 \<and> unat (b_uuid_index (fw_ble fw)) = 3"
proof -
  obtain fw c where fw: "fw_reachable demo_cfg demo_dmc fw" "c \<in> set (sys_cmd_queue (b_sys (fw_ble fw)))" "cmd_type c = 0"
    using demo_button by blast
  have "alloc_ok (bc_env demo_cfg)" "cmd_type c \<noteq> 0xFF" using fw(3) by simp_all
  from commands_need_discovery [OF this(1) fw(1,2) this(2)] fw show ?thesis by blast
qed

text \<open>
  C5. For every camera that advertises itself as on and has the three services in its
  attribute table, the firmware can run from main to the connected state, with the handles
  of exactly those services assigned one after the other, the connection kept, and the
  start-up queries at the end of the command queue.
\<close>

theorem camera_connects:
  assumes "alloc_ok (bc_env cfg)" "\<And>c. env_cmd_chan (bc_env cfg) c = OK" and "mem_ok dmc"
    and "ble_initial dmc b" "\<not> test_flag GP_FLAG_JUST_PAIRED (b_sys b)"
    and "sc_addr_cnt (bc_scan cfg) = 1" "0 < sc_uuid_cnt (bc_scan cfg)"
    and "scan_device_filter_check (bc_scan cfg) (b_scan b) a"
    and "list_all2 (\<lambda>d h. (case uuid_structure d of None \<Rightarrow> Some False
      | Some ty \<Rightarrow> find_uuid (bc_uuid cfg) (bd_data d) (bd_len d) ty BT_UUID_GOPRO_SERVICE) = Some h) ads hs"
      "True \<in> set hs" "ads_ok ads" "list_ex announces_on ads"
    and "camera_ok dmc srv svcs"
  shows "\<exists>fw gc q. fw_reachable cfg dmc fw \<and> gs_state (sys_state (b_sys (fw_ble fw))) = GP_STATE_CONNECTED \<and>
    sys_cmd_queue (b_sys (fw_ble fw)) = q @ startup_query_list \<and>
    assign_services (Some conn) srv svcs (sys_client (b_sys b)) = Some gc \<and>
    gc_handles (sys_client (b_sys (fw_ble fw))) = gc_handles gc \<and>
    gc_wifihandles (sys_client (b_sys (fw_ble fw))) = gc_wifihandles gc \<and>
    gc_conn (sys_client (b_sys (fw_ble fw))) = gc_conn gc"
proof -
  obtain b' gc q where b': "ble_reachable cfg dmc b'" "gs_state (sys_state (b_sys b')) = GP_STATE_CONNECTED"
    "sys_cmd_queue (b_sys b') = q @ startup_query_list"
    "assign_services (Some conn) srv svcs (sys_client (b_sys b)) = Some gc" "same_camera gc (sys_client (b_sys b'))"
    using camera_reached [OF assms] by blast
  obtain fw where "fw_reachable cfg dmc fw" "fw_ble fw = b'" using ble_in_firmware [OF b'(1)] by blast
  then show ?thesis using b' by (auto simp: same_camera_def)
qed

theorem camera_connects_witness:
  "\<exists>fw. fw_reachable demo_cfg demo_dmc fw \<and> gs_state (sys_state (b_sys (fw_ble fw))) = GP_STATE_CONNECTED \<and>
     map h_write (gc_handles (sys_client (b_sys (fw_ble fw)))) = [15, 20, 25, 31] \<and>
     gc_wifihandles (sys_client (b_sys (fw_ble fw))) = [3, 5, 7, 9] \<and> gc_conn (sys_client (b_sys (fw_ble fw))) = Some 7"
proof -
  have env: "alloc_ok (bc_env demo_cfg)" "env_cmd_chan (bc_env demo_cfg) c = OK" for c by simp_all
  have f: "\<not> test_flag GP_FLAG_JUST_PAIRED (b_sys demo_ble)" using demo_idle_flags by (simp add: demo_ble_def)
  from camera_connects [OF env demo_mem(1) demo_initial f demo_counts demo_free demo_ads_hits _ demo_ads_ok demo_camera_ok, of 7]
  obtain fw gc where "fw_reachable demo_cfg demo_dmc fw" "gs_state (sys_state (b_sys (fw_ble fw))) = GP_STATE_CONNECTED"
    "assign_services (Some 7) demo_camera demo_services (sys_client (b_sys demo_ble)) = Some gc"
    "gc_handles (sys_client (b_sys (fw_ble fw))) = gc_handles gc"
    "gc_wifihandles (sys_client (b_sys (fw_ble fw))) = gc_wifihandles gc"
    "gc_conn (sys_client (b_sys (fw_ble fw))) = gc_conn gc"
    by auto
  then show ?thesis using demo_assigned by auto
qed

text \<open>
  C6. End to end over BLE: the frames gopro_send_big_data cuts a message into, delivered as
  notifications of a subscribed characteristic, are reassembled to the message and handed to
  the parser once.
\<close>

theorem notified_roundtrip:
  assumes env: "alloc_ok env" "env_alloc env Alloc_Packet (unat len + 2) \<noteq> None"
    and stk: "length stk = 20" "length stk' = 20" and k: "k < 4"
    and cl: "wf_client (sys_client sys)" "distinct_notif_handles (sys_client sys)"
    and w: "wf_sys sys" "wf_packet (sys_packet sys)"
    and l: "unat len \<le> 8189" "unat len \<le> length data"
  shows "\<exists>frames pk. big_data_frames stk data len (of_nat k) feat act = Some frames \<and>
    holds_message pk \<lparr>msg_type = of_nat k, msg_bytes = [feat, act] @ take (unat len) data\<rparr> \<and>
    notify_all env stk stk' k (map frame_bytes frames) sys =
      parse_and_free env stk' (sys\<lparr>sys_packet := pk\<rparr>)"
proof -
  obtain frames where f: "big_data_frames stk data len (of_nat k) feat act = Some frames"
    "frames_of (of_nat k) ([feat, act] @ take (unat len) data) frames"
    using sender_frames [OF stk(1) l] by blast
  have "env_alloc env Alloc_Packet (length ([feat, act] @ take (unat len) data)) \<noteq> None"
    using env(2) l(2) by simp
  from notified_message_parsed [OF env(1) this stk k cl w f(2)] f(1) show ?thesis by auto
qed

theorem notified_roundtrip_witness:
  "\<exists>frames pk. big_data_frames (replicate 20 0) (replicate 30 7) 30 2 0xF5 0x6F = Some frames \<and>
    holds_message pk \<lparr>msg_type = 2, msg_bytes = [0xF5, 0x6F] @ replicate 30 7\<rparr> \<and>
    notify_all demo_env (replicate 20 0) (replicate 20 0) 2 (map frame_bytes frames) (demo_sys GP_STATE_CONNECTED) =
      parse_and_free demo_env (replicate 20 0) (demo_sys GP_STATE_CONNECTED\<lparr>sys_packet := pk\<rparr>)"
  using notified_roundtrip [where env = demo_env and stk = "replicate 20 0" and stk' = "replicate 20 0"
      and k = 2 and sys = "demo_sys GP_STATE_CONNECTED" and len = 30 and data = "replicate 30 7"
      and feat = "0xF5" and act = "0x6F"]
  by simp

text \<open>
  C7. Once a discovery round is submitted for a service the camera has, the running firmware
  can reach the state in which its handles are assigned from exactly its attributes and the
  next round is submitted.
\<close>

theorem camera_service_reached:
  assumes "ble_reachable cfg dmc b" "b_start_work b" and "alloc_ok (bc_env cfg)"
    and "mem_ok dmc" and "unat (b_uuid_index b) < 3" and "\<not> di_locked (b_dm b)"
    and "sorted_wrt (<) (map ga_handle srv)" "\<forall>a \<in> set srv. 0 < ga_handle a"
    and "filter (service_with (Some (uuid_list ! unat (b_uuid_index b)))) srv = svc # others"
      "ga_user svc = Service_val (uuid_list ! unat (b_uuid_index b)) e" "ga_handle svc \<le> e"
    and "values_ok (service_body srv (ga_handle svc) e)"
      "Suc (length (service_body srv (ga_handle svc) e)) \<le> dc_max_attrs dmc"
  shows "\<exists>b' err gc. ble_reachable cfg dmc b' \<and>
    handles_assign (service_dm (b_default_conn b) srv svc e) (sys_client (b_sys b)) = Some (err, gc) \<and>
    b_sys b' = (b_sys b)\<lparr>sys_client := gc\<rparr> \<and> b_uuid_index b' = b_uuid_index b + 1 \<and> b_start_work b' \<and>
    \<not> di_locked (b_dm b') \<and> b_default_conn b' = b_default_conn b \<and> b_finish_pc b' = b_finish_pc b"
  using assms by (rule service_reached)

theorem camera_service_reached_witness:
  "\<exists>b'. ble_reachable demo_cfg demo_dmc b' \<and> b_uuid_index b' = 1 \<and> b_start_work b' \<and> b_default_conn b' = Some 7"
proof -
  obtain b where "demo_after 0 b" using demo_before by blast
  then have k: "ble_reachable demo_cfg demo_dmc b" "b_start_work b" "b_uuid_index b = 0" "\<not> di_locked (b_dm b)"
    "b_default_conn b = Some 7"
    by (simp_all add: discovered_def unat_eq_0)
  have "alloc_ok (bc_env demo_cfg)" by simp
  from camera_service_reached [OF k(1,2) this demo_mem(1) _ k(4) demo_sorted, of "demo_service 0" "[]" "demo_end 0"]
  show ?thesis using demo_find [of 0] demo_body [of 0] k(3,5) by fastforce
qed



text \<open>
  C9. A discovery of a service that the camera has, with memory and room for its attributes,
  ends completed with exactly the attributes of the service in the order of their handles,
  and the manager stays locked until they are released.
\<close>

theorem service_discovered:
  assumes "mem_ok cfg" and "bt_gatt_dm_start OK conn (Some u) True di0 = (OK, di)"
    and "sorted_wrt (<) (map ga_handle srv)" "\<forall>a \<in> set srv. 0 < ga_handle a"
    and "filter (service_with (Some u)) srv = svc # others" "ga_user svc = Service_val u e" "ga_handle svc \<le> e"
    and "values_ok (service_body srv (ga_handle svc) e)"
      "Suc (length (service_body srv (ga_handle svc) e)) \<le> dc_max_attrs cfg"
  shows "\<exists>di'. discover_rounds cfg conn srv 3 di = Some (Some Dm_completed, di') \<and>
    dm_attrs (di_dm di') = map stored_attr (svc # service_body srv (ga_handle svc) e) \<and>
    dm_conn (di_dm di') = conn \<and> di_locked di' \<and> di_release di'"
  using assms by (rule discovery_collects)

theorem service_discovered_witness:
  "\<exists>di di'. bt_gatt_dm_start OK (Some 7) (Some (uuid_list ! 1)) True demo_dm_inst = (OK, di) \<and>
     discover_rounds demo_dmc (Some 7) demo_camera 3 di = Some (Some Dm_completed, di') \<and>
     map at_handle (dm_attrs (di_dm di')) = map of_nat [10..<26]"
proof -
  obtain di where st: "bt_gatt_dm_start OK (Some 7) (Some (uuid_list ! 1)) True demo_dm_inst = (OK, di)"
    by (simp add: bt_gatt_dm_start_def demo_dm_inst_def uuid_list_def gopro_uuid_def)
  have handles: "map at_handle (map stored_attr (demo_service 1 # service_body demo_camera (ga_handle (demo_service 1)) (demo_end 1))) =
      map of_nat [10..<26]"
    by (simp add: service_body_def demo_camera_defs upt_rec)
  from service_discovered [OF demo_mem(1) st demo_sorted demo_find [of 1] demo_body [of 1]] st handles
  show ?thesis by (metis one_less_numeral_iff semiring_norm(77))
qed

text \<open>
  C10. Reassembling the frames of gopro_send_big_data gives back feature, action and
  payload, for every length up to 8189 and every earlier state of the buffer.
\<close>

theorem message_roundtrip:
  assumes "alloc_ok env" "env_alloc env Alloc_Packet (unat len + 2) \<noteq> None"
    and "wf_packet (sys_packet sys)" and "length stk' = 20"
    and "unat len \<le> 8189" "unat len \<le> length data"
  shows "\<exists>frames pk. big_data_frames stk' data len ty feat act = Some frames \<and>
    holds_message pk \<lparr>msg_type = ty, msg_bytes = [feat, act] @ take (unat len) data\<rparr> \<and>
    build_all env stk frames sys = parse_and_free env stk (sys\<lparr>sys_packet := pk\<rparr>)"
  using assms by (rule sent_message_received)

theorem message_roundtrip_witness:
  "\<exists>frames pk. big_data_frames (replicate 20 0) (replicate 100 7) 100 3 0x02 0x05 = Some frames \<and>
    holds_message pk \<lparr>msg_type = 3, msg_bytes = [0x02, 0x05] @ replicate 100 7\<rparr> \<and>
    build_all demo_env (replicate 20 0) frames (demo_sys GP_STATE_CONNECTED) =
      parse_and_free demo_env (replicate 20 0) (demo_sys GP_STATE_CONNECTED\<lparr>sys_packet := pk\<rparr>)"
  using message_roundtrip [where env = demo_env and stk = "replicate 20 0" and stk' = "replicate 20 0"
      and sys = "demo_sys GP_STATE_CONNECTED" and len = 100 and data = "replicate 100 7"
      and ty = 3 and feat = "0x02" and act = "0x05"]
  by simp



text \<open>
  C12. Once both Wi-Fi strings are read the state is connected and the LED on; the hardware
  request is published once for each round of the poll loop until the answer comes, and then
  the start-up queries, in this order, and the handler ends.
\<close>

theorem startup_queries_sent:
  assumes "\<And>c. env_cmd_chan env c = OK" and "b_finish_pc b = F_pass" "0 < sys_read_sem (b_sys b)"
    and "sys_hw_sem (b_sys b) = 0" and "n < 20" and "\<not> test_flag GP_FLAG_JUST_PAIRED (b_sys b)"
  shows "\<exists>b1 b2 b3. finish_step env stk r s b = Some b1 \<and> poll_timeouts env stk r s n b1 = Some b2 \<and>
    finish_step env stk r s (on_sys (\<lambda>sys. sys\<lparr>sys_hw_sem := 1\<rparr>) b2) = Some b3 \<and>
    gs_state (sys_state (b_sys b3)) = GP_STATE_CONNECTED \<and> b_finish_pc b3 = F_idle \<and>
    sys_leds (b_sys b1) = snd (led_mode_set LED_NUM_BT LED_MODE_ON (sys_leds (b_sys b))) \<and>
    sys_cmd_queue (b_sys b3) = sys_cmd_queue (b_sys b) @ replicate (Suc n) gopro_get_hw_info @ startup_query_list"
  using assms by (rule finish_talks)

theorem startup_queries_sent_witness:
  "\<exists>b1 b2 b3. finish_step demo_env [] (\<lambda>p. OK) (\<lambda>p. OK) demo_passing = Some b1 \<and>
     poll_timeouts demo_env [] (\<lambda>p. OK) (\<lambda>p. OK) 2 b1 = Some b2 \<and>
     finish_step demo_env [] (\<lambda>p. OK) (\<lambda>p. OK) (on_sys (\<lambda>sys. sys\<lparr>sys_hw_sem := 1\<rparr>) b2) = Some b3 \<and>
     sys_cmd_queue (b_sys b3) = replicate 3 gopro_get_hw_info @ startup_query_list \<and> b_finish_pc b3 = F_idle"
proof -
  have p: "b_finish_pc demo_passing = F_pass" "0 < sys_read_sem (b_sys demo_passing)" "sys_hw_sem (b_sys demo_passing) = 0"
    "\<not> test_flag GP_FLAG_JUST_PAIRED (b_sys demo_passing)" "sys_cmd_queue (b_sys demo_passing) = []"
    using demo_idle_flags [of GP_STATE_ONLINE] by (simp_all add: demo_passing_def test_flag_def)
  have "(2 :: nat) < 20" "Suc 2 = 3" by simp_all
  with startup_queries_sent [OF demo_alloc(3) p(1-3) _ p(4)] p(5) show ?thesis by (metis append_Nil)
qed

text \<open>
  C13. A received advertisement that can be read is reported as a match exactly when the
  device is not filtered out and, in the mode for all filters, the number of matching
  structures equals the number of enabled filters, in the other mode some filter matches;
  then every registered callback structure that listens is told, and no other.
\<close>

theorem scan_match_decided:
  assumes "list_all2 (\<lambda>d h. adv_hit ue cfg (bs_filters bs) d = Some h) ads hs"
  shows "\<exists>evs. scan_recv ue cfg create a conn ads bs = Some evs \<and>
    (\<forall>i. reports_match i evs \<longleftrightarrow> listens i bs \<and> scan_device_filter_check cfg bs a \<and>
      (if sf_all_mode (bs_filters bs)
       then (of_nat (count_list (addr_hit cfg (bs_filters bs) a # hs) True) :: u8) = check_enabled_filters cfg (bs_filters bs)
       else addr_hit cfg (bs_filters bs) a \<or> True \<in> set hs))"
  using assms by (rule scan_recv_hits)

theorem scan_match_decided_witness:
  "\<exists>evs. scan_recv demo_uuid_env demo_all_cfg OK demo_addr True demo_twice
       ((b_scan demo_boot)\<lparr>bs_filters := demo_all_filters\<rparr>) = Some evs \<and> reports_match 0 evs"
proof -
  let ?bs = "(b_scan demo_boot)\<lparr>bs_filters := demo_all_filters\<rparr>"
  have l: "listens 0 ?bs" using demo_listens [of 0] by (simp add: listens_def)
  have "list_all2 (\<lambda>d h. adv_hit demo_uuid_env demo_all_cfg (bs_filters ?bs) d = Some h) demo_twice [True, True]"
    using demo_twice_hits by simp
  from scan_match_decided [OF this, of OK demo_addr True] l show ?thesis by (auto simp: demo_all_cfg)
qed

text \<open>
  C14. With no bonded camera to look for, a scan is prepared without an error and then
  reports to those who listen exactly the devices that are not filtered out and whose
  advertisement holds the GoPro service UUID.
\<close>

theorem new_camera_matched:
  assumes "sc_addr_cnt (bc_scan cfg) = 1" "0 < sc_uuid_cnt (bc_scan cfg)" and "\<forall>b \<in> set bonds. snd b"
    and "list_all2 (\<lambda>d h. (case uuid_structure d of None \<Rightarrow> Some False
      | Some ty \<Rightarrow> find_uuid (bc_uuid cfg) (bd_data d) (bd_len d) ty BT_UUID_GOPRO_SERVICE) = Some h) ads hs"
  shows "\<exists>bs' evs. scan_prepare cfg bonds bs = (OK, bs') \<and>
    scan_recv (bc_uuid cfg) (bc_scan cfg) create x conn ads bs' = Some evs \<and>
    (\<forall>i. reports_match i evs \<longleftrightarrow> listens i bs \<and> scan_device_filter_check (bc_scan cfg) bs x \<and> True \<in> set hs)"
  using assms by (rule scan_new_camera)

theorem new_camera_matched_witness:
  "\<exists>bs evs. scan_prepare demo_cfg [] (b_scan demo_boot) = (OK, bs) \<and>
     scan_recv demo_uuid_env demo_scan_cfg OK demo_addr True demo_ads bs = Some evs \<and> reports_match 0 evs"
  using new_camera_matched [OF demo_counts _ demo_ads_hits, of "[]" "b_scan demo_boot" OK demo_addr True] demo_free
    demo_listens
  by auto

text \<open>
  C15. With a bonded camera that is not connected, a scan is prepared without an error and
  then reports exactly the advertisements of the first such camera, since the address filter
  holds one entry, unless it is filtered out.
\<close>

theorem bonded_camera_matched:
  assumes "sc_addr_cnt (bc_scan cfg) = 1" "0 < sc_uuid_cnt (bc_scan cfg)"
    and "find (\<lambda>b. \<not> snd b) bonds = Some (a, c)"
  shows "\<exists>bs' evs. scan_prepare cfg bonds bs = (OK, bs') \<and>
    scan_recv (bc_uuid cfg) (bc_scan cfg) create x conn ads bs' = Some evs \<and>
    (\<forall>i. reports_match i evs \<longleftrightarrow> listens i bs \<and> scan_device_filter_check (bc_scan cfg) bs x \<and> x = a)"
  using assms by (rule scan_bonded_camera)

theorem bonded_camera_matched_witness:
  "\<exists>bs evs. scan_prepare demo_cfg [(demo_addr, False), (demo_addr\<lparr>addr_type := 0\<rparr>, False)] (b_scan demo_boot) = (OK, bs) \<and>
     scan_recv demo_uuid_env demo_scan_cfg OK (demo_addr\<lparr>addr_type := 0\<rparr>) True [] bs = Some evs \<and> \<not> reports_match 0 evs"
proof -
  have "demo_addr\<lparr>addr_type := 0\<rparr> \<noteq> demo_addr" by (simp add: demo_addr_def)
  with bonded_camera_matched [OF demo_counts, of "[(demo_addr, False), (demo_addr\<lparr>addr_type := 0\<rparr>, False)]" demo_addr False
      "b_scan demo_boot" OK "demo_addr\<lparr>addr_type := 0\<rparr>" True "[]"]
  show ?thesis by auto
qed

text \<open>
  C16. Whatever the stack reports to a running discovery, the manager keeps its invariant,
  and an event to the application leaves it either completed and locked with its data or
  released and unlocked.
\<close>

theorem discovery_lock_kept:
  assumes "discovery_callback cfg conn attr di = Some (it, ev, di')" and "dm_wf cfg di" and "dm_active di"
  shows "dm_wf cfg di' \<and> event_ok ev di'"
  using assms by (rule callback_event)

theorem discovery_lock_kept_witness:
  "\<exists>di di'. bt_gatt_dm_start OK (Some 7) (Some (uuid_list ! 0)) True demo_dm_inst = (OK, di) \<and>
     discovery_callback demo_dmc (Some 8) None di = Some (BT_GATT_ITER_STOP, Some (Dm_error (Neg EFAULT)), di') \<and>
     dm_wf demo_dmc di' \<and> \<not> di_locked di'"
proof -
  obtain di where st: "bt_gatt_dm_start OK (Some 7) (Some (uuid_list ! 0)) True demo_dm_inst = (OK, di)"
    and conn: "dm_conn (di_dm di) = Some 7"
    by (simp add: bt_gatt_dm_start_def demo_dm_inst_def uuid_list_def gopro_uuid_def)
  have wf: "dm_wf demo_dmc demo_dm_inst" using demo_initial by (simp add: ble_initial_def demo_ble_def)
  obtain di' where cb: "discovery_callback demo_dmc (Some 8) None di =
      Some (BT_GATT_ITER_STOP, Some (Dm_error (Neg EFAULT)), di')"
    by (simp add: discovery_callback_def conn stop_with_def discovery_complete_error_def)
  from discovery_lock_kept [OF cb] start_wf [OF wf st] st cb show ?thesis by (auto simp: event_ok_def)
qed

text \<open>
  C17. The command thread writes a queue of commands in order, one write accepted and
  completed for each, and leaves no write pending, provided the stack accepts the writes and
  completes each within the wait.
\<close>

theorem commands_written:
  assumes "sys_cmd_queue sys = cs @ q" and "\<forall>c \<in> set cs. unat (cmd_type c) < 4"
    and "writes_ok (sys_client sys)" and "writes_idle (sys_client sys)"
    and "sys_write_sem sys = 0" and "\<And>p. w p = OK"
  shows "\<exists>sys'. gopro_cmd_run env w (map (\<lambda>c. Some (0, unat (cmd_type c))) cs) sys =
      Some (replicate (length cs) (Round_write OK True), sys') \<and>
    sys_cmd_queue sys' = q \<and> writes_idle (sys_client sys')"
  using assms by (rule cmd_run_writes)

theorem commands_written_witness:
  "\<exists>sys'. gopro_cmd_run demo_env (\<lambda>p. OK) [Some (0, 2), Some (0, 2), Some (0, 2), Some (0, 2)]
       (demo_sys GP_STATE_CONNECTED\<lparr>sys_cmd_queue := startup_query_list\<rparr>) =
     Some (replicate 4 (Round_write OK True), sys') \<and> sys_cmd_queue sys' = [] \<and> writes_idle (sys_client sys')"
  using commands_written [where sys = "demo_sys GP_STATE_CONNECTED\<lparr>sys_cmd_queue := startup_query_list\<rparr>"
      and cs = startup_query_list and q = "[]" and w = "\<lambda>p. OK" and env = demo_env]
  by (simp add: demo_queries del: gopro_cmd_run.simps)

text \<open>
  C18. No run of the whole firmware makes a reply slot: the free slots, the replies that
  wait and those under way never grow in number, so that a slot lost by a failed allocation
  or a refused transfer is lost for ever.
\<close>

theorem reply_slot_never_returns:
  assumes "alloc_ok (bc_env cfg)" and "fw_reachable cfg dmc fw" and "(fw_step cfg dmc)\<^sup>*\<^sup>* fw fw'"
  shows "sys_can_reply_sem (b_sys (fw_ble fw')) + length (sys_can_tx (b_sys (fw_ble fw'))) + length (fw_flight fw') \<le>
      sys_can_reply_sem (b_sys (fw_ble fw)) + length (sys_can_tx (b_sys (fw_ble fw))) + length (fw_flight fw) \<and>
    (fw_slots fw = 0 \<longrightarrow> (\<forall>env addr data. fst (can_reply env addr data (b_sys (fw_ble fw'))) = Neg EINVAL))"
  using reply_slot_lost [OF assms] by (auto simp: fw_slots_def can_reply_def)

theorem reply_slot_never_returns_witness:
  "\<exists>fw fw'. fw_reachable demo_cfg demo_dmc fw \<and> fw_step demo_cfg demo_dmc fw fw' \<and> fw_slots fw' \<le> fw_slots fw"
proof -
  obtain fw where fw: "fw_reachable demo_cfg demo_dmc fw" using demo_firmware by blast
  have s: "fw_step demo_cfg demo_dmc fw (put_node (can_tx_callback (fw_node fw)) fw)" by (rule fw_step.can_sent)
  have a: "alloc_ok (bc_env demo_cfg)" by simp
  have "(fw_step demo_cfg demo_dmc)\<^sup>*\<^sup>* fw (put_node (can_tx_callback (fw_node fw)) fw)" using s by (rule r_into_rtranclp)
  from reply_slot_never_returns [OF a fw this] have "fw_slots (put_node (can_tx_callback (fw_node fw)) fw) \<le> fw_slots fw"
    unfolding fw_slots_def by (rule conjunct1)
  then show ?thesis using fw s by blast
qed

text \<open>
  C19. In every reachable state in which a message from the bus waits, the forwarding task
  can take it, whatever its bytes are and whatever it decodes to; afterwards none waits and
  the receive semaphore is free.
\<close>

theorem waiting_message_forwarded:
  assumes "alloc_ok (bc_env cfg)" and "fw_reachable cfg dmc fw" and "fw_messages fw \<noteq> []"
  shows "\<exists>fw'. fw_step cfg dmc fw fw' \<and> fw_messages fw' = [] \<and> ir_sem (fw_isotp fw') = 1"
  using assms by (rule message_forwarded)

theorem waiting_message_forwarded_witness:
  "\<exists>fw fw'. fw_reachable demo_cfg demo_dmc fw \<and> length (fw_messages fw) = 1 \<and>
     fw_step demo_cfg demo_dmc fw fw' \<and> fw_messages fw' = []"
proof -
  obtain fw where fw: "fw_reachable demo_cfg demo_dmc fw" "length (fw_messages fw) = 1" using demo_message by blast
  then have "fw_messages fw \<noteq> []" by auto
  from waiting_message_forwarded [OF _ fw(1) this] fw show ?thesis by auto
qed

text \<open>
  C20. When the clock, where it is configured, comes up and the hardware identifier is no
  longer than its buffer, main always reaches the start of Bluetooth, whatever becomes of
  the button, the LEDs and the CAN controller; the idle LED mode is set, and the button and
  ISO-TP are attached exactly when their drivers answered without an error.
\<close>

theorem main_starts_firmware:
  assumes "ble_initial dmc b" and "length (snd hwid) = 10" "unat (word_of_int (fst hwid) :: u8) \<le> 10"
    and "\<And>m r a. ha_clock hw = Some (m, r, a) \<Longrightarrow> \<exists>n. fst (a n) = 0"
  shows "\<exists>acts b'. gopro_main cfg hw hwid auth info idc en b = Some (acts, b') \<and>
    ble_reachable cfg dmc b' \<and>
    sys_leds (b_sys b') = (sys_leds (b_sys b))[1 := LED_MODE_BLINK_5S] \<and>
    (Callback_add \<in> set (hw_button acts) \<longleftrightarrow>
       gd_ready (ha_button hw) \<and> gd_configure (ha_button hw) = OK \<and> gd_interrupt (ha_button hw) = OK) \<and>
    (Isotp_init \<in> set (hw_can acts) \<longleftrightarrow> fst (canbus_init (ha_can hw)) = OK)"
  using assms by (rule main_reaches)

theorem main_starts_firmware_witness:
  "\<exists>acts b'. gopro_main demo_cfg demo_hw_answers (10, replicate 10 1) OK OK (\<lambda>a. 0) OK demo_ble = Some (acts, b') \<and>
     ble_reachable demo_cfg demo_dmc b' \<and> Callback_add \<in> set (hw_button acts)"
proof -
  have h: "length (snd (10 :: int, replicate 10 (1 :: u8))) = 10"
    "unat (word_of_int (fst (10 :: int, replicate 10 (1 :: u8))) :: u8) \<le> 10"
    by simp_all
  have c: "\<exists>n. fst (a n) = 0" if "ha_clock demo_hw_answers = Some (m, r, a)" for m r and a :: "nat \<Rightarrow> int \<times> int"
    using that by (auto simp: demo_hw_answers_def intro: exI [of _ 2])
  obtain acts b' where
    "gopro_main demo_cfg demo_hw_answers (10, replicate 10 1) OK OK (\<lambda>a. 0) OK demo_ble = Some (acts, b')"
    "ble_reachable demo_cfg demo_dmc b'"
    "Callback_add \<in> set (hw_button acts) \<longleftrightarrow> gd_ready (ha_button demo_hw_answers) \<and>
       gd_configure (ha_button demo_hw_answers) = OK \<and> gd_interrupt (ha_button demo_hw_answers) = OK"
    using main_starts_firmware [OF demo_initial h, of demo_hw_answers demo_cfg OK OK "\<lambda>a. 0" OK] c by blast
  then show ?thesis by (auto simp: demo_hw_answers_def)
qed

text \<open>
  C21. A round of the CAN-to-BLE task makes no access outside its 2048-byte buffer or the
  frames, whatever the packet decodes to, keeps the state well-formed and gives the receive
  semaphore.
\<close>

theorem can_rx_round_safe:
  assumes "wf_mem_pkt p" and "wf_can_rx rx" and "wf_sys sys" and "length stk = 20"
  shows "\<exists>rx' sys'. can_rx_ble_step env stk p (rx, sys) = Some (rx', sys') \<and> wf_can_rx rx' \<and>
    crx_sem rx' = 1 \<and> handler_ok sys sys'"
  using assms by (rule can_rx_ble_total)

theorem can_rx_round_safe_witness:
  "\<exists>rx' sys'. can_rx_ble_step demo_env (replicate 20 0) \<lparr>mp_index = 3, mp_len = 3, mp_data = Some [1, 2, 3]\<rparr>
      (\<lparr>crx_buf = replicate 2048 0, crx_sem = 0\<rparr>, demo_sys GP_STATE_CONNECTED) = Some (rx', sys') \<and> crx_sem rx' = 1"
  using can_rx_round_safe [of "\<lparr>mp_index = 3, mp_len = 3, mp_data = Some [1, 2, 3]\<rparr>"
      "\<lparr>crx_buf = replicate 2048 0, crx_sem = 0\<rparr>" "demo_sys GP_STATE_CONNECTED" "replicate 20 0" demo_env]
  by (auto simp: wf_mem_pkt_def wf_can_rx_def)

text \<open>
  C22. A CAN frame with a command identifier and 1 to 8 bytes becomes one queued command
  with its payload when the camera is connected; when it is not, nothing is queued for the
  camera and the bus gets the error frame; other identifiers change nothing.
\<close>

theorem can_frame_routed:
  assumes "wf_frame f" and "unat (cf_dlc f) \<in> {1..8}"
    and "\<And>c. env_cmd_chan env c = OK" and "deliver err_state_frame = OK"
  shows "rx_callback_function env deliver f n = Some (case rx_cmd_type (cf_id f) of
      None \<Rightarrow> n
    | Some ty \<Rightarrow>
        if ty = 0xFF \<or> gs_state (sys_state (cn_sys n)) = GP_STATE_CONNECTED
        then n\<lparr>cn_sys := (cn_sys n)\<lparr>sys_cmd_queue := sys_cmd_queue (cn_sys n) @ [rx_command f ty]\<rparr>\<rparr>
        else n\<lparr>cn_tx_queue := cn_tx_queue n @ [err_state_frame]\<rparr>)"
  using assms rx_callback_queued [of f _ n env deliver] rx_callback_refused [of f _ n deliver env]
    rx_callback_ignored [of f env deliver n]
  by (cases "rx_cmd_type (cf_id f)") auto

theorem can_frame_routed_witness:
  "rx_callback_function demo_env (\<lambda>f. OK) \<lparr>cf_id = 0x772, cf_dlc = 4, cf_flags = 0, cf_data = [3, 1, 1, 1, 0, 0, 0, 0]\<rparr>
     \<lparr>cn_sys = demo_sys GP_STATE_CONNECTED, cn_tx_queue = [], cn_data_queue = [], cn_tx_sem = 0\<rparr> =
   Some \<lparr>cn_sys = demo_sys GP_STATE_CONNECTED\<lparr>sys_cmd_queue := [gopro_start_rec_msg]\<rparr>,
          cn_tx_queue = [], cn_data_queue = [], cn_tx_sem = 0\<rparr>"
  using can_frame_routed [of "\<lparr>cf_id = 0x772, cf_dlc = 4, cf_flags = 0, cf_data = [3, 1, 1, 1, 0, 0, 0, 0]\<rparr>"
      demo_env "\<lambda>f. OK" "\<lparr>cn_sys = demo_sys GP_STATE_CONNECTED, cn_tx_queue = [], cn_data_queue = [], cn_tx_sem = 0\<rparr>"]
  by (simp add: wf_frame_def rx_cmd_type_def rx_command_def can_payload_def command_defs)

text \<open>
  C23. A buffer of 21 to 8190 bytes sent by gopro_send_buf is reassembled to itself.
\<close>

theorem buffer_roundtrip:
  assumes "alloc_ok env" "env_alloc env Alloc_Packet (unat len) \<noteq> None"
    and "wf_packet (sys_packet sys)"
    and "20 < unat len" "unat len < 8191" "unat len \<le> length data"
  shows "\<exists>frames pk. send_buf_frames stk' data len ty = Some frames \<and>
    holds_message pk \<lparr>msg_type = ty, msg_bytes = take (unat len) data\<rparr> \<and>
    build_all env stk frames sys = parse_and_free env stk (sys\<lparr>sys_packet := pk\<rparr>)"
  using assms by (rule sent_buffer_received)

theorem buffer_roundtrip_witness:
  "\<exists>frames pk. send_buf_frames [] (replicate 50 9) 50 1 = Some frames \<and>
    holds_message pk \<lparr>msg_type = 1, msg_bytes = replicate 50 9\<rparr> \<and>
    build_all demo_env [] frames (demo_sys GP_STATE_CONNECTED) =
      parse_and_free demo_env [] (demo_sys GP_STATE_CONNECTED\<lparr>sys_packet := pk\<rparr>)"
  using buffer_roundtrip [where env = demo_env and stk = "[]" and stk' = "[]"
      and sys = "demo_sys GP_STATE_CONNECTED" and len = 50 and data = "replicate 50 9" and ty = 1]
  by simp

text \<open>
  C24. When the completion of a write does not come in time, the next command of the same
  kind is taken from the queue, refused with -EALREADY and lost.
\<close>

theorem command_dropped:
  assumes "sys_cmd_queue sys = c # c' # q" and "unat (cmd_type c) < 4" "cmd_type c' = cmd_type c"
    and "writes_ok (sys_client sys)" and "writes_idle (sys_client sys)"
    and "sys_write_sem sys = 0" and "\<And>p. w p = OK"
  shows "\<exists>sys'. gopro_cmd_run env w [None, None] sys =
      Some ([Round_write OK False, Round_write (Neg EALREADY) False], sys') \<and> sys_cmd_queue sys' = q"
  using assms by (rule cmd_step_timeout)

theorem command_dropped_witness:
  "\<exists>sys'. gopro_cmd_run demo_env (\<lambda>p. OK) [None, None]
      (demo_sys GP_STATE_CONNECTED\<lparr>sys_cmd_queue := [gopro_start_rec_msg, gopro_stop_rec_msg]\<rparr>) =
      Some ([Round_write OK False, Round_write (Neg EALREADY) False], sys') \<and> sys_cmd_queue sys' = []"
  using command_dropped [where sys = "demo_sys GP_STATE_CONNECTED\<lparr>sys_cmd_queue := [gopro_start_rec_msg, gopro_stop_rec_msg]\<rparr>"
      and c = gopro_start_rec_msg and c' = gopro_stop_rec_msg and q = "[]" and w = "\<lambda>p. OK" and env = demo_env]
  by (simp add: command_defs del: gopro_cmd_run.simps)

text \<open>
  C25. A write that the stack accepts sets exactly its own pending flag; its completion
  clears exactly that flag and gives the write semaphore.
\<close>

theorem write_then_completion:
  assumes "bt_gopro_client_send w c gc = (OK, gc')" and "wf_client gc"
    and "distinct_write_handles gc'" and "sys_client sys = gc'"
  shows "gc_state gc' = atomic_set_bit (write_pending_flag (unat (cmd_type c))) (gc_state gc) \<and>
    gc_state (sys_client (on_sent_data err (unat (cmd_type c)) sys)) = gc_state gc \<and>
    sys_write_sem (on_sent_data err (unat (cmd_type c)) sys) = k_sem_give 1 (sys_write_sem sys)"
  using send_then_sent [OF assms] send_accepted [OF assms(1,2)] by blast

theorem write_then_completion_witness:
  "\<exists>gc'. bt_gopro_client_send (\<lambda>p. OK) gopro_start_rec_msg demo_writer = (OK, gc') \<and>
     gc_state gc' = atomic_set_bit 6 0 \<and>
     gc_state (sys_client (on_sent_data 0 0 (demo_sys GP_STATE_CONNECTED\<lparr>sys_client := gc'\<rparr>))) = 0"
proof -
  obtain gc' where s: "bt_gopro_client_send (\<lambda>p. OK) gopro_start_rec_msg demo_writer = (OK, gc')"
    "distinct_write_handles gc'"
    using demo_writer_send by blast
  from write_then_completion [OF s(1) demo_writer(1) s(2), of "demo_sys GP_STATE_CONNECTED\<lparr>sys_client := gc'\<rparr>" 0] s(1)
  show ?thesis by (simp add: demo_writer(2) gopro_start_rec_msg_def write_pending_flag_def)
qed



text \<open>
  C27. Over any run of the CAN transmit thread the reports of a timeout and of its end
  alternate, starting with a timeout, whatever the driver answers and whichever completions
  arrive.
\<close>

theorem can_faults_reported_once:
  assumes "can_tx_run rs (n, \<lparr>tx_error_flag = 0, tx_timeout_flag = 0, tx_log = []\<rparr>, []) = Some (n', th', bus')"
  shows "alternates Send_timeout (timeout_events (tx_log th'))"
  using can_tx_run_ok [OF assms] by (simp add: tx_thread_ok_def timeout_events_def)

theorem can_faults_reported_once_witness:
  "\<exists>n' th' bus'. can_tx_run [(\<lambda>f. OK, False), (\<lambda>f. OK, False), (\<lambda>f. OK, True)]
      (demo_node\<lparr>cn_tx_queue := replicate 3 err_state_frame\<rparr>,
       \<lparr>tx_error_flag = 0, tx_timeout_flag = 0, tx_log = []\<rparr>, []) = Some (n', th', bus') \<and>
     alternates Send_timeout (timeout_events (tx_log th')) \<and> length bus' = 3"
proof -
  obtain n' th' bus' where r: "can_tx_run [(\<lambda>f. OK, False), (\<lambda>f. OK, False), (\<lambda>f. OK, True)]
      (demo_node\<lparr>cn_tx_queue := replicate 3 err_state_frame\<rparr>,
       \<lparr>tx_error_flag = 0, tx_timeout_flag = 0, tx_log = []\<rparr>, []) = Some (n', th', bus')" "length bus' = 3"
    using can_tx_run_sends [of "[(\<lambda>f. OK, False), (\<lambda>f. OK, False), (\<lambda>f. OK, True)]"
      "demo_node\<lparr>cn_tx_queue := replicate 3 err_state_frame\<rparr>"] by force
  from can_faults_reported_once [OF r(1)] r show ?thesis by blast
qed



text \<open>
  C29. A hardware-information reply built from model, firmware, serial number and access
  point fields is parsed to those strings, whatever the four fields contain within their
  sizes.
\<close>

theorem hw_info_roundtrip:
  assumes "wf_state s" and "wf_hw_info h" and "length trail = 11"
    and "len = of_nat (length (enc_hw_info h @ trail))"
  shows "\<exists>model s'. hw_info_fields ([f, a] @ enc_hw_info h @ trail) len s = Some (HW_Parsed model True, s') \<and>
    wf_state s' \<and> hw_info_in s' h"
  using assms by (rule hw_info_read)

theorem hw_info_roundtrip_witness:
  "\<exists>model s'. hw_info_fields ([0x3C, 0] @ enc_hw_info demo_hw @ replicate 11 1) 38 (demo_state GP_STATE_CONNECTED) =
      Some (HW_Parsed model True, s') \<and> hw_info_in s' demo_hw"
  using hw_info_roundtrip [of "demo_state GP_STATE_CONNECTED" demo_hw "replicate 11 1" 38 "0x3C" 0]
  by (auto simp: demo_hw)







text \<open>
  C33. After a successful handle assignment on a sorted attribute table the three control
  characteristics have the handles of their own value and CCC attributes, all notification
  and write handles differ, and the network handles are cleared.
\<close>

theorem control_handles_assigned:
  assumes "bt_gopro_handles_assign dm gc = Some (OK, gc')" and "handles_sorted (dm_attrs dm)"
  shows "(\<forall>k < 3. control_assigned dm k (gc_handles gc' ! k)) \<and> gc_handles gc' ! 3 = no_handles \<and>
    gc_conn gc' = dm_conn dm \<and>
    (\<forall>i < 3. \<forall>j < 3. h_notify (gc_handles gc' ! i) \<noteq> h_write (gc_handles gc' ! j) \<and>
      (h_notify (gc_handles gc' ! i) = h_notify (gc_handles gc' ! j) \<longleftrightarrow> i = j) \<and>
      (h_write (gc_handles gc' ! i) = h_write (gc_handles gc' ! j) \<longleftrightarrow> i = j))"
  using handles_assigned [OF assms(1)] handles_distinct [OF assms] by blast

theorem control_handles_assigned_witness:
  "\<exists>gc'. bt_gopro_handles_assign demo_dm demo_client = Some (OK, gc') \<and>
     (\<forall>k < 3. control_assigned demo_dm k (gc_handles gc' ! k)) \<and> gc_conn gc' = Some 0"
proof -
  obtain gc' where a: "bt_gopro_handles_assign demo_dm demo_client = Some (OK, gc')"
    using demo_dm_assigned by (auto split: option.splits)
  from control_handles_assigned [OF a demo_dm_sorted] a show ?thesis by (simp add: demo_dm_def)
qed

text \<open>
  C34. The binary search attr_find_by_handle gives what a linear search of the sorted table
  gives, for every handle, those that are not there included.
\<close>

theorem attribute_found:
  assumes "handles_sorted (dm_attrs dm)"
  shows "attr_find_by_handle dm h = find (\<lambda>i. at_handle (dm_attrs dm ! i) = h) [0 ..< length (dm_attrs dm)]"
  using assms by (rule find_by_handle_linear)

theorem attribute_found_witness: "attr_find_by_handle demo_dm 4 = Some 3"
  using attribute_found [OF demo_dm_sorted, of 4] by (simp add: demo_dm_def upt_rec)

text \<open>
  C35. A message of 8190 bytes passes the length guard of gopro_send_big_data, but its
  header announces length 0 and the receiver drops it.
\<close>

theorem longest_message_is_lost:
  assumes "alloc_ok env" and "wf_packet (sys_packet sys)"
    and "unat len = 8190" "8190 \<le> length data"
  shows "\<exists>frames pk. big_data_frames stk' data len ty feat act = Some frames \<and>
    build_all env stk frames sys = Some (sys\<lparr>sys_packet := pk\<rparr>) \<and> pk_data pk = None"
  using assms by (rule longest_message_lost)

theorem longest_message_is_lost_witness:
  "\<exists>frames pk. big_data_frames [] (replicate 8190 0) 8190 3 2 5 = Some frames \<and>
    build_all demo_env [] frames (demo_sys GP_STATE_CONNECTED) =
      Some (demo_sys GP_STATE_CONNECTED\<lparr>sys_packet := pk\<rparr>) \<and> pk_data pk = None"
  using longest_message_is_lost [of demo_env "demo_sys GP_STATE_CONNECTED" 8190 "replicate 8190 0" "[]" 3 2 5 "[]"]
  by simp

text \<open>
  C36. A first frame that carries more bytes than it announces makes gopro_packet_build
  write behind the block it has allocated.
\<close>

theorem first_frame_writes_past_block:
  assumes "gopro_packet_get_type c \<notin> {gopro_packet_cont, gopro_packet_invalid}"
    and "wf_cmd c" "unat (cmd_len c) \<le> 20" "header_size (gopro_packet_get_type c) \<le> unat (cmd_len c)"
    and "0 < gopro_packet_get_len c" "nat (gopro_packet_get_len c) < length (frame_payload c)"
    and "alloc_ok env" "heap_has env c"
  shows "gopro_packet_build env stk c sys = None"
  using assms by (rule first_frame_overflow)

theorem first_frame_writes_past_block_witness:
  "gopro_packet_build demo_env [] \<lparr>cmd_len = 6, cmd_type = 0, cmd_data = [3, 1, 2, 3, 4, 5] @ replicate 14 0\<rparr>
     (demo_sys GP_STATE_CONNECTED) = None"
  by (rule first_frame_writes_past_block)
     (simp_all add: gopro_packet_get_type_def gopro_packet_get_len_def wf_cmd_def header_size_def
        frame_payload_def frame_bytes_def heap_has_def)

text \<open>
  C37. A camera that never answers the hardware request does not hold the handler: after 20
  waits it publishes the start-up queries and ends, with 19 further requests sent.
\<close>

theorem hw_poll_ends:
  assumes "\<And>c. env_cmd_chan env c = OK" and "b_finish_pc b = F_poll 0" and "sys_hw_sem (b_sys b) = 0"
    and "gs_state (sys_state (b_sys b)) = GP_STATE_CONNECTED" and "\<not> test_flag GP_FLAG_JUST_PAIRED (b_sys b)"
  shows "\<exists>b'. poll_timeouts env stk r s 20 b = Some b' \<and> b_finish_pc b' = F_idle \<and>
    sys_cmd_queue (b_sys b') = sys_cmd_queue (b_sys b) @ replicate 19 gopro_get_hw_info @ startup_query_list"
  using assms by (rule poll_gives_up)

theorem hw_poll_ends_witness:
  "\<exists>b'. poll_timeouts demo_env [] (\<lambda>p. OK) (\<lambda>p. OK) 20
       (demo_ble\<lparr>b_sys := demo_sys GP_STATE_CONNECTED, b_finish_pc := F_poll 0\<rparr>) = Some b' \<and>
     length (sys_cmd_queue (b_sys b')) = 23"
  using hw_poll_ends [of demo_env "demo_ble\<lparr>b_sys := demo_sys GP_STATE_CONNECTED, b_finish_pc := F_poll 0\<rparr>"
      "[]" "\<lambda>p. OK" "\<lambda>p. OK"]
    demo_idle_flags [of GP_STATE_CONNECTED]
  by (auto simp: demo_queries)





text \<open>
  C40. A receive error after the first block ends the ISO-TP receiving thread: nothing is
  published and no later message is ever received.
\<close>

theorem isotp_error_ends_thread:
  assumes "ir_running ir" and "0 < ir_sem ir" and "e < 0" and "f \<noteq> []" "0 < n" "n + length f < 2 ^ 31"
  shows "\<exists>ir'. isotp_rx_round pub ((Recv n [f], True) # (Recv_error e, mem) # rs) ir = Some (None, ir') \<and>
    (\<forall>pub' rs'. isotp_rx_round pub' rs' ir' = Some (None, ir'))"
  using later_error_ends_thread [OF assms] ended_thread_idle by blast

theorem isotp_error_ends_thread_witness:
  "\<exists>ir'. isotp_rx_round OK [(Recv 5 [[1, 2, 3]], True), (Recv_error (- 1), True)] canbus_isotp_init = Some (None, ir') \<and>
     isotp_rx_round OK (answers [[1, 2, 3]]) ir' = Some (None, ir')"
  using isotp_error_ends_thread [of canbus_isotp_init "- 1" "[1, 2, 3]" 5 OK True "[]"]
  by (fastforce simp: canbus_isotp_init_def)

end
